(* ===== verification/Story_Prelude.thy ===== *)
theory Story_Prelude
  imports Main "HOL-Library.List_Lexorder" "HOL-Library.Char_ord" "HOL-Library.Word"
begin

text \<open>
  The prelude of the storyhook development.  It holds what every component shares: the ordered
  containers (\<open>BTreeMap\<close> and \<open>BTreeSet\<close> of the Rust standard library, kept as key-sorted lists so
  that iteration order is the one the code sees), their interfaces as locales, list searches
  (\<open>position\<close>, \<open>rposition\<close>, \<open>find\<close>) and the result type of fallible operations.
\<close>

named_theorems btree_simps "equations of the ordered containers"
named_theorems text_simps "equations of the byte-string operations"

section \<open>Fallible operations\<close>

text \<open>A Rust \<open>Result<T, E>\<close> is the sum \<open>'e + 'a\<close>, with \<open>Inl\<close> the error; \<open>?\<close> is \<open>result_bind\<close>.\<close>

definition result_bind :: "'e + 'a \<Rightarrow> ('a \<Rightarrow> 'e + 'b) \<Rightarrow> 'e + 'b" where
  "result_bind r f = (case r of Inl e \<Rightarrow> Inl e | Inr x \<Rightarrow> f x)"

definition is_ok :: "'e + 'a \<Rightarrow> bool" where
  "is_ok r = (case r of Inl _ \<Rightarrow> False | Inr _ \<Rightarrow> True)"

lemma result_bind_Inl [simp]: "result_bind (Inl e) f = Inl e"
  by (simp add: result_bind_def)

lemma result_bind_Inr [simp]: "result_bind (Inr x) f = f x"
  by (simp add: result_bind_def)

lemma result_bind_eq_Inr: "result_bind r f = Inr y \<longleftrightarrow> (\<exists>x. r = Inr x \<and> f x = Inr y)"
  by (cases r) auto

lemma result_bind_eq_Inl: "result_bind r f = Inl e \<longleftrightarrow> r = Inl e \<or> (\<exists>x. r = Inr x \<and> f x = Inl e)"
  by (cases r) auto

lemma is_ok_simps [simp]: "is_ok (Inr x)" "\<not> is_ok (Inl e)"
  by (simp_all add: is_ok_def)

lemma is_ok_iff: "is_ok r \<longleftrightarrow> (\<exists>x. r = Inr x)"
  by (cases r) auto

text \<open>A loop that stops at the first error: \<open>for x in xs { step(x)?; }\<close>.\<close>

fun for_each :: "('a \<Rightarrow> 'e + unit) \<Rightarrow> 'a list \<Rightarrow> 'e + unit" where
  "for_each f [] = Inr ()"
| "for_each f (x # xs) = (case f x of Inl e \<Rightarrow> Inl e | Inr _ \<Rightarrow> for_each f xs)"

lemma for_each_ok: "for_each f xs = Inr u \<longleftrightarrow> (\<forall>x \<in> set xs. f x = Inr ())"
  by (induction xs) (auto split: sum.splits)

section \<open>List searches\<close>

text \<open>\<open>Iterator::position\<close> and \<open>Iterator::rposition\<close>.\<close>

fun position :: "('a \<Rightarrow> bool) \<Rightarrow> 'a list \<Rightarrow> nat option" where
  "position p [] = None"
| "position p (x # xs) = (if p x then Some 0 else map_option Suc (position p xs))"

fun rposition :: "('a \<Rightarrow> bool) \<Rightarrow> 'a list \<Rightarrow> nat option" where
  "rposition p [] = None"
| "rposition p (x # xs) =
     (case rposition p xs of Some i \<Rightarrow> Some (Suc i) | None \<Rightarrow> if p x then Some 0 else None)"

text \<open>\<open>Vec::insert\<close> and \<open>Vec::remove\<close>; every caller passes an index in range.\<close>

definition insert_at :: "nat \<Rightarrow> 'a \<Rightarrow> 'a list \<Rightarrow> 'a list" where
  "insert_at i x xs = take i xs @ x # drop i xs"

definition remove_at :: "nat \<Rightarrow> 'a list \<Rightarrow> 'a list" where
  "remove_at i xs = take i xs @ drop (Suc i) xs"

text \<open>\<open>Iterator::find_map\<close>.\<close>

fun find_map :: "('a \<Rightarrow> 'b option) \<Rightarrow> 'a list \<Rightarrow> 'b option" where
  "find_map f [] = None"
| "find_map f (x # xs) = (case f x of Some y \<Rightarrow> Some y | None \<Rightarrow> find_map f xs)"

lemma position_None: "position p xs = None \<longleftrightarrow> (\<forall>x \<in> set xs. \<not> p x)"
  by (induction xs) auto

lemma position_Some:
  "position p xs = Some i \<longleftrightarrow> i < length xs \<and> p (xs ! i) \<and> (\<forall>j < i. \<not> p (xs ! j))"
proof (induction xs arbitrary: i)
  case Nil
  then show ?case by simp
next
  case (Cons x xs)
  show ?case
  proof (cases i)
    case 0
    then show ?thesis by auto
  next
    case (Suc k)
    then show ?thesis using Cons.IH[of k] by (auto simp: less_Suc_eq_0_disj)
  qed
qed

lemma position_less: "position p xs = Some i \<Longrightarrow> i < length xs"
  by (simp add: position_Some)

lemma rposition_None: "rposition p xs = None \<longleftrightarrow> (\<forall>x \<in> set xs. \<not> p x)"
  by (induction xs) (auto split: option.splits)

lemma rposition_Some:
  "rposition p xs = Some i \<longleftrightarrow>
     i < length xs \<and> p (xs ! i) \<and> (\<forall>j. i < j \<longrightarrow> j < length xs \<longrightarrow> \<not> p (xs ! j))"
proof (induction xs arbitrary: i)
  case Nil
  then show ?case by simp
next
  case (Cons x xs)
  show ?case
  proof (cases i)
    case 0
    have "rposition p (x # xs) = Some 0 \<longleftrightarrow> p x \<and> rposition p xs = None"
      by (auto split: option.splits)
    then have "rposition p (x # xs) = Some 0 \<longleftrightarrow> p x \<and> (\<forall>y \<in> set xs. \<not> p y)"
      by (simp only: rposition_None)
    then show ?thesis using 0 by (auto simp: all_set_conv_all_nth less_Suc_eq_0_disj gr0_conv_Suc)
  next
    case (Suc k)
    have "rposition p (x # xs) = Some (Suc k) \<longleftrightarrow> rposition p xs = Some k"
      by (auto split: option.splits)
    then show ?thesis using Suc Cons.IH[of k] by (auto simp: less_Suc_eq_0_disj gr0_conv_Suc Suc_less_eq2)
  qed
qed

lemma find_map_None: "find_map f xs = None \<longleftrightarrow> (\<forall>x \<in> set xs. f x = None)"
  by (induction xs) (auto split: option.splits)

lemma find_map_Some_ex: "find_map f xs = Some y \<Longrightarrow> \<exists>x \<in> set xs. f x = Some y"
  by (induction xs) (auto split: option.splits)

lemma find_Some_mem: "find p xs = Some x \<Longrightarrow> x \<in> set xs \<and> p x"
  by (auto simp: find_Some_iff in_set_conv_nth)

lemma set_insert_at: "set (insert_at i x xs) = insert x (set xs)"
proof -
  have "set (take i xs) \<union> set (drop i xs) = set xs"
    by (metis append_take_drop_id set_append)
  then show ?thesis by (auto simp: insert_at_def)
qed

lemma length_insert_at: "i \<le> length xs \<Longrightarrow> length (insert_at i x xs) = Suc (length xs)"
  by (simp add: insert_at_def)

lemma set_remove_at_subset: "set (remove_at i xs) \<subseteq> set xs"
  by (auto simp: remove_at_def dest: in_set_takeD in_set_dropD)

section \<open>Ordered sets\<close>

text \<open>
  A \<open>BTreeSet<T>\<close> is a strictly ascending list.  The interface its clients rely on is the locale
  \<open>ordered_set\<close>; a client's facts about \<open>collect\<close> are proved once from the interface.
\<close>

definition bset_ok :: "'a::linorder list \<Rightarrow> bool" where
  "bset_ok xs \<longleftrightarrow> sorted_wrt (<) xs"

definition bset_insert :: "'a::linorder \<Rightarrow> 'a list \<Rightarrow> 'a list" where
  "bset_insert x xs = insort_insert x xs"

definition bset_remove :: "'a::linorder \<Rightarrow> 'a list \<Rightarrow> 'a list" where
  "bset_remove x xs = remove1 x xs"

definition bset_collect :: "'a::linorder list \<Rightarrow> 'a list" where
  "bset_collect xs = fold bset_insert xs []"

locale ordered_set =
  fixes ok :: "'s \<Rightarrow> bool"
    and empty :: "'s"
    and add :: "'a::linorder \<Rightarrow> 's \<Rightarrow> 's"
    and del :: "'a \<Rightarrow> 's \<Rightarrow> 's"
    and elems :: "'s \<Rightarrow> 'a list"
  assumes ok_empty: "ok empty"
    and ok_add: "ok s \<Longrightarrow> ok (add x s)"
    and ok_del: "ok s \<Longrightarrow> ok (del x s)"
    and elems_empty: "elems empty = []"
    and set_add: "ok s \<Longrightarrow> set (elems (add x s)) = insert x (set (elems s))"
    and set_del: "ok s \<Longrightarrow> set (elems (del x s)) = set (elems s) - {x}"
    and ascending: "ok s \<Longrightarrow> sorted_wrt (<) (elems s)"
begin

lemma ok_fold_add: "ok s \<Longrightarrow> ok (fold add xs s)"
  by (induction xs arbitrary: s) (auto simp: ok_add)

lemma set_fold_add: "ok s \<Longrightarrow> set (elems (fold add xs s)) = set xs \<union> set (elems s)"
  by (induction xs arbitrary: s) (auto simp: ok_add set_add)

lemma elems_ext: "ok s \<Longrightarrow> ok t \<Longrightarrow> set (elems s) = set (elems t) \<Longrightarrow> elems s = elems t"
  by (rule strict_sorted_equal) (simp_all add: ascending)

lemma collect_sorted_set: "elems (fold add xs empty) = sorted_list_of_set (set xs)"
proof -
  have "sorted_wrt (<) (elems (fold add xs empty))"
    by (simp add: ascending ok_fold_add ok_empty)
  moreover have "set (elems (fold add xs empty)) = set xs"
    by (simp add: set_fold_add ok_empty elems_empty)
  ultimately show ?thesis
    by (intro strict_sorted_equal) simp_all
qed

lemma collect_cong: "set xs = set ys \<Longrightarrow> elems (fold add xs empty) = elems (fold add ys empty)"
  by (simp add: collect_sorted_set)

lemma collect_elems:
  assumes "ok s"
  shows "elems (fold add (elems s) empty) = elems s"
proof (rule elems_ext)
  show "ok (fold add (elems s) empty)" by (rule ok_fold_add [OF ok_empty])
  show "set (elems (fold add (elems s) empty)) = set (elems s)"
    by (simp only: set_fold_add [OF ok_empty] elems_empty) simp
qed (rule assms)

end

lemma bset_ok_alt: "bset_ok xs \<longleftrightarrow> sorted xs \<and> distinct xs"
  by (simp add: bset_ok_def strict_sorted_iff)

interpretation bset: ordered_set bset_ok "[]" bset_insert bset_remove "\<lambda>xs. xs"
proof unfold_locales
  show "bset_ok []" by (simp add: bset_ok_def)
next
  fix s :: "'a list" and x
  assume "bset_ok s"
  then show "bset_ok (bset_insert x s)" and "bset_ok (bset_remove x s)"
    and "set (bset_insert x s) = insert x (set s)"
    and "set (bset_remove x s) = set s - {x}"
    by (auto simp: bset_ok_alt bset_insert_def bset_remove_def sorted_insort_insert
        distinct_insort_insert set_insort_insert sorted_remove1)
next
  fix s :: "'a list"
  assume "bset_ok s"
  then show "sorted_wrt (<) s" by (simp add: bset_ok_def)
qed simp

lemma set_bset_insert [simp]: "set (bset_insert x xs) = insert x (set xs)"
  by (simp add: bset_insert_def set_insort_insert)

lemma bset_collect_eq: "bset_collect xs = sorted_list_of_set (set xs)"
  unfolding bset_collect_def by (rule bset.collect_sorted_set)

lemma set_bset_collect [simp]: "set (bset_collect xs) = set xs"
  by (simp add: bset_collect_eq)

lemma bset_ok_collect [simp]: "bset_ok (bset_collect xs)"
  by (simp add: bset_collect_def bset.ok_fold_add bset.ok_empty)

section \<open>Ordered maps\<close>

text \<open>A \<open>BTreeMap<K, V>\<close> is an association list whose keys ascend strictly.\<close>

type_synonym ('k, 'v) btree_map = "('k \<times> 'v) list"

definition btm_ok :: "('k::linorder, 'v) btree_map \<Rightarrow> bool" where
  "btm_ok m \<longleftrightarrow> sorted_wrt (<) (map fst m)"

definition btm_get :: "('k::linorder, 'v) btree_map \<Rightarrow> 'k \<Rightarrow> 'v option" where
  "btm_get m k = map_of m k"

fun btm_insert :: "'k::linorder \<Rightarrow> 'v \<Rightarrow> ('k, 'v) btree_map \<Rightarrow> ('k, 'v) btree_map" where
  "btm_insert k v [] = [(k, v)]"
| "btm_insert k v ((k', v') # m) =
     (if k < k' then (k, v) # (k', v') # m
      else if k = k' then (k, v) # m
      else (k', v') # btm_insert k v m)"

definition btm_keys :: "('k::linorder, 'v) btree_map \<Rightarrow> 'k list" where
  "btm_keys m = map fst m"

definition btm_values :: "('k::linorder, 'v) btree_map \<Rightarrow> 'v list" where
  "btm_values m = map snd m"

definition btm_contains :: "('k::linorder, 'v) btree_map \<Rightarrow> 'k \<Rightarrow> bool" where
  "btm_contains m k = (btm_get m k \<noteq> None)"

text \<open>\<open>m.entry(k).or_insert(d)\<close> followed by an update of the entry in place.\<close>

definition btm_entry :: "'k::linorder \<Rightarrow> 'v \<Rightarrow> ('v \<Rightarrow> 'v) \<Rightarrow> ('k, 'v) btree_map \<Rightarrow> ('k, 'v) btree_map" where
  "btm_entry k d f m = btm_insert k (f (case btm_get m k of None \<Rightarrow> d | Some v \<Rightarrow> v)) m"

definition btm_of_list :: "('k::linorder \<times> 'v) list \<Rightarrow> ('k, 'v) btree_map" where
  "btm_of_list xs = fold (\<lambda>(k, v). btm_insert k v) xs []"

locale ordered_map =
  fixes ok :: "'m \<Rightarrow> bool"
    and empty :: "'m"
    and put :: "'k::linorder \<Rightarrow> 'v \<Rightarrow> 'm \<Rightarrow> 'm"
    and get :: "'m \<Rightarrow> 'k \<Rightarrow> 'v option"
    and keys :: "'m \<Rightarrow> 'k list"
  assumes ok_empty: "ok empty"
    and ok_put: "ok m \<Longrightarrow> ok (put k v m)"
    and get_empty: "get empty k = None"
    and get_put: "get (put k v m) k' = (if k' = k then Some v else get m k')"
    and keys_get: "ok m \<Longrightarrow> k \<in> set (keys m) \<longleftrightarrow> get m k \<noteq> None"
    and keys_ascending: "ok m \<Longrightarrow> sorted_wrt (<) (keys m)"
begin

lemma ok_fold_put: "ok m \<Longrightarrow> ok (fold (\<lambda>(k, v). put k v) xs m)"
  by (induction xs arbitrary: m) (auto simp: ok_put)

lemma get_fold_put:
  "get (fold (\<lambda>(k, v). put k v) xs m) k =
     (case map_of (rev xs) k of None \<Rightarrow> get m k | Some v \<Rightarrow> Some v)"
  by (induction xs arbitrary: m) (auto simp: get_put map_add_def split: option.splits)

lemma keys_fold_put:
  assumes "ok m"
  shows "keys (fold (\<lambda>(k, v). put k v) xs m) = sorted_list_of_set (fst ` set xs \<union> set (keys m))"
proof -
  let ?m = "fold (\<lambda>(k, v). put k v) xs m"
  have ok: "ok ?m" by (rule ok_fold_put [OF assms])
  have "set (keys ?m) = fst ` set xs \<union> set (keys m)"
  proof (rule set_eqI)
    fix k
    have "k \<in> set (keys ?m) \<longleftrightarrow> map_of (rev xs) k \<noteq> None \<or> get m k \<noteq> None"
      using keys_get [OF ok] get_fold_put by (auto split: option.splits)
    also have "\<dots> \<longleftrightarrow> k \<in> fst ` set xs \<union> set (keys m)"
      using keys_get [OF assms] by (auto simp: map_of_eq_None_iff)
    finally show "k \<in> set (keys ?m) \<longleftrightarrow> k \<in> fst ` set xs \<union> set (keys m)" .
  qed
  then show ?thesis
    by (intro strict_sorted_equal) (simp_all add: keys_ascending [OF ok])
qed

end

lemma btm_get_insert [simp]: "btm_get (btm_insert k v m) k' = (if k' = k then Some v else btm_get m k')"
  by (induction m) (auto simp: btm_get_def)

lemma btm_get_Nil [simp]: "btm_get [] k = None"
  by (simp add: btm_get_def)

lemma set_keys_btm_insert [simp]: "set (btm_keys (btm_insert k v m)) = insert k (set (btm_keys m))"
  unfolding btm_keys_def
  by (induction k v m rule: btm_insert.induct) (simp_all add: insert_commute)

lemma btm_keys_get: "k \<in> set (btm_keys m) \<longleftrightarrow> btm_get m k \<noteq> None"
  by (auto simp: btm_keys_def btm_get_def map_of_eq_None_iff)

lemma btm_ok_insert: "btm_ok m \<Longrightarrow> btm_ok (btm_insert k v m)"
proof (induction m)
  case Nil
  then show ?case by (simp add: btm_ok_def)
next
  case (Cons e m)
  obtain k' v' where e: "e = (k', v')" by fastforce
  from Cons have "btm_ok (btm_insert k v m)" and "\<forall>x \<in> set (btm_keys m). k' < x"
    by (auto simp: btm_ok_def e btm_keys_def)
  moreover have "set (map fst (btm_insert k v m)) = insert k (set (btm_keys m))"
    using set_keys_btm_insert [of k v m] by (simp add: btm_keys_def)
  ultimately show ?case using Cons.prems by (auto simp: btm_ok_def e)
qed

interpretation btm: ordered_map btm_ok "[]" btm_insert btm_get btm_keys
proof unfold_locales
  fix m :: "('a, 'b) btree_map"
  assume "btm_ok m"
  then show "sorted_wrt (<) (btm_keys m)" by (simp add: btm_ok_def btm_keys_def)
qed (auto simp: btm_ok_insert btm_keys_get, simp add: btm_ok_def)

lemma btm_get_entry [simp]:
  "btm_get (btm_entry k d f m) k' =
     (if k' = k then Some (f (case btm_get m k of None \<Rightarrow> d | Some v \<Rightarrow> v)) else btm_get m k')"
  by (simp add: btm_entry_def)

lemma btm_ok_entry: "btm_ok m \<Longrightarrow> btm_ok (btm_entry k d f m)"
  by (simp add: btm_entry_def btm_ok_insert)

lemma btm_ok_of_list [simp]: "btm_ok (btm_of_list xs)"
  unfolding btm_of_list_def by (rule btm.ok_fold_put) (rule btm.ok_empty)

lemma btm_get_of_list: "btm_get (btm_of_list xs) k = map_of (rev xs) k"
  unfolding btm_of_list_def btm.get_fold_put by (auto split: option.splits)

lemma btm_get_mem: "btm_ok m \<Longrightarrow> (k, v) \<in> set m \<longleftrightarrow> btm_get m k = Some v"
  by (auto simp: btm_ok_def btm_get_def strict_sorted_iff map_of_eq_Some_iff)

end
