(* ===== verification/App_Error.thy ===== *)
theory App_Error
  imports Story_Text
begin

text \<open>
  The errors every other component returns: \<^verbatim>\<open>src/src/error.rs\<close> with the structured findings of
  \<^verbatim>\<open>src/src/domain/finding.rs\<close> and the diagnostics of \<^verbatim>\<open>src/src/text_lint.rs\<close>.  A message is the
  exact text of the \<open>format!\<close> that builds it.  The theorems: an error survives the wire, and
  annotating it keeps its variant, its exit code and its rendered body.
\<close>

section \<open>Findings\<close>

datatype FindingCode =
    RequiredStates | UnaddressableType | MultipleParents | DanglingRelation
  | MissingInverseRelation | MissingReciprocalRelation | ParentChildCycle | UnknownType
  | MalformedLabels | MissingRow | ExtraRow | FoldFailure | ReadModelDivergence
  | UndecodableEvent | UnexaminedStory | Unstructured | MissingAttachmentBlob
  | OrphanedAttachmentBlob | AttachmentBlobMismatch

datatype FindingData =
    FD_Divergence string string string
  | FD_Event int string
  | FD_Relation string string
  | FD_Type string
  | FD_Labels "string list"
  | FD_Reason string

record Finding =
  finding_code :: FindingCode
  finding_subject :: "string option"
  finding_remedy :: "string option"
  finding_message :: string
  finding_data :: "FindingData option"

definition finding_new :: "FindingCode \<Rightarrow> string \<Rightarrow> Finding" where
  "finding_new c m = \<lparr>finding_code = c, finding_subject = None, finding_remedy = None, finding_message = m, finding_data = None\<rparr>"

definition about :: "string \<Rightarrow> Finding \<Rightarrow> Finding" where
  "about s f = f\<lparr>finding_subject := Some s\<rparr>"

definition repaired_on :: "string \<Rightarrow> Finding \<Rightarrow> Finding" where
  "repaired_on s f = f\<lparr>finding_remedy := Some s\<rparr>"

definition carrying :: "FindingData \<Rightarrow> Finding \<Rightarrow> Finding" where
  "carrying d f = f\<lparr>finding_data := Some d\<rparr>"

definition unstructured :: "string \<Rightarrow> Finding" where
  "unstructured m = finding_new Unstructured m"

section \<open>Text diagnostics\<close>

datatype Rule = SentenceLength | Contraction | Vocabulary | PossiblePassive

datatype Severity = Severity_Error | Severity_Advice

record Diagnostic =
  diag_rule :: Rule
  diag_severity :: Severity
  diag_span :: "nat \<times> nat"
  diag_line :: nat
  diag_column :: nat
  diag_message :: string
  diag_help :: string

record TextFinding =
  tf_field :: string
  tf_diagnostic :: Diagnostic

record TextLintReport =
  report_context :: "string option"
  report_story :: string
  report_findings :: "TextFinding list"

text \<open>The kebab-case name serde gives a rule.\<close>

fun rule_slug :: "Rule \<Rightarrow> string" where
  "rule_slug SentenceLength = ''sentence-length''"
| "rule_slug Contraction = ''contraction''"
| "rule_slug Vocabulary = ''vocabulary''"
| "rule_slug PossiblePassive = ''possible-passive''"

definition display_finding :: "TextFinding \<Rightarrow> string" where
  "display_finding f =
     (let d = tf_diagnostic f in
      tf_field f @ '':'' @ nat_str (diag_line d) @ '':'' @ nat_str (diag_column d) @ '' ['' @ rule_slug (diag_rule d)
      @ ''] '' @ diag_message d @ '' '' @ diag_help d)"

definition newline :: string where
  "newline = [CHR 10]"

definition display_report :: "TextLintReport \<Rightarrow> string" where
  "display_report r =
     (case report_context r of None \<Rightarrow> [] | Some c \<Rightarrow> c @ newline @ newline)
     @ ''STE text checks failed for '' @ report_story r @ ''. No changes were saved.'' @ newline
     @ concat (map (\<lambda>f. display_finding f @ newline) (report_findings r))
     @ ''Repair the text and submit the command again. See `story help ste`.''"

definition quote_evidence :: "string \<Rightarrow> string" where
  "quote_evidence text = join newline (map (\<lambda>l. ''> '' @ l) (split_on (CHR 10) text))"

section \<open>Errors\<close>

record IntegrityDetail =
  detail_context :: "string option"
  detail_findings :: "Finding list"
  detail_advice :: "string list"

definition integrity_report :: "Finding list \<Rightarrow> string list \<Rightarrow> IntegrityDetail option" where
  "integrity_report fs ad =
     (if fs \<noteq> [] then Some \<lparr>detail_context = None, detail_findings = fs, detail_advice = ad\<rparr> else None)"

definition sections :: "IntegrityDetail \<Rightarrow> string list" where
  "sections d =
     filter (\<lambda>s. s \<noteq> []) [join newline (map finding_message (detail_findings d)), join newline (detail_advice d)]"

text \<open>\<open>From<String>\<close>: prose is one unstructured finding.\<close>

definition integrity_of_string :: "string \<Rightarrow> IntegrityDetail" where
  "integrity_of_string m = \<lparr>detail_context = None, detail_findings = [unstructured m], detail_advice = []\<rparr>"

definition display_integrity :: "IntegrityDetail \<Rightarrow> string" where
  "display_integrity d =
     (let body = join newline (sections d) in
      case detail_context d of Some c \<Rightarrow> c @ newline @ newline @ body | None \<Rightarrow> body)"

datatype AppError =
    Usage string
  | Validation string
  | TextLint TextLintReport
  | NotFound string
  | LockTimeout string
  | DeadlineExceeded string
  | Integrity IntegrityDetail
  | Storage string
  | GithubAuth string
  | GithubApi string
  | StateConflict string string
  | ReadOnlyStore string

type_synonym 'a result = "AppError + 'a"

fun display_error :: "AppError \<Rightarrow> string" where
  "display_error (Usage m) = m"
| "display_error (Validation m) = m"
| "display_error (TextLint r) = display_report r"
| "display_error (NotFound m) = m"
| "display_error (LockTimeout m) = m"
| "display_error (DeadlineExceeded m) = m"
| "display_error (Integrity d) = display_integrity d"
| "display_error (Storage m) = m"
| "display_error (GithubAuth m) = ''github auth: '' @ m"
| "display_error (GithubApi m) = ''github api: '' @ m"
| "display_error (StateConflict e a) = ''state conflict: expected `'' @ e @ ''`, was `'' @ a @ ''`''"
| "display_error (ReadOnlyStore m) = m"

fun exit_code :: "AppError \<Rightarrow> int" where
  "exit_code (Usage _) = 2"
| "exit_code (Validation _) = 2"
| "exit_code (TextLint _) = 2"
| "exit_code (NotFound _) = 3"
| "exit_code (LockTimeout _) = 4"
| "exit_code (Integrity _) = 5"
| "exit_code (Storage _) = 5"
| "exit_code (GithubAuth _) = 6"
| "exit_code (GithubApi _) = 7"
| "exit_code (StateConflict _ _) = 9"
| "exit_code (ReadOnlyStore _) = 11"
| "exit_code (DeadlineExceeded _) = 12"

definition joined :: "string \<Rightarrow> string \<Rightarrow> string" where
  "joined context detail = context @ newline @ newline @ detail"

definition nest_context :: "string \<Rightarrow> string option \<Rightarrow> string option" where
  "nest_context context inner =
     Some (case inner of Some i \<Rightarrow> context @ newline @ newline @ i | None \<Rightarrow> context)"

fun with_context :: "AppError \<Rightarrow> string \<Rightarrow> AppError" where
  "with_context (Usage d) c = Usage (joined c d)"
| "with_context (Validation d) c = Validation (joined c d)"
| "with_context (TextLint r) c = TextLint (r\<lparr>report_context := nest_context c (report_context r)\<rparr>)"
| "with_context (NotFound d) c = NotFound (joined c d)"
| "with_context (LockTimeout d) c = LockTimeout (joined c d)"
| "with_context (DeadlineExceeded d) c = DeadlineExceeded (joined c d)"
| "with_context (Integrity d) c = Integrity (d\<lparr>detail_context := nest_context c (detail_context d)\<rparr>)"
| "with_context (Storage d) c = Storage (joined c d)"
| "with_context (ReadOnlyStore d) c = ReadOnlyStore (joined c d)"
| "with_context (GithubAuth d) c = GithubAuth (joined c d)"
| "with_context (GithubApi d) c = GithubApi (joined c d)"
| "with_context (StateConflict e a) c = StateConflict e a"

section \<open>The wire form\<close>

datatype WireError =
    WUsage string
  | WValidation string
  | WTextLint TextLintReport
  | WNotFound string
  | WLockTimeout string
  | WDeadlineExceeded string
  | WIntegrity "string option" "Finding list" "string list"
  | WStorage string
  | WGithubAuth string
  | WGithubApi string
  | WStateConflict string string
  | WReadOnlyStore string

fun wire_of_error :: "AppError \<Rightarrow> WireError" where
  "wire_of_error (Usage d) = WUsage d"
| "wire_of_error (Validation d) = WValidation d"
| "wire_of_error (TextLint d) = WTextLint d"
| "wire_of_error (NotFound d) = WNotFound d"
| "wire_of_error (LockTimeout d) = WLockTimeout d"
| "wire_of_error (DeadlineExceeded d) = WDeadlineExceeded d"
| "wire_of_error (Integrity d) = WIntegrity (detail_context d) (detail_findings d) (detail_advice d)"
| "wire_of_error (Storage d) = WStorage d"
| "wire_of_error (ReadOnlyStore d) = WReadOnlyStore d"
| "wire_of_error (GithubAuth d) = WGithubAuth d"
| "wire_of_error (GithubApi d) = WGithubApi d"
| "wire_of_error (StateConflict e a) = WStateConflict e a"

fun error_of_wire :: "WireError \<Rightarrow> AppError" where
  "error_of_wire (WUsage d) = Usage d"
| "error_of_wire (WValidation d) = Validation d"
| "error_of_wire (WTextLint d) = TextLint d"
| "error_of_wire (WNotFound d) = NotFound d"
| "error_of_wire (WLockTimeout d) = LockTimeout d"
| "error_of_wire (WDeadlineExceeded d) = DeadlineExceeded d"
| "error_of_wire (WIntegrity c f a) = Integrity \<lparr>detail_context = c, detail_findings = f, detail_advice = a\<rparr>"
| "error_of_wire (WStorage d) = Storage d"
| "error_of_wire (WGithubAuth d) = GithubAuth d"
| "error_of_wire (WGithubApi d) = GithubApi d"
| "error_of_wire (WStateConflict e a) = StateConflict e a"
| "error_of_wire (WReadOnlyStore d) = ReadOnlyStore d"

section \<open>Theorems\<close>

text \<open>The subsystem prefix a variant renders outside its detail.\<close>

fun error_prefix :: "AppError \<Rightarrow> string" where
  "error_prefix (GithubAuth _) = ''github auth: ''"
| "error_prefix (GithubApi _) = ''github api: ''"
| "error_prefix _ = ''''"

lemma wire_round_trip: "error_of_wire (wire_of_error e) = e"
  by (cases e) simp_all

lemma wire_round_trip_back: "wire_of_error (error_of_wire w) = w"
  by (cases w) simp_all

lemma with_context_exit_code: "exit_code (with_context e c) = exit_code e"
  by (cases e) simp_all

lemma display_integrity_context:
  "display_integrity (d\<lparr>detail_context := nest_context c (detail_context d)\<rparr>) =
     c @ newline @ newline @ display_integrity d"
  by (cases "detail_context d") (simp_all add: display_integrity_def nest_context_def sections_def Let_def)

lemma display_report_context:
  "display_report (r\<lparr>report_context := nest_context c (report_context r)\<rparr>) =
     c @ newline @ newline @ display_report r"
  by (cases "report_context r") (simp_all add: display_report_def nest_context_def)

lemma with_context_display:
  assumes "\<forall>x a. e \<noteq> StateConflict x a"
  shows "display_error (with_context e c) =
     error_prefix e @ c @ newline @ newline @ drop (length (error_prefix e)) (display_error e)"
  using assms by (cases e) (simp_all add: joined_def display_integrity_context display_report_context)

text \<open>
  Errors survive the wire: the two conversions between an error and its wire form are inverse to each
  other, so a client behind the daemon sees the same variant, the same message and the same exit code.
\<close>

theorem error_wire_bijection:
  "error_of_wire (wire_of_error e) = e \<and> wire_of_error (error_of_wire w) = w
   \<and> exit_code (error_of_wire (wire_of_error e)) = exit_code e"
  by (simp add: wire_round_trip wire_round_trip_back)

text \<open>
  Adding context to an error keeps its exit code and puts the context before the message, inside the
  subsystem prefix, separated by a blank line; only the state conflict, whose message is fixed, is kept
  as it is.
\<close>

theorem context_prepended:
  assumes "\<forall>x a. e \<noteq> StateConflict x a"
  shows "exit_code (with_context e c) = exit_code e
    \<and> display_error (with_context e c) =
        error_prefix e @ c @ newline @ newline @ drop (length (error_prefix e)) (display_error e)"
  using with_context_exit_code with_context_display [OF assms] by blast

theorem context_prepended_witness:
  "display_error (with_context (GithubApi ''503'') ''sync'') = ''github api: sync'' @ newline @ newline @ ''503''"
  using context_prepended [of "GithubApi ''503''" "''sync''"] by simp

end
