(* ===== verification/Story_Types.thy ===== *)
theory Story_Types
  imports App_Error
begin

text \<open>
  The data of \<^verbatim>\<open>src/src/domain.rs\<close>: priorities, superstates, the state and type catalog entries, the
  edits of them, comments, commit references, relations, attachments, cleanup leases, story events
  and the story snapshot, with the parsers and printers of the enumerations.  Field names carry a
  prefix that names their struct, since Isabelle's record fields are global constants.
\<close>

section \<open>Priority\<close>

datatype Priority = Critical | High | Medium | Low | NoPriority

text \<open>The derived \<open>Ord\<close> follows the order of the variants: \<open>Critical\<close> is the least.\<close>

fun priority_rank :: "Priority \<Rightarrow> nat" where
  "priority_rank Critical = 0"
| "priority_rank High = 1"
| "priority_rank Medium = 2"
| "priority_rank Low = 3"
| "priority_rank NoPriority = 4"

lemma priority_rank_inject [simp]: "priority_rank p = priority_rank q \<longleftrightarrow> p = q"
  by (cases p; cases q) simp_all

instantiation Priority :: linorder
begin

definition less_eq_Priority :: "Priority \<Rightarrow> Priority \<Rightarrow> bool" where
  "p \<le> q \<longleftrightarrow> priority_rank p \<le> priority_rank q"

definition less_Priority :: "Priority \<Rightarrow> Priority \<Rightarrow> bool" where
  "p < q \<longleftrightarrow> priority_rank p < priority_rank q"

instance
  by standard (auto simp: less_eq_Priority_def less_Priority_def)

end

lemma priority_le_none [simp]: "p \<le> NoPriority"
  by (cases p) (simp_all add: less_eq_Priority_def)

lemma priority_rank_le4: "priority_rank p \<le> 4"
  by (cases p) simp_all

definition priority_parse :: "string \<Rightarrow> Priority option" where
  "priority_parse raw =
     (let s = to_ascii_lowercase raw in
      if s = ''critical'' then Some Critical
      else if s = ''high'' then Some High
      else if s = ''medium'' then Some Medium
      else if s = ''low'' then Some Low
      else if s = ''none'' then Some NoPriority
      else None)"

fun priority_as_str :: "Priority \<Rightarrow> string" where
  "priority_as_str Critical = ''critical''"
| "priority_as_str High = ''high''"
| "priority_as_str Medium = ''medium''"
| "priority_as_str Low = ''low''"
| "priority_as_str NoPriority = ''none''"

section \<open>Superstate\<close>

datatype SuperState = Open | Closed

definition superstate_parse :: "string \<Rightarrow> SuperState option" where
  "superstate_parse raw =
     (let s = to_ascii_uppercase raw in
      if s = ''OPEN'' then Some Open else if s = ''CLOSED'' then Some Closed else None)"

fun superstate_as_str :: "SuperState \<Rightarrow> string" where
  "superstate_as_str Open = ''OPEN''"
| "superstate_as_str Closed = ''CLOSED''"

section \<open>Complexity\<close>

datatype Complexity = ComplexityLow | ComplexityMedium | ComplexityHigh

definition complexity_default :: Complexity where
  "complexity_default = ComplexityMedium"

definition complexity_parse :: "string \<Rightarrow> Complexity result" where
  "complexity_parse raw =
     (if raw = ''low'' then Inr ComplexityLow
      else if raw = ''medium'' then Inr ComplexityMedium
      else if raw = ''high'' then Inr ComplexityHigh
      else Inl (Validation (''invalid complexity `'' @ raw
        @ ''`; use low, medium, or high. Read story help complexity-rubric'')))"

fun complexity_as_str :: "Complexity \<Rightarrow> string" where
  "complexity_as_str ComplexityLow = ''low''"
| "complexity_as_str ComplexityMedium = ''medium''"
| "complexity_as_str ComplexityHigh = ''high''"

section \<open>Media types\<close>

datatype MediaType = Png | Jpeg | Gif | Webp

fun media_as_str :: "MediaType \<Rightarrow> string" where
  "media_as_str Png = ''image/png''"
| "media_as_str Jpeg = ''image/jpeg''"
| "media_as_str Gif = ''image/gif''"
| "media_as_str Webp = ''image/webp''"

fun media_extension :: "MediaType \<Rightarrow> string" where
  "media_extension Png = ''png''"
| "media_extension Jpeg = ''jpg''"
| "media_extension Gif = ''gif''"
| "media_extension Webp = ''webp''"

definition png_signature :: string where
  "png_signature = [CHR 0x89, CHR ''P'', CHR ''N'', CHR ''G'', CHR 0x0D, CHR 0x0A, CHR 0x1A, CHR 0x0A]"

definition jpeg_signature :: string where
  "jpeg_signature = [CHR 0xFF, CHR 0xD8, CHR 0xFF]"

definition sniff :: "string \<Rightarrow> MediaType option" where
  "sniff bytes =
     (if starts_with png_signature bytes then Some Png
      else if starts_with jpeg_signature bytes then Some Jpeg
      else if starts_with ''GIF87a'' bytes \<or> starts_with ''GIF89a'' bytes then Some Gif
      else if 12 \<le> length bytes \<and> take 4 bytes = ''RIFF'' \<and> take 4 (drop 8 bytes) = ''WEBP''
        then Some Webp
      else None)"

section \<open>Catalog entries and edits of them\<close>

record StateDef =
  sd_slug :: string
  sd_super :: SuperState
  sd_role :: "string option"
  sd_description :: "string option"

definition STATE_ROLE_ACTIVE :: string where
  "STATE_ROLE_ACTIVE = ''active''"

datatype 'a FieldEdit = Keep | Clear | SetTo 'a

fun field_apply :: "'a FieldEdit \<Rightarrow> 'a option \<Rightarrow> 'a option" where
  "field_apply Keep current = current"
| "field_apply Clear current = None"
| "field_apply (SetTo value) current = Some value"

fun is_keep :: "'a FieldEdit \<Rightarrow> bool" where
  "is_keep Keep = True"
| "is_keep _ = False"

record StateChanges =
  sc_super :: "SuperState option"
  sc_role :: "string FieldEdit"
  sc_description :: "string FieldEdit"

definition state_changes_is_empty :: "StateChanges \<Rightarrow> bool" where
  "state_changes_is_empty c \<longleftrightarrow> sc_super c = None \<and> is_keep (sc_role c) \<and> is_keep (sc_description c)"

record TypeChanges =
  tc_description :: "string FieldEdit"
  tc_emoji :: "string FieldEdit"

definition type_changes_is_empty :: "TypeChanges \<Rightarrow> bool" where
  "type_changes_is_empty c \<longleftrightarrow> is_keep (tc_description c) \<and> is_keep (tc_emoji c)"

record TypeDef =
  td_slug :: string
  td_description :: "string option"
  td_emoji :: "string option"

section \<open>Parts of a story\<close>

record ProgressRollup =
  children_done :: nat
  children_total :: nat

record StoryComment =
  comment_at :: string
  comment_text :: string

record CommitReference =
  commit_at :: string
  commit_sha :: string
  commit_subject :: string

datatype StoryRelation = StoryRelation (relation: string) (other_id: string)

text \<open>The derived \<open>Ord\<close> of a relation: its name first, then the far end.\<close>

instantiation StoryRelation :: linorder
begin

definition less_eq_StoryRelation :: "StoryRelation \<Rightarrow> StoryRelation \<Rightarrow> bool" where
  "a \<le> b \<longleftrightarrow> relation a < relation b \<or> relation a = relation b \<and> other_id a \<le> other_id b"

definition less_StoryRelation :: "StoryRelation \<Rightarrow> StoryRelation \<Rightarrow> bool" where
  "a < b \<longleftrightarrow> relation a < relation b \<or> relation a = relation b \<and> other_id a < other_id b"

instance
proof
  fix a b c :: StoryRelation
  show "a < b \<longleftrightarrow> a \<le> b \<and> \<not> b \<le> a"
    by (auto simp: less_eq_StoryRelation_def less_StoryRelation_def)
  show "a \<le> a" by (simp add: less_eq_StoryRelation_def)
  show "a \<le> b \<Longrightarrow> b \<le> c \<Longrightarrow> a \<le> c"
    by (auto simp: less_eq_StoryRelation_def)
  show "a \<le> b \<Longrightarrow> b \<le> a \<Longrightarrow> a = b"
    by (cases a; cases b) (auto simp: less_eq_StoryRelation_def)
  show "a \<le> b \<or> b \<le> a"
    by (auto simp: less_eq_StoryRelation_def)
qed

end

record Attachment =
  att_id :: "32 word"
  att_name :: string
  att_media_type :: MediaType
  att_byte_len :: "64 word"
  att_sha256 :: string
  att_added_at :: string

section \<open>Cleanup leases\<close>

record RevivifyProvenance =
  logical_socket :: string
  origin_generation :: string

record TmuxCleanupTarget =
  socket_path :: string
  revivify :: "RevivifyProvenance option"

record StoryCleanupLease =
  lease_version :: "32 word"
  project_slug :: string
  lease_story_id :: string
  repository_path :: string
  worktree_path :: string
  lease_branch :: string
  lease_tmux :: TmuxCleanupTarget

text \<open>\<open>TryFrom<RevivifyProvenanceWire>\<close>; a path is absolute when it starts with \<open>/\<close>.\<close>

definition revivify_try_from :: "string \<Rightarrow> string \<Rightarrow> string + RevivifyProvenance" where
  "revivify_try_from socket generation =
     (if \<not> starts_with ''/'' socket
         \<or> length generation \<noteq> 32
         \<or> \<not> list_all (\<lambda>b. is_ascii_digit b \<or> CHR ''a'' \<le> b \<and> b \<le> CHR ''f'') generation
      then Inl ''invalid revivify cleanup provenance: expected absolute logical socket and lowercase generation ID''
      else Inr \<lparr>logical_socket = socket, origin_generation = generation\<rparr>)"

section \<open>Events\<close>

text \<open>The payloads in the order of the source; \<open>at\<close> comes first in every variant.\<close>

datatype StoryEvent =
    StoryCreated string string string
  | StoryCommentAdded string string
  | StoryCommentRetracted string string string
  | StoryAwaitingSet string string
  | StoryAwaitingCleared string
  | StoryStateChanged string string
  | StoryCleanupLeaseRecorded string StoryCleanupLease
  | StoryStateCleared string
  | StoryRelationshipAdded string string string
  | StoryRelationshipRemoved string string string
  | StoryComplexitySet string Complexity
  | StoryComplexityCleared string
  | StoryPrioritySet string Priority
  | StoryPriorityCleared string
  | StoryTypeSet string string
  | StoryLabelsSet string "string list"
  | StoryTitleSet string string
  | StoryDescriptionSet string string
  | StoryClosedAndArchived string string
  | StoryDeleted string string
  | StoryCommitLinked string string string
  | StoryHidden string
  | StoryUnhidden string
  | StoryPrLinked string string string string "64 word" bool
  | StoryPrUnlinked string string
  | StoryPrMerged string string
  | StoryPrClosed string string
  | StoryCreatedAsDraft string
  | StoryPublished string
  | StoryAttachmentAdded string "32 word" string MediaType "64 word" string
  | StoryAttachmentRemoved string "32 word"

section \<open>Snapshots\<close>

record StorySnapshot =
  snap_id :: string
  snap_title :: string
  snap_created_at :: string
  snap_updated_at :: string
  snap_state :: string
  snap_superstate :: SuperState
  snap_state_computed :: bool
  snap_awaiting :: "string option"
  snap_comments :: "StoryComment list"
  snap_referenced_by_commits :: "CommitReference list"
  snap_relationships :: "StoryRelation list"
  snap_priority :: Priority
  snap_priority_assessed :: bool
  snap_complexity :: Complexity
  snap_complexity_assessed :: bool
  snap_labels :: "string list"
  snap_story_type :: "string option"
  snap_description :: "string option"
  snap_closed_at :: "string option"
  snap_hidden_at :: "string option"
  snap_draft :: bool
  snap_attachments :: "Attachment list"
  snap_next_attachment_id :: "32 word"

definition default_next_attachment_id :: "32 word" where
  "default_next_attachment_id = 1"

text \<open>The catalog by slug and the stories by id, as the maps the domain functions take.\<close>

type_synonym catalog_map = "(string, StateDef) btree_map"
type_synonym story_map = "(string, StorySnapshot) btree_map"

section \<open>Round trips of the enumerations\<close>

lemma priority_round_trip: "priority_parse (priority_as_str p) = Some p"
  by (cases p) (simp_all add: priority_parse_def to_ascii_lowercase_def ascii_lower_def ascii_class_defs)

lemma superstate_round_trip: "superstate_parse (superstate_as_str s) = Some s"
  by (cases s) (simp_all add: superstate_parse_def to_ascii_uppercase_def ascii_upper_def ascii_class_defs)

lemma complexity_round_trip: "complexity_parse (complexity_as_str c) = Inr c"
  by (cases c) (simp_all add: complexity_parse_def)

lemma complexity_parse_ok: "complexity_parse raw = Inr c \<longleftrightarrow> raw = complexity_as_str c"
  by (cases c) (auto simp: complexity_parse_def)

lemma sniff_needs_bytes: "sniff bytes \<noteq> None \<Longrightarrow> 3 \<le> length bytes"
  by (auto simp: sniff_def starts_with_iff png_signature_def jpeg_signature_def split: if_splits)

end
