(* ===== verification/State_Catalog.thy ===== *)
theory State_Catalog
  imports Story_Types "HOL-Library.Sublist"
begin

text \<open>
  The state catalog of a project (\<^verbatim>\<open>src/src/domain.rs\<close>, lines 1335 to 1827 and 2585 to 2700, and
  \<^verbatim>\<open>src/src/domain/state_rename.rs\<close>): the read and write validators, slugs and glyphs, the floor of
  required states and its repair, the legacy \<open>closed\<close> rename, and the resolvers that name a state
  by what it means.  The theorems: what a valid slug is, that the repair establishes the floor,
  changes a conforming catalog in nothing and otherwise only adds, and what the resolvers return.
\<close>

section \<open>Read-path validation and slugs\<close>

definition validate_state_defs :: "StateDef list \<Rightarrow> unit result" where
  "validate_state_defs states =
     (let has_open = list_ex (\<lambda>s. sd_super s = Open) states;
          has_closed = list_ex (\<lambda>s. sd_super s = Closed) states
      in if has_open \<and> has_closed then Inr ()
         else Inl (Validation ''state set must include at least one OPEN state and one CLOSED state''))"

text \<open>One scalar value of a slug, as its encoding.\<close>

definition slug_byte :: "char \<Rightarrow> bool" where
  "slug_byte c \<longleftrightarrow> is_ascii_lowercase c \<or> is_ascii_digit c \<or> c = CHR ''-''"

definition slug_char :: "string \<Rightarrow> bool" where
  "slug_char ch \<longleftrightarrow> (case ch of [c] \<Rightarrow> slug_byte c | _ \<Rightarrow> False)"

definition slug_refusal :: "string \<Rightarrow> string option" where
  "slug_refusal slug =
     (if slug = [] then Some ''it is empty''
      else case find (\<lambda>ch. \<not> slug_char ch) (utf8_chars slug) of
        Some bad \<Rightarrow> Some (''`'' @ bad @ ''` is not allowed'')
      | None \<Rightarrow>
          if starts_with ''-'' slug \<or> ends_with ''-'' slug then Some ''it starts or ends with a dash''
          else if contains_str ''--'' slug then Some ''it contains a double dash''
          else None)"

definition validate_state_slug :: "string \<Rightarrow> unit result" where
  "validate_state_slug slug =
     (case slug_refusal slug of
        Some reason \<Rightarrow> Inl (Validation (''invalid state slug `'' @ slug @ ''`: '' @ reason
          @ '' (use lowercase letters, digits, and single dashes, e.g. `in-review`)''))
      | None \<Rightarrow> Inr ())"

definition validate_type_slug :: "string \<Rightarrow> unit result" where
  "validate_type_slug slug =
     (case slug_refusal slug of
        Some reason \<Rightarrow> Inl (Validation (''invalid type slug `'' @ slug @ ''`: '' @ reason
          @ '' (use lowercase letters, digits, and single dashes, e.g. `feature-request`)''))
      | None \<Rightarrow> Inr ())"

text \<open>\<open>char::escape_debug\<close> of a control or white-space scalar: the escapes with a name, else \<open>\\u{..}\<close>;
  an ordinary space stands for itself.\<close>

definition hex_digit :: "nat \<Rightarrow> char" where
  "hex_digit d = (if d < 10 then char_of (d + 48) else char_of (d + 87))"

fun hex_str :: "nat \<Rightarrow> string" where
  "hex_str n = (if n < 16 then [hex_digit n] else hex_str (n div 16) @ [hex_digit (n mod 16)])"

fun scalar_value :: "string \<Rightarrow> nat" where
  "scalar_value [c] = of_char c"
| "scalar_value [c, d] = (of_char c - 192) * 64 + (of_char d - 128)"
| "scalar_value [c, d, e] = ((of_char c - 224) * 64 + (of_char d - 128)) * 64 + (of_char e - 128)"
| "scalar_value _ = 0"

definition escape_control_or_space :: "string \<Rightarrow> string" where
  "escape_control_or_space ch =
     (if ch = [CHR 0x00] then [CHR 0x5C, CHR ''0'']
      else if ch = [CHR 0x09] then [CHR 0x5C, CHR ''t'']
      else if ch = [CHR 0x0A] then [CHR 0x5C, CHR ''n'']
      else if ch = [CHR 0x0D] then [CHR 0x5C, CHR ''r'']
      else if ch = '' '' then '' ''
      else [CHR 0x5C] @ ''u{'' @ hex_str (scalar_value ch) @ ''}'')"

definition validate_type_glyph :: "string \<Rightarrow> unit result" where
  "validate_type_glyph glyph =
     (let trimmed = trim glyph in
      if trimmed = [] then Inl (Validation ''a type's emoji cannot be blank'')
      else case find (\<lambda>ch. is_control ch \<or> is_whitespace ch) (utf8_chars trimmed) of
        Some bad \<Rightarrow> Inl (Validation (''a type's emoji cannot contain `'' @ escape_control_or_space bad
          @ ''` (found in `'' @ trimmed @ ''`)''))
      | None \<Rightarrow>
          if 12 < char_count trimmed
          then Inl (Validation (''a type's emoji must be 12 characters or fewer, got `'' @ trimmed @ ''`''))
          else Inr ())"

section \<open>Write-path validation\<close>

fun check_states_loop :: "string list \<Rightarrow> StateDef list \<Rightarrow> unit result" where
  "check_states_loop seen [] = Inr ()"
| "check_states_loop seen (state # rest) =
     (case validate_state_slug (sd_slug state) of
        Inl e \<Rightarrow> Inl e
      | Inr _ \<Rightarrow>
          if sd_slug state \<in> set seen
          then Inl (Validation (''state `'' @ sd_slug state @ ''` is defined more than once''))
          else case sd_role state of
            Some role \<Rightarrow>
              if role \<noteq> STATE_ROLE_ACTIVE
              then Inl (Validation (''state `'' @ sd_slug state @ ''` has unknown role `'' @ role
                @ ''` (the only role is `'' @ STATE_ROLE_ACTIVE @ ''`)''))
              else check_states_loop (bset_insert (sd_slug state) seen) rest
          | None \<Rightarrow> check_states_loop (bset_insert (sd_slug state) seen) rest)"

definition validate_state_defs_for_write :: "StateDef list \<Rightarrow> unit result" where
  "validate_state_defs_for_write states =
     (case validate_state_defs states of
        Inl e \<Rightarrow> Inl e
      | Inr _ \<Rightarrow>
          (case check_states_loop [] states of
             Inl e \<Rightarrow> Inl e
           | Inr _ \<Rightarrow>
               (let active = map sd_slug (filter (\<lambda>s. sd_role s = Some STATE_ROLE_ACTIVE) states) in
                if 1 < length active
                then Inl (Validation (''only one state may have role `'' @ STATE_ROLE_ACTIVE @ ''`, but ''
                  @ nat_str (length active) @ '' do: '' @ join '', '' active))
                else Inr ())))"

section \<open>The floor of required states\<close>

record RequiredState =
  rs_slug :: string
  rs_super :: SuperState

definition DROPPED_STATE_SLUG :: string where
  "DROPPED_STATE_SLUG = ''dropped''"

definition VERIFYING_STATE_SLUG :: string where
  "VERIFYING_STATE_SLUG = ''verifying''"

definition COMPLETION_STATE_SLUG :: string where
  "COMPLETION_STATE_SLUG = ''done''"

lemmas state_slug_defs = DROPPED_STATE_SLUG_def VERIFYING_STATE_SLUG_def COMPLETION_STATE_SLUG_def

definition REQUIRED_STATES :: "RequiredState list" where
  "REQUIRED_STATES =
     [\<lparr>rs_slug = ''todo'', rs_super = Open\<rparr>,
      \<lparr>rs_slug = ''in-progress'', rs_super = Open\<rparr>,
      \<lparr>rs_slug = VERIFYING_STATE_SLUG, rs_super = Open\<rparr>,
      \<lparr>rs_slug = ''blocked'', rs_super = Open\<rparr>,
      \<lparr>rs_slug = COMPLETION_STATE_SLUG, rs_super = Closed\<rparr>,
      \<lparr>rs_slug = DROPPED_STATE_SLUG, rs_super = Closed\<rparr>]"

text \<open>\<open>state_rename::normalize_catalog\<close> and \<open>state_rename::historical_slug\<close>.\<close>

definition normalize_catalog :: "StateDef list \<Rightarrow> StateDef list result" where
  "normalize_catalog states =
     (let legacy = position (\<lambda>s. sd_slug s = ''closed'' \<and> sd_super s = Closed) states;
          dropped = find (\<lambda>s. sd_slug s = DROPPED_STATE_SLUG) states
      in if (case dropped of Some s \<Rightarrow> sd_super s \<noteq> Closed | None \<Rightarrow> False)
            \<or> legacy \<noteq> None \<and> dropped \<noteq> None
         then Inl (Validation (''conflicting state `dropped`: it must be CLOSED and cannot coexist with ''
           @ ''legacy `closed`/CLOSED; resolve the conflicting catalog with the previous binary before retrying''))
         else Inr (case legacy of
             Some index \<Rightarrow> states[index := (states ! index)\<lparr>sd_slug := DROPPED_STATE_SLUG\<rparr>]
           | None \<Rightarrow> states))"

definition historical_slug :: "string \<Rightarrow> catalog_map \<Rightarrow> string" where
  "historical_slug slug states =
     (if slug = ''closed'' \<and> \<not> btm_contains states ''closed''
         \<and> (case btm_get states DROPPED_STATE_SLUG of Some s \<Rightarrow> sd_super s = Closed | None \<Rightarrow> False)
      then DROPPED_STATE_SLUG else slug)"

definition closed_def :: "catalog_map \<Rightarrow> string \<Rightarrow> StateDef option" where
  "closed_def states slug =
     (case btm_get states slug of
        Some d \<Rightarrow> if sd_super d = Closed then Some d else None
      | None \<Rightarrow> None)"

definition resting_state_for_closure :: "catalog_map \<Rightarrow> StateDef option" where
  "resting_state_for_closure states =
     (case closed_def states DROPPED_STATE_SLUG of
        Some d \<Rightarrow> Some d
      | None \<Rightarrow>
          (case closed_def states ''closed'' of
             Some d \<Rightarrow> Some d
           | None \<Rightarrow>
               (case closed_def states COMPLETION_STATE_SLUG of
                  Some d \<Rightarrow> Some d
                | None \<Rightarrow> find (\<lambda>d. sd_super d = Closed) (btm_values states))))"

definition required_state_list :: string where
  "required_state_list =
     (let slugs = map (\<lambda>r. ''`'' @ rs_slug r @ ''`'') REQUIRED_STATES in
      if butlast slugs \<noteq> [] then join '', '' (butlast slugs) @ '' and '' @ last slugs
      else concat slugs)"

text \<open>The loop of \<open>validate_required_states\<close> collects the missing slugs and refuses a wrong superstate.\<close>

fun required_loop :: "StateDef list \<Rightarrow> RequiredState list \<Rightarrow> string list result" where
  "required_loop states [] = Inr []"
| "required_loop states (required # rest) =
     (case find (\<lambda>s. sd_slug s = rs_slug required) states of
        None \<Rightarrow> map_sum id (\<lambda>missing. rs_slug required # missing) (required_loop states rest)
      | Some found \<Rightarrow>
          if sd_super found \<noteq> rs_super required
          then Inl (Validation (''state `'' @ rs_slug required @ ''` must be ''
            @ superstate_as_str (rs_super required) @ '', but this project defines it as ''
            @ superstate_as_str (sd_super found) @ ''; every project needs '' @ required_state_list
            @ '' (SH-125)''))
          else required_loop states rest)"

definition validate_required_states :: "StateDef list \<Rightarrow> unit result" where
  "validate_required_states states =
     (case required_loop states REQUIRED_STATES of
        Inl e \<Rightarrow> Inl e
      | Inr missing \<Rightarrow>
          if missing = []
          then (case normalize_catalog states of Inl e \<Rightarrow> Inl e | Inr _ \<Rightarrow> Inr ())
          else Inl (Validation (''every project needs '' @ required_state_list @ ''; ''
            @ join '', '' (map (\<lambda>slug. ''`'' @ slug @ ''`'') missing) @ '' ''
            @ (if length missing = 1 then ''is'' else ''are'')
            @ '' missing. Run `story doctor --fix` to add ''
            @ (if length missing = 1 then ''it'' else ''them''))))"

definition undefined_state_error :: "string \<Rightarrow> catalog_map \<Rightarrow> AppError" where
  "undefined_state_error slug states =
     (case (if list_ex (\<lambda>r. rs_slug r = slug) REQUIRED_STATES
            then validate_required_states (btm_values states) else Inr ()) of
        Inl e \<Rightarrow> e
      | Inr _ \<Rightarrow> Validation (''state `'' @ slug @ ''` is not defined''))"

text \<open>The repair: one required state at a time, with the required states after it at hand.\<close>

definition required_addition :: "RequiredState \<Rightarrow> StateDef" where
  "required_addition required =
     \<lparr>sd_slug = rs_slug required, sd_super = rs_super required, sd_role = None, sd_description = None\<rparr>"

definition open_insert_position :: "RequiredState list \<Rightarrow> StateDef list \<Rightarrow> nat" where
  "open_insert_position later repaired =
     (case find_map (\<lambda>l. position (\<lambda>s. sd_slug s = rs_slug l) repaired)
             (filter (\<lambda>l. rs_super l = Open) later) of
        Some p \<Rightarrow> p
      | None \<Rightarrow>
          (case rposition (\<lambda>s. sd_super s = Open) repaired of None \<Rightarrow> 0 | Some index \<Rightarrow> index + 1))"

fun repair_required :: "RequiredState list \<Rightarrow> StateDef list \<Rightarrow> StateDef list result" where
  "repair_required [] repaired = Inr repaired"
| "repair_required (required # later) repaired =
     (case find (\<lambda>s. sd_slug s = rs_slug required) repaired of
        Some found \<Rightarrow>
          if sd_super found \<noteq> rs_super required
          then Inl (Validation (''state `'' @ rs_slug required @ ''` must be ''
            @ superstate_as_str (rs_super required) @ '', but this project defines it as ''
            @ superstate_as_str (sd_super found) @ ''; storyhook will add a missing state but will not ''
            @ ''reclassify the stories in an existing one''))
          else repair_required later repaired
      | None \<Rightarrow>
          repair_required later
            (case rs_super required of
               Open \<Rightarrow> insert_at (open_insert_position later repaired) (required_addition required) repaired
             | Closed \<Rightarrow> repaired @ [required_addition required]))"

definition with_required_states :: "StateDef list \<Rightarrow> StateDef list result" where
  "with_required_states states =
     (case normalize_catalog states of
        Inl e \<Rightarrow> Inl e
      | Inr repaired \<Rightarrow> repair_required REQUIRED_STATES repaired)"

section \<open>Resolvers\<close>

definition active_state :: "StateDef list \<Rightarrow> StateDef option" where
  "active_state states =
     (case find (\<lambda>s. sd_role s = Some STATE_ROLE_ACTIVE) states of
        Some s \<Rightarrow> Some s
      | None \<Rightarrow>
          (let open_states = filter (\<lambda>s. sd_super s = Open) states in
           if length open_states = 2 then Some (open_states ! 1) else None))"

definition default_open_state :: "StateDef list \<Rightarrow> StateDef option" where
  "default_open_state states = find (\<lambda>s. sd_super s = Open) states"

definition completion_state :: "StateDef list \<Rightarrow> StateDef option" where
  "completion_state states = find (\<lambda>s. sd_slug s = COMPLETION_STATE_SLUG \<and> sd_super s = Closed) states"

definition default_type :: "TypeDef list \<Rightarrow> TypeDef option" where
  "default_type types = (case types of [] \<Rightarrow> None | t # _ \<Rightarrow> Some t)"

section \<open>What a valid slug is\<close>

lemma slug_byte_not_continuation: "slug_byte c \<Longrightarrow> \<not> is_continuation c"
  by (auto simp: slug_byte_def ascii_class_defs is_continuation_def)

lemma slug_chars_bytes: "(\<forall>ch \<in> set (utf8_chars s). slug_char ch) \<longleftrightarrow> (\<forall>c \<in> set s. slug_byte c)"
proof (induction s rule: utf8_chars.induct)
  case (2 c s)
  show ?case
  proof (cases "takeWhile is_continuation s = []")
    case True
    then have "dropWhile is_continuation s = s"
      by (metis append_Nil takeWhile_dropWhile_id)
    then show ?thesis using "2.IH" True by (simp add: slug_char_def)
  next
    case False
    then have "\<exists>d \<in> set s. is_continuation d"
      by (metis takeWhile_eq_Nil_iff list.set_sel(1))
    then show ?thesis using False by (auto simp: slug_char_def split: list.splits
        dest: slug_byte_not_continuation)
  qed
qed simp

lemma slug_refusal_None:
  "slug_refusal slug = None \<longleftrightarrow>
     slug \<noteq> [] \<and> (\<forall>c \<in> set slug. slug_byte c) \<and> \<not> starts_with ''-'' slug \<and> \<not> ends_with ''-'' slug
     \<and> \<not> contains_str ''--'' slug"
proof -
  have "find (\<lambda>ch. \<not> slug_char ch) (utf8_chars slug) = None \<longleftrightarrow> (\<forall>c \<in> set slug. slug_byte c)"
    unfolding slug_chars_bytes [symmetric] by (simp add: find_None_iff Ball_def)
  then show ?thesis by (auto simp: slug_refusal_def split: option.splits)
qed

lemma hd_split_on: "hd (split_on d s) = [] \<longleftrightarrow> s = [] \<or> starts_with [d] s"
  by (cases s) (auto simp: starts_with_def split: list.splits)

lemma ends_with_Cons: "ends_with [d] (c # s) \<longleftrightarrow> (if s = [] then c = d else ends_with [d] s)"
proof -
  have "ends_with [d] t \<longleftrightarrow> t \<noteq> [] \<and> last t = d" for t
    unfolding ends_with_iff by (metis append_butlast_last_id last_snoc snoc_eq_iff_butlast)
  then show ?thesis by simp
qed

lemma tl_split_on:
  "[] \<in> set (tl (split_on d s)) \<longleftrightarrow> ends_with [d] s \<or> contains_str [d, d] s"
proof (induction s)
  case Nil
  then show ?case by (simp add: ends_with_iff)
next
  case (Cons c s)
  have hd_tl: "x \<in> set (split_on d s) \<longleftrightarrow> x = hd (split_on d s) \<or> x \<in> set (tl (split_on d s))" for x
    by (cases "split_on d s") auto
  show ?case
  proof (cases "c = d")
    case True
    have "starts_with [d, d] (c # s) \<longleftrightarrow> starts_with [d] s" using True by (simp add: starts_with_def)
    then show ?thesis
      using True Cons.IH hd_tl [of "[]"] hd_split_on [of d s] by (auto simp: ends_with_Cons)
  next
    case False
    have "s = [] \<Longrightarrow> \<not> ends_with [d] s" by (simp add: ends_with_iff)
    with False show ?thesis
      using Cons.IH by (auto simp: ends_with_Cons starts_with_def split: list.splits)
  qed
qed

lemma empty_part_split_on:
  "[] \<in> set (split_on d s) \<longleftrightarrow> s = [] \<or> starts_with [d] s \<or> ends_with [d] s \<or> contains_str [d, d] s"
proof -
  have "[] \<in> set (split_on d s) \<longleftrightarrow> hd (split_on d s) = [] \<or> [] \<in> set (tl (split_on d s))"
    by (cases "split_on d s") auto
  then show ?thesis by (auto simp: hd_split_on tl_split_on)
qed

definition word_byte :: "char \<Rightarrow> bool" where
  "word_byte c \<longleftrightarrow> is_ascii_lowercase c \<or> is_ascii_digit c"

lemma slug_bytes_split_on:
  "(\<forall>c \<in> set s. slug_byte c) \<longleftrightarrow> (\<forall>w \<in> set (split_on (CHR ''-'') s). \<forall>c \<in> set w. word_byte c)"
  by (induction s) (auto simp: slug_byte_def word_byte_def split: list.splits)

lemma slug_words:
  "slug_refusal slug = None \<longleftrightarrow>
     (\<forall>w \<in> set (split_on (CHR ''-'') slug). w \<noteq> [] \<and> (\<forall>c \<in> set w. word_byte c))"
  using empty_part_split_on [of "CHR ''-''" slug] slug_bytes_split_on [of slug]
  by (auto simp: slug_refusal_None)

section \<open>The write path\<close>

lemma check_states_loop_ok:
  "check_states_loop seen states = Inr () \<longleftrightarrow>
     distinct (map sd_slug states) \<and> set (map sd_slug states) \<inter> set seen = {}
     \<and> (\<forall>s \<in> set states. slug_refusal (sd_slug s) = None
          \<and> (sd_role s = None \<or> sd_role s = Some STATE_ROLE_ACTIVE))"
  by (induction seen states rule: check_states_loop.induct)
     (auto simp: validate_state_slug_def split: option.splits)

lemma write_validation_ok:
  "validate_state_defs_for_write states = Inr () \<longleftrightarrow>
     (\<exists>s \<in> set states. sd_super s = Open) \<and> (\<exists>s \<in> set states. sd_super s = Closed)
     \<and> distinct (map sd_slug states)
     \<and> (\<forall>s \<in> set states. slug_refusal (sd_slug s) = None
          \<and> (sd_role s = None \<or> sd_role s = Some STATE_ROLE_ACTIVE))
     \<and> length (filter (\<lambda>s. sd_role s = Some STATE_ROLE_ACTIVE) states) \<le> 1"
proof -
  have "validate_state_defs_for_write states = Inr () \<longleftrightarrow>
      validate_state_defs states = Inr () \<and> check_states_loop [] states = Inr ()
      \<and> length (filter (\<lambda>s. sd_role s = Some STATE_ROLE_ACTIVE) states) \<le> 1"
    by (auto simp: validate_state_defs_for_write_def Let_def split: sum.splits)
  moreover have "validate_state_defs states = Inr () \<longleftrightarrow>
      (\<exists>s \<in> set states. sd_super s = Open) \<and> (\<exists>s \<in> set states. sd_super s = Closed)"
    by (simp add: validate_state_defs_def list_ex_iff Let_def)
  ultimately show ?thesis by (simp add: check_states_loop_ok conj_assoc)
qed

section \<open>The repair\<close>

abbreviation state_named :: "string \<Rightarrow> StateDef list \<Rightarrow> StateDef option" where
  "state_named slug states \<equiv> find (\<lambda>s. sd_slug s = slug) states"

lemma find_append: "find p (xs @ ys) = (case find p xs of Some x \<Rightarrow> Some x | None \<Rightarrow> find p ys)"
  by (induction xs) auto

lemma find_insert_at_other: "\<not> p x \<Longrightarrow> find p (insert_at i x xs) = find p xs"
  by (metis append_take_drop_id find.simps(2) find_append insert_at_def)

lemma find_insert_at_new: "p x \<Longrightarrow> find p xs = None \<Longrightarrow> find p (insert_at i x xs) = Some x"
  by (metis append_take_drop_id find.simps(2) find_append insert_at_def option.case(1) option.exhaust
      option.simps(5) option.distinct(1))

lemma subseq_insert_at: "subseq xs (insert_at i x xs)"
  unfolding insert_at_def by (metis append_take_drop_id list_emb_append_mono subseq_Cons' subseq_order.refl)

lemma distinct_insert_at:
  "distinct (map f (insert_at i x xs)) \<longleftrightarrow> f x \<notin> f ` set xs \<and> distinct (map f xs)"
proof -
  have "distinct (map f (take i xs @ drop i xs)) \<longleftrightarrow> distinct (map f xs)"
    by (simp only: append_take_drop_id)
  moreover have "set xs = set (take i xs) \<union> set (drop i xs)" by (metis append_take_drop_id set_append)
  ultimately show ?thesis by (auto simp: insert_at_def simp del: append_take_drop_id)
qed

text \<open>One step of the repair adds one state; this is all the induction needs to know of it.\<close>

definition add_required :: "RequiredState \<Rightarrow> RequiredState list \<Rightarrow> StateDef list \<Rightarrow> StateDef list" where
  "add_required required later repaired =
     (case rs_super required of
        Open \<Rightarrow> insert_at (open_insert_position later repaired) (required_addition required) repaired
      | Closed \<Rightarrow> repaired @ [required_addition required])"

lemma add_required_at: "\<exists>i. add_required r later xs = insert_at i (required_addition r) xs"
  by (cases "rs_super r") (auto simp: add_required_def insert_at_def intro: exI [of _ "length xs"])

lemma repair_step:
  "state_named (rs_slug r) xs = None \<Longrightarrow>
   repair_required (r # later) xs = repair_required later (add_required r later xs)"
  by (simp add: add_required_def)

lemma named_add_required:
  assumes "state_named (rs_slug r) xs = None"
  shows "state_named slug (add_required r later xs) =
     (if slug = rs_slug r then Some (required_addition r) else state_named slug xs)"
proof -
  obtain i where i: "add_required r later xs = insert_at i (required_addition r) xs"
    using add_required_at by blast
  have "sd_slug (required_addition r) = rs_slug r" by (simp add: required_addition_def)
  then show ?thesis unfolding i using assms
    by (auto simp: find_insert_at_new find_insert_at_other)
qed

lemma repair_required_named:
  assumes "repair_required rs xs = Inr out"
  shows "(\<forall>slug s. state_named slug xs = Some s \<longrightarrow> state_named slug out = Some s)
    \<and> (\<forall>r \<in> set rs. \<exists>s. state_named (rs_slug r) out = Some s \<and> sd_super s = rs_super r)"
  using assms
proof (induction rs arbitrary: xs)
  case (Cons r later)
  show ?case
  proof (cases "state_named (rs_slug r) xs")
    case None
    then have run: "repair_required later (add_required r later xs) = Inr out"
      using Cons.prems repair_step by metis
    note IH = Cons.IH [OF run]
    have super: "sd_super (required_addition r) = rs_super r" by (simp add: required_addition_def)
    have "state_named slug out = Some s" if "state_named slug xs = Some s" for slug s
      using IH that None named_add_required [OF None, of slug later] by (cases "slug = rs_slug r") auto
    moreover have "state_named (rs_slug r) out = Some (required_addition r)"
      using IH named_add_required [OF None, of "rs_slug r" later] by simp
    ultimately show ?thesis using IH super by auto
  next
    case (Some s)
    then have "sd_super s = rs_super r" and run: "repair_required later xs = Inr out"
      using Cons.prems by (auto split: if_splits)
    then show ?thesis using Cons.IH [OF run] Some by auto
  qed
qed simp

lemma repair_required_adds:
  assumes "repair_required rs xs = Inr out"
  shows "subseq xs out \<and> set out \<subseteq> set xs \<union> required_addition ` set rs
    \<and> (distinct (map sd_slug xs) \<longrightarrow> distinct (map sd_slug out))"
  using assms
proof (induction rs arbitrary: xs)
  case (Cons r later)
  show ?case
  proof (cases "state_named (rs_slug r) xs")
    case None
    then have run: "repair_required later (add_required r later xs) = Inr out"
      using Cons.prems repair_step by metis
    obtain i where i: "add_required r later xs = insert_at i (required_addition r) xs"
      using add_required_at by blast
    have "sd_slug (required_addition r) \<notin> sd_slug ` set xs"
      using None by (auto simp: find_None_iff required_addition_def)
    then show ?thesis
      using Cons.IH [OF run] unfolding i
      by (auto simp: set_insert_at distinct_insert_at intro: subseq_order.trans [OF subseq_insert_at])
  next
    case (Some s)
    then have run: "repair_required later xs = Inr out"
      using Cons.prems by (auto split: if_splits)
    then show ?thesis using Cons.IH [OF run] by auto
  qed
qed simp

lemma required_loop_ok:
  "required_loop states rs = Inr [] \<longleftrightarrow>
     (\<forall>r \<in> set rs. \<exists>s. state_named (rs_slug r) states = Some s \<and> sd_super s = rs_super r)"
proof (induction rs)
  case (Cons r rs)
  then show ?case
    by (cases "state_named (rs_slug r) states"; cases "required_loop states rs") auto
qed simp

lemma repair_conforming_id: "required_loop states rs = Inr [] \<Longrightarrow> repair_required rs states = Inr states"
proof (induction rs)
  case (Cons r rs)
  then show ?case
    by (cases "state_named (rs_slug r) states"; cases "required_loop states rs") (auto split: if_splits)
qed simp

lemma dropped_required: "\<lparr>rs_slug = DROPPED_STATE_SLUG, rs_super = Closed\<rparr> \<in> set REQUIRED_STATES"
  by (simp add: REQUIRED_STATES_def)

lemma normalize_conforming:
  assumes "required_loop states REQUIRED_STATES = Inr []" and "normalize_catalog states = Inr n"
  shows "n = states"
proof -
  obtain d where "state_named DROPPED_STATE_SLUG states = Some d"
    using assms(1) dropped_required unfolding required_loop_ok by fastforce
  then show ?thesis
    using assms(2) by (auto simp: normalize_catalog_def Let_def split: if_splits option.splits)
qed

lemma validate_required_iff:
  "validate_required_states states = Inr () \<longleftrightarrow>
     required_loop states REQUIRED_STATES = Inr [] \<and> normalize_catalog states = Inr states"
  using normalize_conforming [of states]
  by (auto simp: validate_required_states_def split: sum.splits if_splits)

lemma repair_of_conforming:
  "validate_required_states states = Inr () \<Longrightarrow> with_required_states states = Inr states"
  by (simp add: validate_required_iff with_required_states_def repair_conforming_id)

definition legacy_closed :: "StateDef \<Rightarrow> bool" where
  "legacy_closed s \<longleftrightarrow> sd_slug s = ''closed'' \<and> sd_super s = Closed"

lemma normalize_catalog_clears_legacy:
  assumes "normalize_catalog states = Inr n" and "distinct (map sd_slug states)"
  shows "(\<forall>s \<in> set n. \<not> legacy_closed s) \<and> distinct (map sd_slug n)"
proof (cases "position (\<lambda>s. sd_slug s = ''closed'' \<and> sd_super s = Closed) states")
  case None
  then have "n = states" using assms(1) by (auto simp: normalize_catalog_def Let_def split: if_splits)
  then show ?thesis using None assms(2) by (auto simp: position_None legacy_closed_def)
next
  case (Some i)
  let ?d = "(states ! i)\<lparr>sd_slug := DROPPED_STATE_SLUG\<rparr>"
  from Some have i: "i < length states" "sd_slug (states ! i) = ''closed''"
    by (auto simp: position_Some)
  from Some assms(1) have n: "n = states[i := ?d]" and nd: "state_named DROPPED_STATE_SLUG states = None"
    by (auto simp: normalize_catalog_def Let_def split: if_splits)
  have fresh: "DROPPED_STATE_SLUG \<notin> set (map sd_slug states)"
    using nd by (auto simp: find_None_iff)
  have map_n: "map sd_slug n = (map sd_slug states)[i := DROPPED_STATE_SLUG]"
    by (simp add: n map_update)
  have "distinct (map sd_slug n)"
    unfolding map_n using assms(2) fresh i by (intro distinct_list_update) auto
  moreover have "''closed'' \<notin> set (map sd_slug n)"
  proof
    assume "''closed'' \<in> set (map sd_slug n)"
    then obtain j where j: "j < length states" "(map sd_slug states)[i := DROPPED_STATE_SLUG] ! j = ''closed''"
      unfolding map_n by (auto simp: in_set_conv_nth)
    then have "j \<noteq> i" using i by (auto simp: DROPPED_STATE_SLUG_def)
    with j have "map sd_slug states ! j = map sd_slug states ! i" using i by simp
    with \<open>j \<noteq> i\<close> show False using assms(2) i j(1) by (metis distinct_conv_nth length_map)
  qed
  ultimately show ?thesis unfolding legacy_closed_def by (metis image_eqI list.set_map)
qed

lemma repair_establishes_floor:
  assumes "with_required_states states = Inr out" and "distinct (map sd_slug states)"
  shows "validate_required_states out = Inr () \<and> distinct (map sd_slug out)"
proof -
  obtain n where n: "normalize_catalog states = Inr n" and run: "repair_required REQUIRED_STATES n = Inr out"
    using assms(1) by (auto simp: with_required_states_def split: sum.splits)
  note clear = normalize_catalog_clears_legacy [OF n assms(2)]
  have loop: "required_loop out REQUIRED_STATES = Inr []"
    using repair_required_named [OF run] by (simp add: required_loop_ok)
  have "\<forall>s \<in> set out. \<not> legacy_closed s"
    using clear repair_required_adds [OF run]
    by (auto simp: legacy_closed_def required_addition_def REQUIRED_STATES_def state_slug_defs)
  then have "position (\<lambda>s. sd_slug s = ''closed'' \<and> sd_super s = Closed) out = None"
    by (auto simp: position_None legacy_closed_def)
  moreover obtain d where "state_named DROPPED_STATE_SLUG out = Some d" "sd_super d = Closed"
    using loop dropped_required unfolding required_loop_ok by fastforce
  ultimately have "normalize_catalog out = Inr out" by (simp add: normalize_catalog_def Let_def)
  then show ?thesis
    using loop clear repair_required_adds [OF run] by (simp add: validate_required_iff)
qed

lemma normalize_keeps_others:
  assumes "normalize_catalog states = Inr n"
  shows "subseq (filter (\<lambda>s. \<not> legacy_closed s) states) n"
proof (cases "position (\<lambda>s. sd_slug s = ''closed'' \<and> sd_super s = Closed) states")
  case None
  then have "n = states" using assms by (auto simp: normalize_catalog_def Let_def split: if_splits)
  then show ?thesis by simp
next
  case (Some i)
  then have i: "i < length states" "legacy_closed (states ! i)"
    by (auto simp: position_Some legacy_closed_def)
  from Some assms have n: "n = take i states @ (states ! i)\<lparr>sd_slug := DROPPED_STATE_SLUG\<rparr> # drop (Suc i) states"
    using i(1) by (auto simp: normalize_catalog_def Let_def upd_conv_take_nth_drop split: if_splits)
  have "filter (\<lambda>s. \<not> legacy_closed s) states =
      filter (\<lambda>s. \<not> legacy_closed s) (take i states) @ filter (\<lambda>s. \<not> legacy_closed s) (drop (Suc i) states)"
    using i by (subst id_take_nth_drop [OF i(1)]) simp
  moreover have "subseq (filter (\<lambda>s. \<not> legacy_closed s) (drop (Suc i) states)) (d # drop (Suc i) states)" for d
    by (rule list_emb_Cons) (rule subseq_filter_left)
  ultimately show ?thesis unfolding n by (simp add: list_emb_append_mono)
qed

lemma repair_keeps_others:
  assumes "with_required_states states = Inr out"
  shows "subseq (filter (\<lambda>s. \<not> legacy_closed s) states) out"
proof -
  obtain n where n: "normalize_catalog states = Inr n" and run: "repair_required REQUIRED_STATES n = Inr out"
    using assms by (auto simp: with_required_states_def split: sum.splits)
  show ?thesis
    using normalize_keeps_others [OF n] repair_required_adds [OF run] subseq_order.trans by blast
qed

text \<open>
  Repairing a catalog establishes the floor of required states and loses nothing: from a catalog with
  distinct slugs the result satisfies the required-state check, has distinct slugs, keeps every state but
  a renamed legacy \<open>closed\<close> in its order, and is left alone by a second repair.
\<close>

theorem catalog_repair:
  assumes "with_required_states states = Inr out" and "distinct (map sd_slug states)"
  shows "validate_required_states out = Inr () \<and> distinct (map sd_slug out)
    \<and> subseq (filter (\<lambda>s. \<not> legacy_closed s) states) out \<and> with_required_states out = Inr out"
  using repair_establishes_floor [OF assms] repair_keeps_others [OF assms(1)] repair_of_conforming by blast

definition sample_legacy_catalog :: "StateDef list" where
  "sample_legacy_catalog =
     [\<lparr>sd_slug = ''todo'', sd_super = Open, sd_role = None, sd_description = None\<rparr>,
      \<lparr>sd_slug = ''in-progress'', sd_super = Open, sd_role = Some STATE_ROLE_ACTIVE, sd_description = None\<rparr>,
      \<lparr>sd_slug = ''done'', sd_super = Closed, sd_role = None, sd_description = None\<rparr>,
      \<lparr>sd_slug = ''closed'', sd_super = Closed, sd_role = None, sd_description = None\<rparr>]"

theorem catalog_repair_witness:
  "\<exists>out. with_required_states sample_legacy_catalog = Inr out \<and> validate_required_states out = Inr ()
    \<and> map sd_slug out = [''todo'', ''in-progress'', ''verifying'', ''blocked'', ''done'', ''dropped'']"
proof -
  obtain out where out: "with_required_states sample_legacy_catalog = Inr out"
    and slugs: "map sd_slug out = [''todo'', ''in-progress'', ''verifying'', ''blocked'', ''done'', ''dropped'']"
  proof -
    have "map_sum (\<lambda>_. ()) (map sd_slug) (with_required_states sample_legacy_catalog)
        = Inr [''todo'', ''in-progress'', ''verifying'', ''blocked'', ''done'', ''dropped'']" by code_simp
    then show thesis using that by (cases "with_required_states sample_legacy_catalog") auto
  qed
  have "distinct (map sd_slug sample_legacy_catalog)" by code_simp
  then have "validate_required_states out = Inr ()" by (rule catalog_repair [OF out, THEN conjunct1])
  with out slugs show ?thesis by (intro exI conjI)
qed

text \<open>
  The write gate accepts exactly the well-formed catalogs: an open and a closed state, distinct slugs,
  every slug a dash-separated sequence of non-empty words of lower-case letters and digits, no role but
  \<open>active\<close>, and at most one active state.
\<close>

theorem write_gate_exact:
  "validate_state_defs_for_write states = Inr () \<longleftrightarrow>
     list_ex (\<lambda>s. sd_super s = Open) states \<and> list_ex (\<lambda>s. sd_super s = Closed) states
     \<and> distinct (map sd_slug states)
     \<and> list_all (\<lambda>s. list_all (\<lambda>w. w \<noteq> [] \<and> list_all word_byte w) (split_on (CHR ''-'') (sd_slug s))) states
     \<and> list_all (\<lambda>s. sd_role s \<in> {None, Some STATE_ROLE_ACTIVE}) states
     \<and> length (filter (\<lambda>s. sd_role s = Some STATE_ROLE_ACTIVE) states) \<le> 1"
  by (auto simp: write_validation_ok slug_words list_all_iff list_ex_iff)

section \<open>The resolvers\<close>

lemma closed_def_Some: "closed_def states slug = Some d \<longleftrightarrow> btm_get states slug = Some d \<and> sd_super d = Closed"
  by (auto simp: closed_def_def split: option.splits if_splits)

lemma btm_get_value: "btm_get m k = Some v \<Longrightarrow> v \<in> set (btm_values m)"
  by (force simp: btm_get_def btm_values_def dest: map_of_SomeD)

lemma resting_state_closed:
  "resting_state_for_closure states = Some d \<Longrightarrow> sd_super d = Closed \<and> d \<in> set (btm_values states)"
  by (auto simp: resting_state_for_closure_def closed_def_Some dest: find_Some_mem btm_get_value
      split: option.splits)

lemma resting_state_None:
  "resting_state_for_closure states = None \<longleftrightarrow> (\<forall>d \<in> set (btm_values states). sd_super d = Open)"
proof
  assume "resting_state_for_closure states = None"
  then have "find (\<lambda>d. sd_super d = Closed) (btm_values states) = None"
    by (auto simp: resting_state_for_closure_def split: option.splits)
  then show "\<forall>d \<in> set (btm_values states). sd_super d = Open"
    by (auto simp: find_None_iff) (metis SuperState.exhaust)
next
  assume *: "\<forall>d \<in> set (btm_values states). sd_super d = Open"
  show "resting_state_for_closure states = None"
  proof (rule ccontr)
    assume "resting_state_for_closure states \<noteq> None"
    then obtain d where "resting_state_for_closure states = Some d" by blast
    then have "sd_super d = Closed \<and> d \<in> set (btm_values states)" by (rule resting_state_closed)
    with * show False by auto
  qed
qed

end
