(* ===== verification/Graph_Walk.thy ===== *)
theory Graph_Walk
  imports Story_Prelude
begin

text \<open>
  The explicit-stack graph walk of the hierarchy and dependency components.  Several functions of
  \<^verbatim>\<open>src/src/domain.rs\<close> (\<open>walk_transitive\<close>, \<open>blocked_chain\<close>, the inner loop of
  \<open>parallel_groups\<close>) run the same loop: pop a node, skip it if it is excluded or already visited,
  mark it, push its neighbours.  Here the loop is one function over adjacency maps, it terminates
  on every input, and its result is the set of nodes reachable through nodes that are not excluded.
\<close>

section \<open>Adjacency maps\<close>

type_synonym 'a adjacency = "('a, 'a list) btree_map"

definition neighbours :: "'a::linorder adjacency \<Rightarrow> 'a \<Rightarrow> 'a list" where
  "neighbours m x = (case btm_get m x of None \<Rightarrow> [] | Some ys \<Rightarrow> ys)"

text \<open>The neighbours a loop body pushes when it consults several maps in turn.\<close>

definition adj :: "'a::linorder adjacency list \<Rightarrow> 'a \<Rightarrow> 'a list" where
  "adj ms x = concat (map (\<lambda>m. neighbours m x) ms)"

definition targets :: "'a::linorder adjacency list \<Rightarrow> 'a set" where
  "targets ms = (\<Union>m \<in> set ms. \<Union>e \<in> set m. set (snd e))"

lemma finite_targets [simp]: "finite (targets ms)"
  by (simp add: targets_def)

lemma neighbours_mem: "y \<in> set (neighbours m x) \<Longrightarrow> \<exists>ys. (x, ys) \<in> set m \<and> y \<in> set ys"
  unfolding neighbours_def btm_get_def
  by (cases "map_of m x") (auto dest: map_of_SomeD)

lemma adj_targets: "set (adj ms x) \<subseteq> targets ms"
proof
  fix y
  assume "y \<in> set (adj ms x)"
  then obtain m where m: "m \<in> set ms" and "y \<in> set (neighbours m x)"
    by (auto simp: adj_def)
  then obtain ys where "(x, ys) \<in> set m" and "y \<in> set ys"
    using neighbours_mem by blast
  with m show "y \<in> targets ms" by (force simp: targets_def)
qed

lemma adj_single [simp]: "adj [m] x = neighbours m x"
  by (simp add: adj_def)

section \<open>The loop\<close>

text \<open>The head of the list is the top of the \<open>Vec\<close> stack; neighbours are pushed in order.\<close>

function dfs_walk :: "'a::linorder adjacency list \<Rightarrow> ('a \<Rightarrow> bool) \<Rightarrow> 'a list \<Rightarrow> 'a list \<Rightarrow> 'a list" where
  "dfs_walk ms skip [] visited = visited"
| "dfs_walk ms skip (current # stack) visited =
     (if skip current \<or> current \<in> set visited then dfs_walk ms skip stack visited
      else dfs_walk ms skip (rev (adj ms current) @ stack) (bset_insert current visited))"
  by pat_completeness auto
termination
proof (relation "inv_image (finite_psubset <*lex*> less_than)
    (\<lambda>(ms, skip, stack, visited). ((targets ms \<union> set stack) - set visited, length stack))", goal_cases)
  case 1
  show ?case by auto
next
  case (2 ms skip current stack visited)
  let ?A = "(targets ms \<union> set stack) - set visited"
  let ?B = "(targets ms \<union> set (current # stack)) - set visited"
  have "?A \<subseteq> ?B" and "finite ?B" by auto
  then show ?case by (auto simp: finite_psubset_def)
next
  case (3 ms skip current stack visited)
  then have "current \<notin> set visited" by simp
  then show ?case using adj_targets [of ms current] by (auto simp: finite_psubset_def)
qed

text \<open>What the loop should compute: the nodes reachable through nodes that are not excluded.\<close>

definition open_edges :: "'a::linorder adjacency list \<Rightarrow> ('a \<Rightarrow> bool) \<Rightarrow> ('a \<times> 'a) set" where
  "open_edges ms skip = {(x, y). y \<in> set (adj ms x) \<and> \<not> skip x \<and> \<not> skip y}"

definition reach_avoiding :: "'a::linorder adjacency list \<Rightarrow> ('a \<Rightarrow> bool) \<Rightarrow> 'a set \<Rightarrow> 'a set" where
  "reach_avoiding ms skip X = (open_edges ms skip)\<^sup>* `` {x \<in> X. \<not> skip x}"

lemma reach_avoiding_mono: "X \<subseteq> Y \<Longrightarrow> reach_avoiding ms skip X \<subseteq> reach_avoiding ms skip Y"
  by (auto simp: reach_avoiding_def)

lemma reach_avoiding_step:
  assumes "\<not> skip x"
  shows "reach_avoiding ms skip (set (adj ms x)) \<subseteq> reach_avoiding ms skip {x}"
proof
  fix y
  assume "y \<in> reach_avoiding ms skip (set (adj ms x))"
  then obtain z where z: "z \<in> set (adj ms x)" "\<not> skip z" and "(z, y) \<in> (open_edges ms skip)\<^sup>*"
    by (auto simp: reach_avoiding_def)
  moreover from z assms have "(x, z) \<in> open_edges ms skip"
    by (simp add: open_edges_def)
  ultimately show "y \<in> reach_avoiding ms skip {x}"
    using assms by (auto simp: reach_avoiding_def intro: converse_rtrancl_into_rtrancl)
qed

lemma reach_avoiding_Un:
  "reach_avoiding ms skip (X \<union> Y) = reach_avoiding ms skip X \<union> reach_avoiding ms skip Y"
  by (auto simp: reach_avoiding_def)

lemma reach_avoiding_refl: "\<not> skip x \<Longrightarrow> x \<in> X \<Longrightarrow> x \<in> reach_avoiding ms skip X"
  by (auto simp: reach_avoiding_def)

lemma dfs_walk_sound:
  "set (dfs_walk ms skip stack visited) \<subseteq> set visited \<union> reach_avoiding ms skip (set stack)"
proof (induction ms skip stack visited rule: dfs_walk.induct)
  case (1 ms skip visited)
  then show ?case by simp
next
  case (2 ms skip current stack visited)
  show ?case
  proof (cases "skip current \<or> current \<in> set visited")
    case True
    then show ?thesis using "2.IH"(1) reach_avoiding_mono [of "set stack" "set (current # stack)" ms skip]
      by auto
  next
    case False
    then have "reach_avoiding ms skip (set (adj ms current)) \<subseteq> reach_avoiding ms skip {current}"
      by (simp add: reach_avoiding_step)
    moreover have "current \<in> reach_avoiding ms skip {current}"
      using False by (simp add: reach_avoiding_refl)
    ultimately show ?thesis using False "2.IH"(2) reach_avoiding_Un [of ms skip "{current}" "set stack"]
      reach_avoiding_Un [of ms skip "set (adj ms current)" "set stack"] by auto
  qed
qed

text \<open>The invariant of completeness: an unexcluded neighbour of a visited node is visited or on the stack.\<close>

definition frontier_ok :: "'a::linorder adjacency list \<Rightarrow> ('a \<Rightarrow> bool) \<Rightarrow> 'a set \<Rightarrow> 'a set \<Rightarrow> bool" where
  "frontier_ok ms skip V S \<longleftrightarrow> (\<forall>x \<in> V. \<forall>y \<in> set (adj ms x). skip y \<or> y \<in> V \<or> y \<in> S)"

lemma dfs_walk_visited: "set visited \<subseteq> set (dfs_walk ms skip stack visited)"
  by (induction ms skip stack visited rule: dfs_walk.induct) auto

lemma dfs_walk_stack:
  "x \<in> set stack \<Longrightarrow> \<not> skip x \<Longrightarrow> x \<in> set (dfs_walk ms skip stack visited)"
proof (induction ms skip stack visited rule: dfs_walk.induct)
  case (2 ms skip current stack visited)
  then show ?case
    using dfs_walk_visited [of visited ms skip stack]
      dfs_walk_visited [of "bset_insert current visited" ms skip "rev (adj ms current) @ stack"]
    by (auto split: if_splits)
qed simp

lemma dfs_walk_closed:
  "frontier_ok ms skip (set visited) (set stack) \<Longrightarrow>
   frontier_ok ms skip (set (dfs_walk ms skip stack visited)) {}"
proof (induction ms skip stack visited rule: dfs_walk.induct)
  case (2 ms skip current stack visited)
  show ?case
  proof (cases "skip current \<or> current \<in> set visited")
    case True
    with "2.prems" have "frontier_ok ms skip (set visited) (set stack)"
      by (auto simp: frontier_ok_def)
    then show ?thesis using True "2.IH"(1) by simp
  next
    case False
    with "2.prems" have "frontier_ok ms skip (set (bset_insert current visited))
        (set (rev (adj ms current) @ stack))"
      by (auto simp: frontier_ok_def)
    then show ?thesis using False "2.IH"(2) by simp
  qed
qed simp

lemma frontier_ok_rtrancl:
  assumes "frontier_ok ms skip V {}" and "x \<in> V" and "(x, y) \<in> (open_edges ms skip)\<^sup>*"
  shows "y \<in> V"
  using assms(3,2)
proof (induction rule: rtrancl_induct)
  case (step y z)
  then show ?case using assms(1) by (auto simp: frontier_ok_def open_edges_def)
qed

theorem dfs_walk_reach: "set (dfs_walk ms skip stack []) = reach_avoiding ms skip (set stack)"
proof
  show "set (dfs_walk ms skip stack []) \<subseteq> reach_avoiding ms skip (set stack)"
    using dfs_walk_sound [of ms skip stack "[]"] by simp
  have "frontier_ok ms skip (set (dfs_walk ms skip stack [])) {}"
    by (rule dfs_walk_closed) (simp add: frontier_ok_def)
  then show "reach_avoiding ms skip (set stack) \<subseteq> set (dfs_walk ms skip stack [])"
    by (auto simp: reach_avoiding_def dest: frontier_ok_rtrancl intro: dfs_walk_stack)
qed

lemma bset_ok_dfs_walk: "bset_ok visited \<Longrightarrow> bset_ok (dfs_walk ms skip stack visited)"
  by (induction ms skip stack visited rule: dfs_walk.induct) (auto simp: bset.ok_add)

section \<open>Adjacency maps that represent a relation\<close>

text \<open>
  The interface between an index (a list of adjacency maps) and the relation it stores: the maps
  list exactly the successors under \<open>E\<close>.  Every client walk then computes the image of its roots
  under the reflexive transitive closure of \<open>E\<close>.
\<close>

locale adjacency_index =
  fixes ms :: "'a::linorder adjacency list" and E :: "('a \<times> 'a) set"
  assumes adj_iff: "y \<in> set (adj ms x) \<longleftrightarrow> (x, y) \<in> E"
begin

lemma open_edges_all: "open_edges ms (\<lambda>_. False) = E"
  by (auto simp: open_edges_def adj_iff)

lemma walk_image: "set (dfs_walk ms (\<lambda>_. False) stack []) = E\<^sup>* `` set stack"
  by (simp add: dfs_walk_reach reach_avoiding_def open_edges_all)

lemma walk_from_successors: "set (dfs_walk ms (\<lambda>_. False) (rev (adj ms x)) []) = E\<^sup>+ `` {x}"
proof -
  have "E\<^sup>* `` (E `` {x}) = E\<^sup>+ `` {x}"
    by (simp only: trancl_unfold_left relcomp_Image)
  moreover have "set (adj ms x) = E `` {x}" by (auto simp: adj_iff)
  ultimately show ?thesis by (simp add: walk_image)
qed

lemma walk_single: "y \<in> set (dfs_walk ms (\<lambda>_. False) [x] []) \<longleftrightarrow> (x, y) \<in> E\<^sup>*"
  using walk_image [of "[x]"] by (auto simp del: dfs_walk.simps)

end

end
