(* ===== verification/Hierarchy_Cycles.thy ===== *)
theory Hierarchy_Cycles
  imports Graph_Walk
begin

text \<open>
  The two cycle questions of the story hierarchy (\<^verbatim>\<open>HierarchyGraph\<close> in \<^verbatim>\<open>src/src/domain.rs\<close>, lines 3417
  to 3493), over the children map: whether a new arc would close a cycle, and which nodes a depth-first
  search marks as cyclic.  The search is the recursion of the source with its four accumulators; it
  terminates on every graph, it marks nothing exactly when the graph is acyclic, and every node it
  marks can reach a cycle.
\<close>

section \<open>Would an arc close a cycle\<close>

function cycle_search :: "'a::linorder adjacency \<Rightarrow> 'a \<Rightarrow> 'a list \<Rightarrow> 'a list \<Rightarrow> bool" where
  "cycle_search m parent [] visited = False"
| "cycle_search m parent (current # stack) visited =
     (if current \<in> set visited then cycle_search m parent stack visited
      else if current = parent then True
      else cycle_search m parent (rev (neighbours m current) @ stack) (bset_insert current visited))"
  by pat_completeness auto
termination
proof (relation "inv_image (finite_psubset <*lex*> less_than)
    (\<lambda>(m, parent, stack, visited). ((targets [m] \<union> set stack) - set visited, length stack))", goal_cases)
  case 1
  show ?case by auto
next
  case (2 m parent current stack visited)
  let ?A = "(targets [m] \<union> set stack) - set visited"
  let ?B = "(targets [m] \<union> set (current # stack)) - set visited"
  have "?A \<subseteq> ?B" and "finite ?B" by auto
  then show ?case by (auto simp: finite_psubset_def)
next
  case (3 m parent current stack visited)
  then show ?case using adj_targets [of "[m]" current] by (auto simp: finite_psubset_def)
qed

definition would_create_cycle :: "'a::linorder adjacency \<Rightarrow> 'a \<Rightarrow> 'a \<Rightarrow> bool" where
  "would_create_cycle m parent_id child_id \<longleftrightarrow>
     parent_id = child_id \<or> cycle_search m parent_id [child_id] []"

lemma cycle_search_walk:
  "parent \<notin> set visited \<Longrightarrow>
     cycle_search m parent stack visited \<longleftrightarrow> parent \<in> set (dfs_walk [m] (\<lambda>_. False) stack visited)"
proof (induction m parent stack visited rule: cycle_search.induct)
  case (2 m parent current stack visited)
  then show ?case
    using dfs_walk_visited [of "bset_insert parent visited" "[m]" "\<lambda>_. False" "rev (neighbours m parent) @ stack"]
    by auto
qed simp

section \<open>The marking search\<close>

record 'a CycleState =
  cs_visited :: "'a list"
  cs_visiting :: "'a list"
  cs_stack :: "'a list"
  cs_cycle_nodes :: "'a list"

definition enter_node :: "'a::linorder \<Rightarrow> 'a CycleState \<Rightarrow> 'a CycleState" where
  "enter_node node st =
     st\<lparr>cs_visited := bset_insert node (cs_visited st), cs_visiting := bset_insert node (cs_visiting st),
        cs_stack := cs_stack st @ [node]\<rparr>"

definition leave_node :: "'a::linorder \<Rightarrow> 'a CycleState \<Rightarrow> 'a CycleState" where
  "leave_node node st =
     st\<lparr>cs_visiting := bset_remove node (cs_visiting st), cs_stack := butlast (cs_stack st)\<rparr>"

definition mark_cycle :: "'a::linorder \<Rightarrow> 'a CycleState \<Rightarrow> 'a CycleState" where
  "mark_cycle child st =
     st\<lparr>cs_cycle_nodes := bset_insert child (fold bset_insert (cs_stack st) (cs_cycle_nodes st))\<rparr>"

function visit_cycle_nodes :: "'a::linorder adjacency \<Rightarrow> 'a \<Rightarrow> 'a CycleState \<Rightarrow> 'a CycleState"
  and visit_children :: "'a::linorder adjacency \<Rightarrow> 'a list \<Rightarrow> 'a CycleState \<Rightarrow> 'a CycleState" where
  "visit_cycle_nodes m node st =
     (if node \<in> set (cs_visited st) then st
      else leave_node node (visit_children m (neighbours m node) (enter_node node st)))"
| "visit_children m [] st = st"
| "visit_children m (child # rest) st =
     visit_children m rest
       (if child \<in> set (cs_visiting st) then mark_cycle child st else visit_cycle_nodes m child st)"
  by pat_completeness auto

lemma visited_simps [simp]:
  "set (cs_visited (enter_node node st)) = insert node (set (cs_visited st))"
  "cs_visited (leave_node node st) = cs_visited st"
  "cs_visited (mark_cycle node st) = cs_visited st"
  by (simp_all add: enter_node_def leave_node_def mark_cycle_def)

text \<open>Inside the domain of the recursion the visited set only grows, which is what ends it.\<close>

lemma visited_grows_dom:
  "visit_cycle_nodes_visit_children_dom (Inl (m, node, st)) \<Longrightarrow>
     set (cs_visited st) \<subseteq> set (cs_visited (visit_cycle_nodes m node st))"
  "visit_cycle_nodes_visit_children_dom (Inr (m, children, st)) \<Longrightarrow>
     set (cs_visited st) \<subseteq> set (cs_visited (visit_children m children st))"
proof (induction m node st and m children st rule: visit_cycle_nodes_visit_children.pinduct)
  case (1 m node st)
  then show ?case by (auto simp: visit_cycle_nodes.psimps split: if_splits)
next
  case (2 m st)
  then show ?case by (simp add: visit_children.psimps)
next
  case (3 m child rest st)
  then show ?case by (auto simp: visit_children.psimps split: if_splits)
qed

definition pending :: "'a::linorder adjacency \<Rightarrow> 'a list \<Rightarrow> 'a CycleState \<Rightarrow> 'a set" where
  "pending m nodes st = (targets [m] \<union> set nodes) - set (cs_visited st)"

lemma pending_enter:
  assumes "node \<notin> set (cs_visited st)"
  shows "pending m (neighbours m node) (enter_node node st) \<subset> pending m [node] st"
  using assms adj_targets [of "[m]" node] by (auto simp: pending_def)

lemma pending_rest:
  assumes "set (cs_visited st) \<subseteq> set (cs_visited st')"
  shows "pending m rest st' \<subseteq> pending m (child # rest) st"
  using assms by (auto simp: pending_def)

lemma finite_pending [simp]: "finite (pending m nodes st)"
  by (simp add: pending_def)

lemma psubset_or_eq: "(A, B) \<in> finite_psubset \<or> A = B" if "A \<subseteq> B" and "finite B"
  using that by (auto simp: finite_psubset_def)

termination visit_cycle_nodes
proof (relation "inv_image (finite_psubset <*lex*> less_than)
    (\<lambda>x. case x of Inl (m, node, st) \<Rightarrow> (pending m [node] st, 0)
                 | Inr (m, children, st) \<Rightarrow> (pending m children st, Suc (length children)))", goal_cases)
  case 1
  show ?case by auto
next
  case (2 m node st)
  then have "node \<notin> set (cs_visited st)" by simp
  from pending_enter [OF this, of m] show ?case by (auto simp: finite_psubset_def)
next
  case (3 m child rest st)
  have "pending m [child] st \<subseteq> pending m (child # rest) st" by (auto simp: pending_def)
  then show ?case using psubset_or_eq [of "pending m [child] st"] by auto
next
  case (4 m child rest st)
  let ?st = "if child \<in> set (cs_visiting st) then mark_cycle child st else visit_cycle_nodes m child st"
  have "set (cs_visited st) \<subseteq> set (cs_visited ?st)"
    using 4 visited_grows_dom(1) [of m child st] by auto
  then have "pending m rest ?st \<subseteq> pending m (child # rest) st" by (rule pending_rest)
  then show ?case using psubset_or_eq [of "pending m rest ?st"] by auto
qed

definition cycle_nodes :: "'a::linorder adjacency \<Rightarrow> 'a list" where
  "cycle_nodes m =
     cs_cycle_nodes (fold (visit_cycle_nodes m) (btm_keys m)
       \<lparr>cs_visited = [], cs_visiting = [], cs_stack = [], cs_cycle_nodes = []\<rparr>)"

section \<open>What the search marks\<close>

definition arcs :: "'a::linorder adjacency \<Rightarrow> ('a \<times> 'a) set" where
  "arcs m = {(x, y). y \<in> set (neighbours m x)}"

definition finished :: "'a CycleState \<Rightarrow> 'a set" where
  "finished st = set (cs_visited st) - set (cs_visiting st)"

text \<open>
  The invariant of the search while it has marked nothing: the finished nodes are closed under
  children and lie on no cycle.
\<close>

definition settled :: "'a::linorder adjacency \<Rightarrow> 'a CycleState \<Rightarrow> bool" where
  "settled m st \<longleftrightarrow>
     bset_ok (cs_visiting st) \<and> set (cs_visiting st) \<subseteq> set (cs_visited st)
     \<and> arcs m `` finished st \<subseteq> finished st \<and> (\<forall>x \<in> finished st. (x, x) \<notin> (arcs m)\<^sup>+)"

lemma set_fold_bset_insert: "set (fold bset_insert xs s) = set xs \<union> set s"
  by (induction xs arbitrary: s) auto

lemma search_grows:
  "set (cs_cycle_nodes st) \<subseteq> set (cs_cycle_nodes (visit_cycle_nodes m node st))"
  "set (cs_cycle_nodes st) \<subseteq> set (cs_cycle_nodes (visit_children m children st))"
proof (induction m node st and m children st rule: visit_cycle_nodes_visit_children.induct)
  case (3 m child rest st)
  have "set (cs_cycle_nodes st) \<subseteq> set (cs_cycle_nodes (mark_cycle child st))"
    by (auto simp: mark_cycle_def set_fold_bset_insert)
  then show ?case using 3 by (auto split: if_splits)
qed (auto simp: enter_node_def leave_node_def)

lemma closed_no_new_cycle:
  assumes "E `` F \<subseteq> F" and "\<forall>x \<in> F. (x, x) \<notin> E\<^sup>+" and "E `` {n} \<subseteq> F" and "n \<notin> F"
  shows "E `` insert n F \<subseteq> insert n F" and "\<forall>x \<in> insert n F. (x, x) \<notin> E\<^sup>+"
proof -
  have stay: "y \<in> F" if "(x, y) \<in> E\<^sup>*" "x \<in> F" for x y
    using that by (induction rule: rtrancl_induct) (use assms(1) in auto)
  show "E `` insert n F \<subseteq> insert n F" using assms(1,3) by auto
  have "(n, n) \<notin> E\<^sup>+"
  proof
    assume "(n, n) \<in> E\<^sup>+"
    then obtain y where "(n, y) \<in> E" and "(y, n) \<in> E\<^sup>*" by (auto dest: tranclD)
    then show False using stay assms(3,4) by blast
  qed
  then show "\<forall>x \<in> insert n F. (x, x) \<notin> E\<^sup>+" using assms(2) by auto
qed

lemma settled_enter:
  assumes "settled m st" and "node \<notin> set (cs_visited st)"
  shows "settled m (enter_node node st)" and "finished (enter_node node st) = finished st"
proof -
  show fin: "finished (enter_node node st) = finished st"
    using assms by (auto simp: finished_def enter_node_def settled_def)
  show "settled m (enter_node node st)"
    using assms unfolding settled_def fin by (auto simp: enter_node_def bset.ok_add)
qed

lemma settled_leave:
  assumes "settled m st" and "node \<in> set (cs_visiting st)" and "arcs m `` {node} \<subseteq> finished st"
  shows "settled m (leave_node node st)" and "finished (leave_node node st) = insert node (finished st)"
    and "set (cs_visiting (leave_node node st)) = set (cs_visiting st) - {node}"
proof -
  have ok: "bset_ok (cs_visiting st)" using assms(1) by (simp add: settled_def)
  show vis: "set (cs_visiting (leave_node node st)) = set (cs_visiting st) - {node}"
    by (simp add: leave_node_def bset.set_del ok)
  then show fin: "finished (leave_node node st) = insert node (finished st)"
    using assms(1,2) by (auto simp: finished_def settled_def)
  have "node \<notin> finished st" using assms(2) by (simp add: finished_def)
  with assms closed_no_new_cycle [of "arcs m" "finished st" node]
  have "arcs m `` insert node (finished st) \<subseteq> insert node (finished st)"
    and "\<forall>x \<in> insert node (finished st). (x, x) \<notin> (arcs m)\<^sup>+"
    by (auto simp: settled_def)
  moreover have "bset_ok (cs_visiting (leave_node node st))"
    by (simp add: leave_node_def bset.ok_del ok)
  ultimately show "settled m (leave_node node st)"
    using assms(1) vis unfolding settled_def fin by auto
qed

lemma search_settles:
  "settled m st \<Longrightarrow> node \<notin> set (cs_visiting st) \<Longrightarrow> cs_cycle_nodes (visit_cycle_nodes m node st) = [] \<Longrightarrow>
     settled m (visit_cycle_nodes m node st)
     \<and> set (cs_visiting (visit_cycle_nodes m node st)) = set (cs_visiting st)
     \<and> insert node (finished st) \<subseteq> finished (visit_cycle_nodes m node st)"
  "settled m st \<Longrightarrow> cs_cycle_nodes (visit_children m children st) = [] \<Longrightarrow>
     settled m (visit_children m children st)
     \<and> set (cs_visiting (visit_children m children st)) = set (cs_visiting st)
     \<and> set children \<union> finished st \<subseteq> finished (visit_children m children st)"
proof (induction m node st and m children st rule: visit_cycle_nodes_visit_children.induct)
  case (1 m node st)
  show ?case
  proof (cases "node \<in> set (cs_visited st)")
    case True
    then show ?thesis using 1 by (simp add: finished_def)
  next
    case False
    let ?st = "visit_children m (neighbours m node) (enter_node node st)"
    have none: "cs_cycle_nodes ?st = []" using "1.prems" False by (simp add: leave_node_def)
    have IH: "settled m ?st" "set (cs_visiting ?st) = set (cs_visiting (enter_node node st))"
      "set (neighbours m node) \<union> finished (enter_node node st) \<subseteq> finished ?st"
      using "1.IH" [OF False settled_enter(1) [OF "1.prems"(1) False] none] by auto
    have "node \<in> set (cs_visiting ?st)" using IH(2) by (simp add: enter_node_def)
    moreover have "arcs m `` {node} \<subseteq> finished ?st" using IH(3) by (auto simp: arcs_def)
    ultimately show ?thesis
      using settled_leave [OF IH(1)] IH(2,3) False "1.prems"(2) settled_enter(2) [OF "1.prems"(1) False]
      by (auto simp: enter_node_def)
  qed
next
  case (3 m child rest st)
  let ?st = "if child \<in> set (cs_visiting st) then mark_cycle child st else visit_cycle_nodes m child st"
  have none: "cs_cycle_nodes ?st = []" using search_grows(2) [of ?st m rest] "3.prems"(2) by auto
  have "set (cs_cycle_nodes (mark_cycle child st)) \<noteq> {}" by (simp add: mark_cycle_def)
  with none have fresh: "child \<notin> set (cs_visiting st)" by auto
  with none "3.IH"(1) "3.prems"(1)
  have "settled m ?st" "set (cs_visiting ?st) = set (cs_visiting st)" "insert child (finished st) \<subseteq> finished ?st"
    by auto
  then show ?case using "3.IH"(2) "3.prems"(2) fresh by auto
qed auto

text \<open>
  The other direction: the stack is a path of the graph, so whatever the search marks lies on a path
  that runs into a cycle.
\<close>

definition reaches_cycle :: "('a \<times> 'a) set \<Rightarrow> 'a \<Rightarrow> bool" where
  "reaches_cycle E x \<longleftrightarrow> (\<exists>y. (x, y) \<in> E\<^sup>* \<and> (y, y) \<in> E\<^sup>+)"

definition trail :: "'a::linorder adjacency \<Rightarrow> 'a CycleState \<Rightarrow> bool" where
  "trail m st \<longleftrightarrow>
     bset_ok (cs_visiting st) \<and> distinct (cs_stack st) \<and> set (cs_stack st) = set (cs_visiting st)
     \<and> set (cs_visiting st) \<subseteq> set (cs_visited st)
     \<and> successively (\<lambda>x y. (x, y) \<in> arcs m) (cs_stack st)
     \<and> (\<forall>x \<in> set (cs_cycle_nodes st). reaches_cycle (arcs m) x)"

lemma path_to_last:
  "successively (\<lambda>x y. (x, y) \<in> E) xs \<Longrightarrow> x \<in> set xs \<Longrightarrow> (x, last xs) \<in> E\<^sup>*"
proof (induction xs arbitrary: x)
  case (Cons a xs)
  show ?case
  proof (cases "xs = []")
    case False
    then have path: "(a, hd xs) \<in> E" "successively (\<lambda>x y. (x, y) \<in> E) xs"
      using Cons.prems(1) by (auto simp: successively_Cons)
    then have "(hd xs, last xs) \<in> E\<^sup>*" using Cons.IH [OF path(2)] False
      by simp
    then show ?thesis using Cons path False by (auto intro: converse_rtrancl_into_rtrancl)
  qed (use Cons in auto)
qed simp

lemma trail_enter:
  assumes "trail m st" and "node \<notin> set (cs_visited st)"
    and "cs_stack st = [] \<or> (last (cs_stack st), node) \<in> arcs m"
  shows "trail m (enter_node node st)"
  using assms by (auto simp: trail_def enter_node_def successively_append_iff bset.ok_add)

lemma trail_leave:
  assumes "trail m st" and "cs_stack st = stack @ [node]"
  shows "trail m (leave_node node st)" and "cs_stack (leave_node node st) = stack"
  using assms by (auto simp: trail_def leave_node_def successively_append_iff bset.ok_del bset.set_del)

lemma trail_mark:
  assumes "trail m st" and "child \<in> set (cs_visiting st)" and "(last (cs_stack st), child) \<in> arcs m"
  shows "trail m (mark_cycle child st)"
proof -
  have to_last: "(x, last (cs_stack st)) \<in> (arcs m)\<^sup>*" if "x \<in> set (cs_stack st)" for x
    using assms(1) that by (intro path_to_last) (simp_all add: trail_def)
  have child: "child \<in> set (cs_stack st)" using assms(1,2) by (simp add: trail_def)
  have "(last (cs_stack st), last (cs_stack st)) \<in> (arcs m)\<^sup>+"
    using assms(3) to_last [OF child] by (rule rtrancl_into_trancl2)
  then have "reaches_cycle (arcs m) x" if "x \<in> set (cs_stack st)" for x
    using to_last [OF that] by (auto simp: reaches_cycle_def)
  then show ?thesis using assms(1) child
    by (auto simp: trail_def mark_cycle_def set_fold_bset_insert)
qed

lemma search_trail:
  "trail m st \<Longrightarrow> node \<notin> set (cs_visiting st) \<Longrightarrow> cs_stack st = [] \<or> (last (cs_stack st), node) \<in> arcs m \<Longrightarrow>
     trail m (visit_cycle_nodes m node st) \<and> cs_stack (visit_cycle_nodes m node st) = cs_stack st"
  "trail m st \<Longrightarrow> cs_stack st \<noteq> [] \<Longrightarrow> set children \<subseteq> set (neighbours m (last (cs_stack st))) \<Longrightarrow>
     trail m (visit_children m children st) \<and> cs_stack (visit_children m children st) = cs_stack st"
proof (induction m node st and m children st rule: visit_cycle_nodes_visit_children.induct)
  case (1 m node st)
  show ?case
  proof (cases "node \<in> set (cs_visited st)")
    case False
    have "cs_stack (enter_node node st) = cs_stack st @ [node]" by (simp add: enter_node_def)
    then have "trail m (visit_children m (neighbours m node) (enter_node node st))
        \<and> cs_stack (visit_children m (neighbours m node) (enter_node node st)) = cs_stack st @ [node]"
      using "1.IH" [OF False trail_enter [OF "1.prems"(1) False "1.prems"(3)]] by simp
    then show ?thesis using False trail_leave by auto
  qed (use 1 in simp)
next
  case (3 m child rest st)
  let ?st = "if child \<in> set (cs_visiting st) then mark_cycle child st else visit_cycle_nodes m child st"
  have arc: "(last (cs_stack st), child) \<in> arcs m" using "3.prems"(3) by (auto simp: arcs_def)
  have "trail m ?st \<and> cs_stack ?st = cs_stack st"
    using trail_mark [OF "3.prems"(1) _ arc] "3.IH"(1) "3.prems"(1) arc by (auto simp: mark_cycle_def)
  then show ?case using "3.IH"(2) "3.prems"(2,3) by auto
qed auto

section \<open>The top-level loop\<close>

declare visit_cycle_nodes.simps [simp del]

lemma fold_search_grows:
  "set (cs_cycle_nodes st) \<subseteq> set (cs_cycle_nodes (fold (visit_cycle_nodes m) nodes st))"
proof (induction nodes arbitrary: st)
  case (Cons node nodes)
  then show ?case using search_grows(1) [of st m node] by fastforce
qed simp

lemma fold_search_settles:
  "settled m st \<Longrightarrow> set (cs_visiting st) = {} \<Longrightarrow> cs_cycle_nodes (fold (visit_cycle_nodes m) nodes st) = [] \<Longrightarrow>
     \<forall>x \<in> set nodes \<union> finished st. (x, x) \<notin> (arcs m)\<^sup>+"
proof (induction nodes arbitrary: st)
  case (Cons node nodes)
  let ?st = "visit_cycle_nodes m node st"
  have "cs_cycle_nodes ?st = []" using fold_search_grows [of ?st m nodes] Cons.prems(3) by simp
  then have "settled m ?st" "set (cs_visiting ?st) = {}" "insert node (finished st) \<subseteq> finished ?st"
    using search_settles(1) [OF Cons.prems(1)] Cons.prems(2) by auto
  then show ?case using Cons.IH Cons.prems(3) by auto
qed (simp add: settled_def)

lemma fold_search_trail:
  "trail m st \<Longrightarrow> cs_stack st = [] \<Longrightarrow>
     trail m (fold (visit_cycle_nodes m) nodes st) \<and> cs_stack (fold (visit_cycle_nodes m) nodes st) = []"
proof (induction nodes arbitrary: st)
  case (Cons node nodes)
  then have "trail m (visit_cycle_nodes m node st)" "cs_stack (visit_cycle_nodes m node st) = []"
    using search_trail(1) [of m st node] by (auto simp: trail_def)
  then show ?case using Cons.IH by simp
qed simp

lemma arcs_source: "(x, y) \<in> arcs m \<Longrightarrow> x \<in> set (btm_keys m)"
  by (cases "btm_get m x") (simp_all add: arcs_def neighbours_def btm_keys_get)

lemma cycle_nodes_sound: "x \<in> set (cycle_nodes m) \<Longrightarrow> reaches_cycle (arcs m) x"
  using fold_search_trail [of m "\<lparr>cs_visited = [], cs_visiting = [], cs_stack = [], cs_cycle_nodes = []\<rparr>" "btm_keys m"]
  by (simp add: trail_def cycle_nodes_def bset_ok_def)

lemma acyclic_no_cycle_nodes: "cycle_nodes m = [] \<longleftrightarrow> acyclic (arcs m)"
proof
  assume "cycle_nodes m = []"
  then have keys: "\<forall>x \<in> set (btm_keys m). (x, x) \<notin> (arcs m)\<^sup>+"
    using fold_search_settles [of m "\<lparr>cs_visited = [], cs_visiting = [], cs_stack = [], cs_cycle_nodes = []\<rparr>" "btm_keys m"]
    by (simp add: settled_def finished_def cycle_nodes_def bset_ok_def)
  show "acyclic (arcs m)"
  proof (rule acyclicI, intro allI notI)
    fix x
    assume loop: "(x, x) \<in> (arcs m)\<^sup>+"
    then obtain y where "(x, y) \<in> arcs m" by (auto dest: tranclD)
    then show False using keys loop arcs_source by blast
  qed
next
  assume "acyclic (arcs m)"
  then have "\<not> reaches_cycle (arcs m) x" for x by (auto simp: reaches_cycle_def acyclic_def)
  then show "cycle_nodes m = []"
    using cycle_nodes_sound [of "hd (cycle_nodes m)" m] by (cases "cycle_nodes m") auto
qed

lemma would_create_cycle_iff: "would_create_cycle m p c \<longleftrightarrow> (c, p) \<in> (arcs m)\<^sup>*"
proof -
  have "adjacency_index [m] (arcs m)" by unfold_locales (simp add: arcs_def)
  then show ?thesis
    using adjacency_index.walk_single [of "[m]" "arcs m" p c] cycle_search_walk [of p "[]" m "[c]"]
    by (auto simp: would_create_cycle_def simp del: cycle_search.simps)
qed

end
