(* ===== verification/Story_Hierarchy.thy ===== *)
theory Story_Hierarchy
  imports Story_Types Hierarchy_Cycles
begin

text \<open>
  Relations between stories and the parent/child hierarchy (\<^verbatim>\<open>src/src/domain.rs\<close>, lines 2302 to 2483 and
  3259 to 3535): relation names and their inverses, the cross-story integrity checks, the hierarchy
  graph with its cycle guard, and the derived family relations.  The theorems relate the graph's maps
  to the arcs the stories claim, the guard to acyclicity, the derived relations to the transitive
  closure, and a report without findings to a consistent project.
\<close>

section \<open>Relation names\<close>

definition relation_edges :: "string \<Rightarrow> (string \<times> string) list option" where
  "relation_edges input =
     (if input = ''relates-to'' \<or> input = ''related-to'' then Some [(''relates-to'', ''relates-to'')]
      else if input = ''blocks'' then Some [(''blocks'', ''blocked-by'')]
      else if input = ''blocked-by'' then Some [(''blocked-by'', ''blocks'')]
      else if input = ''parent-of'' then Some [(''parent-of'', ''child-of'')]
      else if input = ''child-of'' then Some [(''child-of'', ''parent-of'')]
      else if input = ''duplicate-of'' then Some [(''duplicate-of'', ''duplicate-of'')]
      else if input = ''obviates'' then Some [(''obviates'', ''obviated-by'')]
      else if input = ''obviated-by'' then Some [(''obviated-by'', ''obviates'')]
      else None)"

definition is_relation_input :: "string \<Rightarrow> bool" where
  "is_relation_input raw \<longleftrightarrow> relation_edges raw \<noteq> None"

definition inverse_relation :: "string \<Rightarrow> string option" where
  "inverse_relation rel =
     (if rel = ''relates-to'' then Some ''relates-to''
      else if rel = ''blocks'' then Some ''blocked-by''
      else if rel = ''blocked-by'' then Some ''blocks''
      else if rel = ''parent-of'' then Some ''child-of''
      else if rel = ''child-of'' then Some ''parent-of''
      else if rel = ''duplicate-of'' then Some ''duplicate-of''
      else if rel = ''obviates'' then Some ''obviated-by''
      else if rel = ''obviated-by'' then Some ''obviates''
      else None)"

definition is_mutual_relation :: "string \<Rightarrow> bool" where
  "is_mutual_relation rel \<longleftrightarrow> rel = ''relates-to'' \<or> rel = ''duplicate-of''"

section \<open>The hierarchy graph\<close>

record HierarchyGraph =
  children_by_parent :: "string adjacency"
  parents_by_child :: "string adjacency"

definition link :: "'a::linorder \<Rightarrow> 'a \<Rightarrow> 'a adjacency \<Rightarrow> 'a adjacency" where
  "link a b m = btm_entry a [] (bset_insert b) m"

definition add_arc :: "string \<Rightarrow> string \<Rightarrow> HierarchyGraph \<Rightarrow> HierarchyGraph" where
  "add_arc parent child g =
     g\<lparr>children_by_parent := link parent child (children_by_parent g),
       parents_by_child := link child parent (parents_by_child g)\<rparr>"

text \<open>The arc (parent, child) a relation of a story claims, between stories that exist.\<close>

definition claimed_arc :: "story_map \<Rightarrow> StorySnapshot \<Rightarrow> StoryRelation \<Rightarrow> (string \<times> string) option" where
  "claimed_arc stories story r =
     (if relation r = ''parent-of'' \<and> btm_contains stories (other_id r) then Some (snap_id story, other_id r)
      else if relation r = ''child-of'' \<and> btm_contains stories (other_id r) then Some (other_id r, snap_id story)
      else None)"

definition add_claims :: "story_map \<Rightarrow> StorySnapshot \<Rightarrow> HierarchyGraph \<Rightarrow> HierarchyGraph" where
  "add_claims stories story g =
     fold (\<lambda>r g. case claimed_arc stories story r of None \<Rightarrow> g | Some (p, c) \<Rightarrow> add_arc p c g)
       (snap_relationships story) g"

definition empty_sets :: "story_map \<Rightarrow> string adjacency" where
  "empty_sets stories = btm_of_list (map (\<lambda>i. (i, [])) (btm_keys stories))"

definition from_attested :: "story_map \<Rightarrow> string list \<Rightarrow> HierarchyGraph" where
  "from_attested stories unattested =
     fold (\<lambda>story g. if snap_id story \<in> set unattested then g else add_claims stories story g)
       (btm_values stories)
       \<lparr>children_by_parent = empty_sets stories, parents_by_child = empty_sets stories\<rparr>"

definition from_stories :: "story_map \<Rightarrow> HierarchyGraph" where
  "from_stories stories = from_attested stories []"

definition children_of :: "HierarchyGraph \<Rightarrow> string \<Rightarrow> string list" where
  "children_of g i = neighbours (children_by_parent g) i"

definition parents_of :: "HierarchyGraph \<Rightarrow> string \<Rightarrow> string list" where
  "parents_of g i = neighbours (parents_by_child g) i"

definition walk_transitive :: "HierarchyGraph \<Rightarrow> string \<Rightarrow> string list \<Rightarrow> bool \<Rightarrow> string list" where
  "walk_transitive g i cyc forward =
     (let m = (if forward then children_by_parent g else parents_by_child g) in
      dfs_walk [m] (\<lambda>x. x \<in> set cyc) (rev (neighbours m i)) [])"

definition transitive_descendants :: "HierarchyGraph \<Rightarrow> string \<Rightarrow> string list \<Rightarrow> string list" where
  "transitive_descendants g i cyc = walk_transitive g i cyc True"

definition transitive_ancestors :: "HierarchyGraph \<Rightarrow> string \<Rightarrow> string list \<Rightarrow> string list" where
  "transitive_ancestors g i cyc = walk_transitive g i cyc False"

definition would_create_parent_cycle :: "story_map \<Rightarrow> string \<Rightarrow> string \<Rightarrow> bool" where
  "would_create_parent_cycle stories parent_id child_id =
     would_create_cycle (children_by_parent (from_stories stories)) parent_id child_id"

definition descendant_ids :: "story_map \<Rightarrow> string \<Rightarrow> string list" where
  "descendant_ids stories i =
     (let g = from_stories stories in transitive_descendants g i (cycle_nodes (children_by_parent g)))"

definition bset_difference :: "'a list \<Rightarrow> 'a list \<Rightarrow> 'a list" where
  "bset_difference xs ys = filter (\<lambda>x. x \<notin> set ys) xs"

definition family_of :: "HierarchyGraph \<Rightarrow> string list \<Rightarrow> string \<Rightarrow> StoryRelation list" where
  "family_of g cyc i =
     (if i \<in> set cyc then []
      else map (StoryRelation ''ancestor-of'')
             (bset_difference (transitive_descendants g i cyc) (children_of g i))
           @ map (StoryRelation ''descendent-of'')
             (bset_difference (transitive_ancestors g i cyc) (parents_of g i)))"

definition derive_family_relationships :: "story_map \<Rightarrow> (string, StoryRelation list) btree_map" where
  "derive_family_relationships stories =
     (let g = from_stories stories; cyc = cycle_nodes (children_by_parent g) in
      btm_of_list (map (\<lambda>i. (i, family_of g cyc i)) (btm_keys stories)))"

section \<open>Integrity checks\<close>

definition dangling_finding :: "StorySnapshot \<Rightarrow> StoryRelation \<Rightarrow> Finding" where
  "dangling_finding story r =
     carrying (FD_Relation (relation r) (other_id r)) (repaired_on (snap_id story) (about (snap_id story)
       (finding_new DanglingRelation
         (''dangling relation `'' @ relation r @ ''` to missing story `'' @ other_id r @ ''`''))))"

definition inverse_finding :: "StorySnapshot \<Rightarrow> StoryRelation \<Rightarrow> string \<Rightarrow> Finding" where
  "inverse_finding story r expected =
     (let (code, message) =
        (if is_mutual_relation (relation r)
         then (MissingReciprocalRelation,
               ''missing reciprocal relation `'' @ relation r @ ''` on story `'' @ other_id r @ ''`'')
         else (MissingInverseRelation,
               ''missing inverse relation `'' @ expected @ ''` on story `'' @ other_id r @ ''`''))
      in carrying (FD_Relation (relation r) (other_id r)) (repaired_on (other_id r) (about (snap_id story)
           (finding_new code message))))"

text \<open>The finding one relation of an attested story gives, if any.\<close>

definition relation_finding :: "story_map \<Rightarrow> string list \<Rightarrow> StorySnapshot \<Rightarrow> StoryRelation \<Rightarrow> Finding option" where
  "relation_finding stories unattested story r =
     (if other_id r \<in> set unattested then None
      else (case btm_get stories (other_id r) of
          None \<Rightarrow> Some (dangling_finding story r)
        | Some other \<Rightarrow>
            (case inverse_relation (relation r) of
               None \<Rightarrow> None
             | Some expected \<Rightarrow>
                 if list_ex (\<lambda>c. other_id c = snap_id story \<and> relation c = expected) (snap_relationships other)
                 then None else Some (inverse_finding story r expected))))"

type_synonym issue_map = "(string, Finding list) btree_map"

definition push_issue :: "string \<Rightarrow> Finding \<Rightarrow> issue_map \<Rightarrow> issue_map" where
  "push_issue i f issues = btm_entry i [] (\<lambda>fs. fs @ [f]) issues"

definition story_issues :: "story_map \<Rightarrow> string list \<Rightarrow> StorySnapshot \<Rightarrow> issue_map \<Rightarrow> issue_map" where
  "story_issues stories unattested story issues =
     (if snap_id story \<in> set unattested then issues
      else fold (\<lambda>r issues. case relation_finding stories unattested story r of
               None \<Rightarrow> issues | Some f \<Rightarrow> push_issue (snap_id story) f issues)
             (snap_relationships story) issues)"

definition cycle_issue :: "string list \<Rightarrow> string \<Rightarrow> issue_map \<Rightarrow> issue_map" where
  "cycle_issue unattested node issues =
     (if node \<in> set unattested then issues
      else push_issue node (about node (finding_new ParentChildCycle ''parent/child cycle detected'')) issues)"

definition compute_integrity_issues :: "story_map \<Rightarrow> string list \<Rightarrow> issue_map" where
  "compute_integrity_issues stories unattested =
     fold (cycle_issue unattested) (cycle_nodes (children_by_parent (from_attested stories unattested)))
       (fold (story_issues stories unattested) (btm_values stories) [])"

section \<open>The graph holds exactly the claimed arcs\<close>

lemma fold_Un:
  assumes "\<And>x g. h (f x g) = h g \<union> A x"
  shows "h (fold f xs g) = h g \<union> (\<Union>x \<in> set xs. A x)"
  by (induction xs arbitrary: g) (auto simp: assms)

lemma arcs_link: "arcs (link a b m) = insert (a, b) (arcs m)"
  by (auto simp: arcs_def link_def neighbours_def split: option.splits if_splits)

lemma arcs_empty_sets: "arcs (empty_sets stories) = {}"
proof -
  have none: "map_of (map (\<lambda>i. (i, [] :: string list)) ids) i = (if i \<in> set ids then Some [] else None)"
    for ids :: "string list" and i
    by (induction ids) auto
  show ?thesis
    by (simp add: arcs_def neighbours_def empty_sets_def btm_get_of_list rev_map none)
qed

definition hierarchy_arcs :: "story_map \<Rightarrow> string list \<Rightarrow> (string \<times> string) set" where
  "hierarchy_arcs stories unattested =
     {(p, c). \<exists>story \<in> set (btm_values stories). snap_id story \<notin> set unattested
        \<and> (\<exists>r \<in> set (snap_relationships story). claimed_arc stories story r = Some (p, c))}"

definition story_arcs :: "story_map \<Rightarrow> StorySnapshot \<Rightarrow> (string \<times> string) set" where
  "story_arcs stories story =
     (\<Union>r \<in> set (snap_relationships story). set_option (claimed_arc stories story r))"

lemma add_claims_arcs:
  "arcs (children_by_parent (add_claims stories story g)) = arcs (children_by_parent g) \<union> story_arcs stories story"
  "arcs (parents_by_child (add_claims stories story g)) = arcs (parents_by_child g) \<union> (story_arcs stories story)\<inverse>"
proof -
  let ?f = "\<lambda>r g. case claimed_arc stories story r of None \<Rightarrow> g | Some (p, c) \<Rightarrow> add_arc p c g"
  have "arcs (children_by_parent (?f r g)) = arcs (children_by_parent g) \<union> set_option (claimed_arc stories story r)"
    for r g by (auto simp: add_arc_def arcs_link split: option.split)
  from fold_Un [where h = "\<lambda>g. arcs (children_by_parent g)" and f = ?f, OF this]
  show "arcs (children_by_parent (add_claims stories story g)) = arcs (children_by_parent g) \<union> story_arcs stories story"
    by (simp add: add_claims_def story_arcs_def)
  have "arcs (parents_by_child (?f r g)) = arcs (parents_by_child g) \<union> (set_option (claimed_arc stories story r))\<inverse>"
    for r g by (auto simp: add_arc_def arcs_link split: option.split)
  from fold_Un [where h = "\<lambda>g. arcs (parents_by_child g)" and f = ?f, OF this]
  show "arcs (parents_by_child (add_claims stories story g)) = arcs (parents_by_child g) \<union> (story_arcs stories story)\<inverse>"
    by (simp add: add_claims_def story_arcs_def converse_UNION)
qed

lemma from_attested_arcs:
  "arcs (children_by_parent (from_attested stories un)) = hierarchy_arcs stories un"
  "arcs (parents_by_child (from_attested stories un)) = (hierarchy_arcs stories un)\<inverse>"
proof -
  let ?f = "\<lambda>story g. if snap_id story \<in> set un then g else add_claims stories story g"
  let ?A = "\<lambda>story. if snap_id story \<in> set un then {} else story_arcs stories story"
  have union: "(\<Union>story \<in> set (btm_values stories). ?A story) = hierarchy_arcs stories un"
    by (fastforce simp: hierarchy_arcs_def story_arcs_def split: if_splits)
  have "arcs (children_by_parent (?f story g)) = arcs (children_by_parent g) \<union> ?A story" for story g
    by (simp add: add_claims_arcs)
  note down = fold_Un [where h = "\<lambda>g. arcs (children_by_parent g)" and f = ?f, OF this]
  show "arcs (children_by_parent (from_attested stories un)) = hierarchy_arcs stories un"
    unfolding from_attested_def down union by (simp add: arcs_empty_sets)
  have "arcs (parents_by_child (?f story g)) = arcs (parents_by_child g) \<union> (?A story)\<inverse>" for story g
    by (simp add: add_claims_arcs)
  note up = fold_Un [where h = "\<lambda>g. arcs (parents_by_child g)" and f = ?f, OF this]
  show "arcs (parents_by_child (from_attested stories un)) = (hierarchy_arcs stories un)\<inverse>"
    unfolding from_attested_def up converse_UNION [symmetric] union by (simp add: arcs_empty_sets)
qed

interpretation hierarchy_down:
  adjacency_index "[children_by_parent (from_attested stories un)]" "hierarchy_arcs stories un" for stories un
  by unfold_locales (simp add: from_attested_arcs(1) [symmetric] arcs_def)

interpretation hierarchy_up:
  adjacency_index "[parents_by_child (from_attested stories un)]" "(hierarchy_arcs stories un)\<inverse>" for stories un
  by unfold_locales (simp only: from_attested_arcs(2) [symmetric], simp add: arcs_def)

lemma cycle_guard:
  "acyclic (insert (p, c) (hierarchy_arcs stories [])) \<longleftrightarrow>
     acyclic (hierarchy_arcs stories []) \<and> \<not> would_create_parent_cycle stories p c"
  by (simp add: acyclic_insert would_create_parent_cycle_def would_create_cycle_iff from_stories_def
    from_attested_arcs(1))

text \<open>
  C21. The cycle guard is exact: adding an arc to the hierarchy leaves it acyclic if and only if it was
  acyclic and the guard let the arc through.
\<close>

theorem cycle_guard_exact:
  "acyclic (insert (p, c) (hierarchy_arcs stories [])) \<longleftrightarrow>
     acyclic (hierarchy_arcs stories []) \<and> \<not> would_create_parent_cycle stories p c"
  by (rule cycle_guard)

lemma acyclic_skips_nothing:
  assumes "acyclic (hierarchy_arcs stories [])"
  shows "cycle_nodes (children_by_parent (from_stories stories)) = []"
  using assms by (simp add: acyclic_no_cycle_nodes from_stories_def from_attested_arcs(1))

lemma walks_acyclic:
  "set (walk_transitive (from_stories stories) i [] True) = (hierarchy_arcs stories [])\<^sup>+ `` {i}"
  "set (walk_transitive (from_stories stories) i [] False) = ((hierarchy_arcs stories [])\<inverse>)\<^sup>+ `` {i}"
  using hierarchy_down.walk_from_successors [of stories "[]" i] hierarchy_up.walk_from_successors [of stories "[]" i]
  by (simp_all add: walk_transitive_def from_stories_def Let_def)

text \<open>
  The descendants of a story are exactly the stories below it: in an acyclic hierarchy the ids are
  listed in order, without repetition, and are the image of the story under the transitive closure of
  the claimed arcs.
\<close>

theorem descendant_ids_closure:
  assumes "acyclic (hierarchy_arcs stories [])"
  shows "bset_ok (descendant_ids stories i) \<and> set (descendant_ids stories i) = (hierarchy_arcs stories [])\<^sup>+ `` {i}"
proof -
  have "bset_ok (walk_transitive (from_stories stories) i [] True)"
    unfolding walk_transitive_def Let_def by (rule bset_ok_dfs_walk) (simp add: bset_ok_def)
  then show ?thesis
    by (simp add: descendant_ids_def acyclic_skips_nothing [OF assms] transitive_descendants_def walks_acyclic Let_def)
qed

lemma family_relation_mem:
  "StoryRelation ''ancestor-of'' j \<in> set (family_of g [] i) \<longleftrightarrow>
     j \<in> set (transitive_descendants g i []) \<and> j \<notin> set (children_of g i)"
  "StoryRelation ''descendent-of'' j \<in> set (family_of g [] i) \<longleftrightarrow>
     j \<in> set (transitive_ancestors g i []) \<and> j \<notin> set (parents_of g i)"
  by (auto simp: family_of_def bset_difference_def)

lemma derive_family_get:
  assumes "i \<in> set (btm_keys stories)"
  shows "btm_get (derive_family_relationships stories) i =
    Some (family_of (from_stories stories) (cycle_nodes (children_by_parent (from_stories stories))) i)"
proof -
  have "map_of (map (\<lambda>i. (i, f i)) ids) i = (if i \<in> set ids then Some (f i) else None)"
    for ids :: "string list" and f :: "string \<Rightarrow> StoryRelation list"
    by (induction ids) auto
  then show ?thesis using assms
    by (simp add: derive_family_relationships_def Let_def btm_get_of_list rev_map)
qed

lemma direct_relatives:
  "j \<in> set (children_of (from_stories stories) i) \<longleftrightarrow> (i, j) \<in> hierarchy_arcs stories []"
  "j \<in> set (parents_of (from_stories stories) i) \<longleftrightarrow> (j, i) \<in> hierarchy_arcs stories []"
  using hierarchy_down.adj_iff [of j stories "[]" i] hierarchy_up.adj_iff [of j stories "[]" i]
  by (simp_all add: children_of_def parents_of_def from_stories_def)

text \<open>
  Derived family relations are the transitive ones and come in pairs: in an acyclic hierarchy one
  story is listed as an ancestor of another exactly when a path of at least two arcs, and no single arc,
  leads down to it, and exactly then the other is listed as its descendant.
\<close>

theorem family_relations_paired:
  assumes "acyclic (hierarchy_arcs stories [])"
    and "i \<in> set (btm_keys stories)" and "j \<in> set (btm_keys stories)"
  shows "\<exists>fi fj. btm_get (derive_family_relationships stories) i = Some fi
    \<and> btm_get (derive_family_relationships stories) j = Some fj
    \<and> (StoryRelation ''ancestor-of'' j \<in> set fi \<longleftrightarrow>
         (i, j) \<in> (hierarchy_arcs stories [])\<^sup>+ - hierarchy_arcs stories [])
    \<and> (StoryRelation ''descendent-of'' i \<in> set fj \<longleftrightarrow> StoryRelation ''ancestor-of'' j \<in> set fi)"
  unfolding derive_family_get [OF assms(2)] derive_family_get [OF assms(3)] acyclic_skips_nothing [OF assms(1)]
  by (simp add: family_relation_mem transitive_descendants_def transitive_ancestors_def walks_acyclic
    direct_relatives trancl_converse)

section \<open>What a clean report means\<close>

lemma push_issue_keys: "set (btm_keys (push_issue i f issues)) = insert i (set (btm_keys issues))"
  by (simp add: push_issue_def btm_entry_def)

lemma story_issues_keys:
  "set (btm_keys (story_issues stories un story issues)) = set (btm_keys issues) \<union>
     (if snap_id story \<notin> set un \<and>
         (\<exists>r \<in> set (snap_relationships story). relation_finding stories un story r \<noteq> None)
      then {snap_id story} else {})"
proof -
  let ?f = "\<lambda>r issues. case relation_finding stories un story r of
      None \<Rightarrow> issues | Some f \<Rightarrow> push_issue (snap_id story) f issues"
  have "set (btm_keys (?f r issues)) = set (btm_keys issues) \<union>
      (if relation_finding stories un story r \<noteq> None then {snap_id story} else {})" for r issues
    by (auto simp: push_issue_keys split: option.split)
  note fold_Un [where h = "\<lambda>issues. set (btm_keys issues)" and f = ?f, OF this]
  then show ?thesis by (auto simp: story_issues_def)
qed

lemma integrity_keys:
  "set (btm_keys (compute_integrity_issues stories un)) =
     {snap_id story |story. story \<in> set (btm_values stories) \<and> snap_id story \<notin> set un
        \<and> (\<exists>r \<in> set (snap_relationships story). relation_finding stories un story r \<noteq> None)}
     \<union> (set (cycle_nodes (children_by_parent (from_attested stories un))) - set un)"
proof -
  have "set (btm_keys (cycle_issue un node issues)) = set (btm_keys issues) \<union> ({node} - set un)" for node issues
    by (auto simp: cycle_issue_def push_issue_keys)
  note cycles = fold_Un [where h = "\<lambda>issues. set (btm_keys issues)" and f = "cycle_issue un", OF this]
  note relations = fold_Un [where h = "\<lambda>issues. set (btm_keys issues)" and f = "story_issues stories un",
    OF story_issues_keys]
  show ?thesis
    unfolding compute_integrity_issues_def cycles relations by (auto simp: btm_keys_def split: if_splits)
qed

text \<open>
  No finding is keyed on a story the events do not vouch for, whatever the stories claim.
\<close>

theorem unattested_never_a_subject:
  "set (btm_keys (compute_integrity_issues stories unattested)) \<inter> set unattested = {}"
  by (auto simp: integrity_keys)

definition relations_consistent :: "story_map \<Rightarrow> bool" where
  "relations_consistent stories \<longleftrightarrow>
     (\<forall>story \<in> set (btm_values stories). \<forall>r \<in> set (snap_relationships story).
        (case btm_get stories (other_id r) of
           None \<Rightarrow> False
         | Some other \<Rightarrow>
             (case inverse_relation (relation r) of
                None \<Rightarrow> True
              | Some expected \<Rightarrow> StoryRelation expected (snap_id story) \<in> set (snap_relationships other))))"

lemma relation_has_inverse:
  "list_ex (\<lambda>c. other_id c = i \<and> relation c = e) rs \<longleftrightarrow> StoryRelation e i \<in> set rs"
proof -
  have "other_id c = i \<and> relation c = e \<longleftrightarrow> c = StoryRelation e i" for c by (cases c) auto
  then show ?thesis by (auto simp: list_ex_iff)
qed

lemma relations_consistent_iff:
  "relations_consistent stories \<longleftrightarrow>
     (\<forall>story \<in> set (btm_values stories). \<forall>r \<in> set (snap_relationships story).
        relation_finding stories [] story r = None)"
  unfolding relations_consistent_def relation_finding_def relation_has_inverse
  by (intro ball_cong refl) (simp split: option.split)

lemma clean_report:
  "compute_integrity_issues stories [] = [] \<longleftrightarrow>
     relations_consistent stories \<and> acyclic (hierarchy_arcs stories [])"
proof -
  have "compute_integrity_issues stories [] = [] \<longleftrightarrow> set (btm_keys (compute_integrity_issues stories [])) = {}"
    by (simp add: btm_keys_def)
  also have "\<dots> \<longleftrightarrow> relations_consistent stories \<and> cycle_nodes (children_by_parent (from_attested stories [])) = []"
    unfolding integrity_keys relations_consistent_iff by auto
  finally show ?thesis by (simp add: acyclic_no_cycle_nodes from_attested_arcs(1))
qed

text \<open>
  C22. A report without findings means a consistent project: every relation names a story that exists
  and that carries the inverse relation back, and the parent/child hierarchy has no cycle.  The
  converse holds as well.
\<close>

theorem clean_report_iff_consistent:
  "compute_integrity_issues stories [] = [] \<longleftrightarrow>
     relations_consistent stories \<and> acyclic (hierarchy_arcs stories [])"
  by (rule clean_report)

text \<open>
  Relation names form a closed table: what the input names expand to is an edge and its inverse,
  taking the inverse twice gives the relation back, and the mutual relations are those that are their
  own inverse.
\<close>

theorem relation_table_closed:
  "(case relation_edges input of
      None \<Rightarrow> \<not> is_relation_input input \<and> inverse_relation input = None
    | Some edges \<Rightarrow> \<exists>rel back. edges = [(rel, back)] \<and> inverse_relation rel = Some back
        \<and> inverse_relation back = Some rel \<and> (is_mutual_relation rel \<longleftrightarrow> rel = back))"
  by (simp add: relation_edges_def is_relation_input_def inverse_relation_def is_mutual_relation_def)

section \<open>A small project, evaluated\<close>

text \<open>A story with the given relations and otherwise what a new story has.\<close>

definition bare_story :: "string \<Rightarrow> StoryRelation list \<Rightarrow> StorySnapshot" where
  "bare_story i rels =
     \<lparr>snap_id = i, snap_title = i, snap_created_at = ''t'', snap_updated_at = ''t'', snap_state = ''todo'',
      snap_superstate = Open, snap_state_computed = False, snap_awaiting = None, snap_comments = [],
      snap_referenced_by_commits = [], snap_relationships = rels, snap_priority = NoPriority,
      snap_priority_assessed = False, snap_complexity = complexity_default, snap_complexity_assessed = False,
      snap_labels = [], snap_story_type = None, snap_description = None, snap_closed_at = None,
      snap_hidden_at = None, snap_draft = False, snap_attachments = [],
      snap_next_attachment_id = default_next_attachment_id\<rparr>"

definition keyed_stories :: "StorySnapshot list \<Rightarrow> story_map" where
  "keyed_stories stories = btm_of_list (map (\<lambda>s. (snap_id s, s)) stories)"

definition sample_family :: story_map where
  "sample_family = keyed_stories
     [bare_story ''SH-1'' [StoryRelation ''parent-of'' ''SH-2''],
      bare_story ''SH-2'' [StoryRelation ''child-of'' ''SH-1'', StoryRelation ''parent-of'' ''SH-3''],
      bare_story ''SH-3'' [StoryRelation ''child-of'' ''SH-2'']]"

lemma sample_family_acyclic: "acyclic (hierarchy_arcs sample_family [])"
proof -
  have "cycle_nodes (children_by_parent (from_attested sample_family [])) = []" by code_simp
  then show ?thesis by (simp add: acyclic_no_cycle_nodes from_attested_arcs(1))
qed

theorem descendant_ids_closure_witness:
  "descendant_ids sample_family ''SH-1'' = [''SH-2'', ''SH-3'']
    \<and> {''SH-2'', ''SH-3''} = (hierarchy_arcs sample_family [])\<^sup>+ `` {''SH-1''}"
proof -
  have "descendant_ids sample_family ''SH-1'' = [''SH-2'', ''SH-3'']" by code_simp
  then show ?thesis using descendant_ids_closure [OF sample_family_acyclic, of "''SH-1''"] by simp
qed

lemma sample_family_ids: "''SH-1'' \<in> set (btm_keys sample_family)" "''SH-3'' \<in> set (btm_keys sample_family)"
  by code_simp+

theorem family_relations_paired_witness:
  "\<exists>fi fj. btm_get (derive_family_relationships sample_family) ''SH-1'' = Some fi
    \<and> btm_get (derive_family_relationships sample_family) ''SH-3'' = Some fj
    \<and> (StoryRelation ''descendent-of'' ''SH-1'' \<in> set fj \<longleftrightarrow> StoryRelation ''ancestor-of'' ''SH-3'' \<in> set fi)"
  using family_relations_paired [OF sample_family_acyclic sample_family_ids] by blast

end
