(* ===== verification/Story_Readiness.thy ===== *)
theory Story_Readiness
  imports State_Catalog Story_Hierarchy
begin

text \<open>
  Whether a story can be worked on (\<^verbatim>\<open>src/src/domain.rs\<close>, lines 2484 to 2580, 2870 to 3200): epics,
  children and progress, blockage, readiness, reserved labels, claimability, and the walk that decides
  whether clearing a blockage needs a person.  The walk is the recursion of the source with its memo
  and its set of nodes in progress.  It computes a greatest fixed point: a story is stuck if it carries
  a signal only a person clears, or waits on a stuck story, endlessly if need be.
\<close>

section \<open>Epics, children and progress\<close>

definition EPIC_TYPE_SLUG :: string where
  "EPIC_TYPE_SLUG = ''epic''"

definition is_epic :: "StorySnapshot \<Rightarrow> bool" where
  "is_epic story \<longleftrightarrow> snap_story_type story = Some EPIC_TYPE_SLUG"

definition has_children :: "StorySnapshot \<Rightarrow> bool" where
  "has_children story \<longleftrightarrow> list_ex (\<lambda>r. relation r = ''parent-of'') (snap_relationships story)"

definition live_children :: "StorySnapshot \<Rightarrow> story_map \<Rightarrow> StorySnapshot list" where
  "live_children story all_stories =
     List.map_filter (\<lambda>r. btm_get all_stories (other_id r))
       (filter (\<lambda>r. relation r = ''parent-of'') (snap_relationships story))"

definition compute_progress :: "StorySnapshot \<Rightarrow> story_map \<Rightarrow> ProgressRollup option" where
  "compute_progress story all_stories =
     (let children = live_children story all_stories in
      if children = [] then None
      else Some \<lparr>children_done = length (filter (\<lambda>c. snap_superstate c = Closed) children),
                 children_total = length children\<rparr>)"

section \<open>Readiness\<close>

text \<open>
  Both implementations of \<open>StoryIndex\<close> are ordered maps from ids to stories; a borrowed story is the
  story.
\<close>

definition index_story :: "story_map \<Rightarrow> string \<Rightarrow> StorySnapshot option" where
  "index_story all_stories i = btm_get all_stories i"

definition is_blocked :: "StorySnapshot \<Rightarrow> story_map \<Rightarrow> bool" where
  "is_blocked story all_stories \<longleftrightarrow>
     snap_superstate story = Open
     \<and> (snap_state story = ''blocked''
        \<or> snap_awaiting story \<noteq> None
        \<or> list_ex (\<lambda>r. relation r = ''blocked-by''
             \<and> (case index_story all_stories (other_id r) of
                  None \<Rightarrow> False | Some other \<Rightarrow> snap_superstate other = Open)) (snap_relationships story))"

definition is_ready :: "StorySnapshot \<Rightarrow> story_map \<Rightarrow> bool" where
  "is_ready story all_stories \<longleftrightarrow>
     snap_superstate story = Open
     \<and> \<not> snap_draft story
     \<and> \<not> is_blocked story all_stories
     \<and> \<not> list_ex (\<lambda>r. relation r = ''obviated-by'') (snap_relationships story)"

definition LABEL_NO_AUTO :: string where
  "LABEL_NO_AUTO = ''no-auto''"

definition LABEL_HUMAN_ONLY :: string where
  "LABEL_HUMAN_ONLY = ''human-only''"

definition RESERVED_LABELS :: "string list" where
  "RESERVED_LABELS = [LABEL_NO_AUTO, LABEL_HUMAN_ONLY]"

definition is_human_only :: "StorySnapshot \<Rightarrow> bool" where
  "is_human_only story \<longleftrightarrow> list_ex (\<lambda>l. l = LABEL_HUMAN_ONLY) (snap_labels story)"

definition reserved_label :: "StorySnapshot \<Rightarrow> string option" where
  "reserved_label story =
     (if is_human_only story then Some LABEL_HUMAN_ONLY
      else find (\<lambda>reserved. list_ex (\<lambda>l. l = reserved) (snap_labels story)) RESERVED_LABELS)"

definition is_reserved :: "StorySnapshot \<Rightarrow> bool" where
  "is_reserved story \<longleftrightarrow> reserved_label story \<noteq> None"

definition is_reserved_label :: "string \<Rightarrow> bool" where
  "is_reserved_label label \<longleftrightarrow> label \<in> set RESERVED_LABELS"

definition is_claimable :: "StorySnapshot \<Rightarrow> story_map \<Rightarrow> StateDef option \<Rightarrow> bool" where
  "is_claimable story all_stories active \<longleftrightarrow>
     (if is_epic story \<or> snap_state story = VERIFYING_STATE_SLUG \<or> \<not> is_ready story all_stories then False
      else (case active of None \<Rightarrow> True | Some state \<Rightarrow> snap_state story \<noteq> sd_slug state))"

section \<open>The intervention walk\<close>

definition DISPLAY_PROMOTION_STATE :: string where
  "DISPLAY_PROMOTION_STATE = ''blocked''"

record BlockFacts =
  bf_id :: string
  bf_state :: string
  bf_superstate :: SuperState
  bf_draft :: bool
  bf_awaiting :: bool
  bf_obviated :: bool
  bf_blockers :: "string list"

definition with_effective :: "StorySnapshot \<Rightarrow> string \<Rightarrow> SuperState \<Rightarrow> BlockFacts" where
  "with_effective story state superstate =
     \<lparr>bf_id = snap_id story, bf_state = state, bf_superstate = superstate, bf_draft = snap_draft story,
      bf_awaiting = (snap_awaiting story \<noteq> None),
      bf_obviated = list_ex (\<lambda>r. relation r = ''obviated-by'') (snap_relationships story),
      bf_blockers = map other_id (filter (\<lambda>r. relation r = ''blocked-by'') (snap_relationships story))\<rparr>"

definition block_facts_of :: "StorySnapshot \<Rightarrow> BlockFacts" where
  "block_facts_of story = with_effective story (snap_state story) (snap_superstate story)"

definition intervention_signal :: "BlockFacts \<Rightarrow> bool" where
  "intervention_signal facts \<longleftrightarrow>
     bf_state facts = DISPLAY_PROMOTION_STATE \<or> bf_awaiting facts \<or> bf_obviated facts \<or> bf_draft facts"

text \<open>The memo and the set of nodes in progress, which the recursion threads.\<close>

record WalkState =
  ws_visiting :: "string list"
  ws_memo :: "(string, bool) btree_map"

definition walk_enter :: "string \<Rightarrow> WalkState \<Rightarrow> WalkState" where
  "walk_enter i w = w\<lparr>ws_visiting := bset_insert i (ws_visiting w)\<rparr>"

definition walk_note :: "string \<Rightarrow> bool \<Rightarrow> WalkState \<Rightarrow> WalkState" where
  "walk_note i answer w = w\<lparr>ws_memo := btm_insert i answer (ws_memo w)\<rparr>"

definition walk_leave :: "string \<Rightarrow> WalkState \<Rightarrow> WalkState" where
  "walk_leave i w = w\<lparr>ws_visiting := bset_remove i (ws_visiting w)\<rparr>"

text \<open>
  \<open>walk_any\<close> is the short-circuiting \<open>any\<close> over the blockers; a blocker the index does not carry
  is passed over.
\<close>

function walk_needs_intervention :: "story_map \<Rightarrow> BlockFacts \<Rightarrow> WalkState \<Rightarrow> bool \<times> WalkState"
  and walk_any :: "story_map \<Rightarrow> string list \<Rightarrow> WalkState \<Rightarrow> bool \<times> WalkState" where
  "walk_needs_intervention all_stories facts w =
     (case btm_get (ws_memo w) (bf_id facts) of
        Some cached \<Rightarrow> (cached, w)
      | None \<Rightarrow>
          if bf_superstate facts \<noteq> Open then (False, w)
          else if intervention_signal facts then (True, walk_note (bf_id facts) True w)
          else if bf_id facts \<in> set (ws_visiting w) then (True, w)
          else (let (answer, w') = walk_any all_stories (bf_blockers facts) (walk_enter (bf_id facts) w)
                in (answer, walk_note (bf_id facts) answer (walk_leave (bf_id facts) w'))))"
| "walk_any all_stories [] w = (False, w)"
| "walk_any all_stories (i # rest) w =
     (case index_story all_stories i of
        None \<Rightarrow> walk_any all_stories rest w
      | Some blocker \<Rightarrow>
          (case walk_needs_intervention all_stories (block_facts_of blocker) w of
             (True, w') \<Rightarrow> (True, w')
           | (False, w') \<Rightarrow> walk_any all_stories rest w'))"
  by pat_completeness auto

lemma walk_state_simps [simp]:
  "ws_visiting (walk_note i a w) = ws_visiting w"
  "ws_visiting (walk_enter i w) = bset_insert i (ws_visiting w)"
  "ws_visiting (walk_leave i w) = bset_remove i (ws_visiting w)"
  "ws_memo (walk_note i a w) = btm_insert i a (ws_memo w)"
  "ws_memo (walk_enter i w) = ws_memo w" "ws_memo (walk_leave i w) = ws_memo w"
  by (simp_all add: walk_note_def walk_enter_def walk_leave_def)

lemma bset_remove_insert [simp]: "x \<notin> set xs \<Longrightarrow> bset_remove x (bset_insert x xs) = xs"
  by (simp add: bset_remove_def bset_insert_def insort_insert_key_def)

text \<open>Every call leaves the nodes in progress as it found them.\<close>

lemma walk_restores_dom:
  "walk_needs_intervention_walk_any_dom (Inl (m, facts, w)) \<Longrightarrow>
     ws_visiting (snd (walk_needs_intervention m facts w)) = ws_visiting w"
  "walk_needs_intervention_walk_any_dom (Inr (m, ids, w)) \<Longrightarrow>
     ws_visiting (snd (walk_any m ids w)) = ws_visiting w"
proof (induction m facts w and m ids w rule: walk_needs_intervention_walk_any.pinduct)
  case (1 m facts w)
  then show ?case
    by (auto simp: walk_needs_intervention.psimps split: option.splits prod.splits)
next
  case (2 m w)
  then show ?case by (simp add: walk_any.psimps)
next
  case (3 m i rest w)
  then show ?case
    by (auto simp: walk_any.psimps split: option.splits prod.splits bool.splits)
qed

definition index_ids :: "story_map \<Rightarrow> string set" where
  "index_ids m = snap_id ` set (btm_values m)"

lemma index_story_id: "index_story m i = Some s \<Longrightarrow> snap_id s \<in> index_ids m"
  using btm_get_value [of m i s] by (simp add: index_story_def index_ids_def)

lemma bf_id_of [simp]: "bf_id (block_facts_of s) = snap_id s"
  by (simp add: block_facts_of_def with_effective_def)

termination walk_needs_intervention
proof (relation "inv_image (finite_psubset <*lex*> less_than)
    (\<lambda>x. case x of Inl (m, facts, w) \<Rightarrow> (insert (bf_id facts) (index_ids m) - set (ws_visiting w), 0)
                 | Inr (m, ids, w) \<Rightarrow> (index_ids m - set (ws_visiting w), Suc (length ids)))", goal_cases)
  case 1
  show ?case by auto
next
  case (2 m facts w)
  then show ?case by (auto simp: finite_psubset_def index_ids_def)
next
  case (3 m i rest w)
  then show ?case by simp
next
  case (4 m i rest w blocker)
  then show ?case using index_story_id [of m i blocker] by (auto simp: insert_absorb)
next
  case (5 m i rest w blocker x w')
  then have "ws_visiting w' = ws_visiting w"
    using walk_restores_dom(1) [of m "block_facts_of blocker" w] by (metis snd_conv)
  then show ?case by simp
qed

definition needs_intervention :: "StorySnapshot \<Rightarrow> story_map \<Rightarrow> bool" where
  "needs_intervention story all_stories =
     fst (walk_needs_intervention all_stories (block_facts_of story) \<lparr>ws_visiting = [], ws_memo = []\<rparr>)"

definition compute_display_state :: "StorySnapshot \<Rightarrow> story_map \<Rightarrow> StateDef list \<Rightarrow> string option" where
  "compute_display_state story all_stories states =
     (if snap_draft story then None
      else (case default_open_state states of
          None \<Rightarrow> None
        | Some default_open \<Rightarrow>
            if snap_state story \<noteq> sd_slug default_open then None
            else if needs_intervention story all_stories then Some DISPLAY_PROMOTION_STATE
            else None))"

declare walk_needs_intervention.simps [simp del]

lemma walk_restores:
  "ws_visiting (snd (walk_needs_intervention m facts w)) = ws_visiting w"
  "ws_visiting (snd (walk_any m ids w)) = ws_visiting w"
proof (induction m facts w and m ids w rule: walk_needs_intervention_walk_any.induct)
  case (1 m facts w)
  then show ?case
    by (auto simp: walk_needs_intervention.simps [of m facts] split: option.splits prod.splits)
qed (auto split: option.splits prod.splits bool.splits)

section \<open>What the walk decides\<close>

definition keyed_index :: "story_map \<Rightarrow> bool" where
  "keyed_index m \<longleftrightarrow> btm_ok m \<and> list_all (\<lambda>(k, s). snap_id s = k) m"

lemma keyed_index_id: "keyed_index m \<Longrightarrow> index_story m i = Some s \<Longrightarrow> snap_id s = i"
  using btm_get_mem [of m i s] by (auto simp: keyed_index_def index_story_def list_all_iff)

text \<open>A story only a person can move on: by a signal of its own, or by waiting on a stuck story.\<close>

coinductive stuck :: "story_map \<Rightarrow> string \<Rightarrow> bool" for m where
  "index_story m i = Some s \<Longrightarrow> snap_superstate s = Open \<Longrightarrow>
     intervention_signal (block_facts_of s) \<or> (\<exists>b \<in> set (bf_blockers (block_facts_of s)). stuck m b) \<Longrightarrow>
     stuck m i"

definition waits :: "story_map \<Rightarrow> (string \<times> string) set" where
  "waits m = {(i, b). \<exists>s. index_story m i = Some s \<and> snap_superstate s = Open
     \<and> b \<in> set (bf_blockers (block_facts_of s))}"

lemma stuck_iff:
  "index_story m i = Some s \<Longrightarrow> stuck m i \<longleftrightarrow> snap_superstate s = Open
     \<and> (intervention_signal (block_facts_of s) \<or> (\<exists>b \<in> set (bf_blockers (block_facts_of s)). stuck m b))"
  by (auto elim: stuck.cases intro: stuck.intros)

lemma stuck_absent: "index_story m i = None \<Longrightarrow> \<not> stuck m i"
  by (auto elim: stuck.cases)

lemma cycle_stuck:
  assumes "(i, i) \<in> (waits m)\<^sup>+"
  shows "stuck m i"
proof -
  have next_wait: "\<exists>k. (j, k) \<in> waits m \<and> (k, i) \<in> (waits m)\<^sup>*" if "(j, i) \<in> (waits m)\<^sup>*" for j
    using that assms by (cases rule: converse_rtranclE) (auto dest: tranclD)
  show ?thesis
  proof (rule stuck.coinduct [where X = "\<lambda>j. (j, i) \<in> (waits m)\<^sup>*"])
    fix j
    assume "(j, i) \<in> (waits m)\<^sup>*"
    then obtain k where "(j, k) \<in> waits m" and k: "(k, i) \<in> (waits m)\<^sup>*" using next_wait by blast
    then obtain s where "index_story m j = Some s" "snap_superstate s = Open"
      "k \<in> set (bf_blockers (block_facts_of s))" unfolding waits_def by blast
    then show "\<exists>i' s. j = i' \<and> index_story m i' = Some s \<and> snap_superstate s = Open
        \<and> (intervention_signal (block_facts_of s)
           \<or> (\<exists>b \<in> set (bf_blockers (block_facts_of s)). (b, i) \<in> (waits m)\<^sup>* \<or> stuck m b))"
      using k by blast
  qed simp
qed

text \<open>What the memo may hold while no call has answered yes: only refusals, and only true ones.\<close>

definition memo_sound :: "story_map \<Rightarrow> WalkState \<Rightarrow> bool" where
  "memo_sound m w \<longleftrightarrow> (\<forall>i a. btm_get (ws_memo w) i = Some a \<longrightarrow> \<not> a \<and> \<not> stuck m i)"

definition leads_into :: "story_map \<Rightarrow> string \<Rightarrow> string list \<Rightarrow> bool" where
  "leads_into m i nodes \<longleftrightarrow> stuck m i \<or> (\<exists>v \<in> set nodes. (i, v) \<in> (waits m)\<^sup>*)"

lemma leads_into_parent:
  assumes "(i, b) \<in> waits m" and "leads_into m b (bset_insert i nodes)"
  shows "leads_into m i nodes"
proof -
  from assms(2) consider "stuck m b" | "(b, i) \<in> (waits m)\<^sup>*" | v where "v \<in> set nodes" "(b, v) \<in> (waits m)\<^sup>*"
    by (auto simp: leads_into_def)
  then show ?thesis
  proof cases
    case 1
    then have "stuck m i" using assms(1) by (auto simp: waits_def intro: stuck.intros)
    then show ?thesis by (simp add: leads_into_def)
  next
    case 2
    with assms(1) have "(i, i) \<in> (waits m)\<^sup>+" by (rule rtrancl_into_trancl2)
    then show ?thesis by (simp add: leads_into_def cycle_stuck)
  next
    case 3
    then show ?thesis using assms(1) unfolding leads_into_def
      by (blast intro: converse_rtrancl_into_rtrancl)
  qed
qed

lemma memo_sound_note: "memo_sound m w \<Longrightarrow> \<not> stuck m i \<Longrightarrow> memo_sound m (walk_note i False w)"
  by (auto simp: memo_sound_def)

lemma memo_sound_frame [simp]:
  "memo_sound m (walk_enter i w) = memo_sound m w" "memo_sound m (walk_leave i w) = memo_sound m w"
  by (simp_all add: memo_sound_def)

definition walk_post :: "story_map \<Rightarrow> string list \<Rightarrow> string list \<Rightarrow> bool \<times> WalkState \<Rightarrow> bool" where
  "walk_post m ids nodes r \<longleftrightarrow>
     (if fst r then \<exists>i \<in> set ids. leads_into m i nodes
      else (\<forall>i \<in> set ids. \<not> stuck m i) \<and> memo_sound m (snd r))"

lemma block_facts_superstate [simp]: "bf_superstate (block_facts_of s) = snap_superstate s"
  by (simp add: block_facts_of_def with_effective_def)

lemma walk_decides:
  "keyed_index m \<Longrightarrow> facts = block_facts_of s \<Longrightarrow> index_story m i = Some s \<Longrightarrow> memo_sound m w \<Longrightarrow>
     walk_post m [i] (ws_visiting w) (walk_needs_intervention m facts w)"
  "keyed_index m \<Longrightarrow> memo_sound m w \<Longrightarrow> walk_post m ids (ws_visiting w) (walk_any m ids w)"
proof (induction m facts w and m ids w arbitrary: i s rule: walk_needs_intervention_walk_any.induct)
  case (1 m facts w)
  have facts: "facts = block_facts_of s" and s: "index_story m i = Some s" by fact+
  have bid: "bf_id facts = i" using "1.prems"(1) keyed_index_id [OF _ s] facts by simp
  show ?case
  proof (cases "btm_get (ws_memo w) i")
    case (Some a)
    then have "\<not> a" "\<not> stuck m i" using "1.prems"(4) by (auto simp: memo_sound_def)
    then show ?thesis using "1.prems"(4) bid Some
      by (simp add: walk_needs_intervention.simps [of m facts] walk_post_def)
  next
    case None
    consider (closed) "snap_superstate s \<noteq> Open" | (signal) "snap_superstate s = Open" "intervention_signal facts"
      | (seen) "snap_superstate s = Open" "\<not> intervention_signal facts" "i \<in> set (ws_visiting w)"
      | (deep) "snap_superstate s = Open" "\<not> intervention_signal facts" "i \<notin> set (ws_visiting w)" by blast
    then show ?thesis
    proof cases
      case deep
      obtain answer w' where any: "walk_any m (bf_blockers facts) (walk_enter i w) = (answer, w')" by fastforce
      have "walk_post m (bf_blockers facts) (bset_insert i (ws_visiting w)) (answer, w')"
        using "1.IH" None bid deep facts any "1.prems"(1,4) by auto
      moreover have "leads_into m i nodes"
        if "b \<in> set (bf_blockers facts)" "leads_into m b (bset_insert i nodes)" for b nodes
        using that s deep(1) facts by (intro leads_into_parent [of i b]) (auto simp: waits_def)
      ultimately have "walk_post m [i] (ws_visiting w) (answer, walk_note i answer (walk_leave i w'))"
        using stuck_iff [OF s] deep(2) facts
        by (cases answer) (auto simp: walk_post_def memo_sound_note)
      then show ?thesis
        using any None bid deep facts by (simp add: walk_needs_intervention.simps [of m "block_facts_of s"])
    qed (use None bid facts stuck_iff [OF s] "1.prems"(4) in
      \<open>auto simp: walk_needs_intervention.simps [of m "block_facts_of s"] walk_post_def leads_into_def\<close>)
  qed
next
  case (3 m b rest w)
  show ?case
  proof (cases "index_story m b")
    case None
    then show ?thesis using 3 stuck_absent [OF None] by (auto simp: walk_post_def split: if_splits)
  next
    case (Some s)
    obtain a w' where walk: "walk_needs_intervention m (block_facts_of s) w = (a, w')" by fastforce
    have "ws_visiting w' = ws_visiting w" using walk_restores(1) [of m "block_facts_of s" w] walk by simp
    moreover have "walk_post m [b] (ws_visiting w) (a, w')"
      using "3.IH"(2) [OF Some "3.prems"(1) refl Some "3.prems"(2)] walk by simp
    ultimately show ?thesis using "3.IH"(3) [OF Some] "3.prems"(1) Some walk
      by (cases a) (auto simp: walk_post_def split: if_splits)
  qed
qed (simp add: walk_post_def)

lemma needs_intervention_stuck:
  assumes "keyed_index m" and "index_story m i = Some s"
  shows "needs_intervention s m \<longleftrightarrow> stuck m i"
proof -
  have "memo_sound m \<lparr>ws_visiting = [], ws_memo = []\<rparr>" by (simp add: memo_sound_def)
  from walk_decides(1) [OF assms(1) refl assms(2) this] show ?thesis
    by (auto simp: needs_intervention_def walk_post_def leads_into_def split: if_splits)
qed

text \<open>
  C18. The intervention walk computes its definition: whatever the order of the edges and whatever the
  memo holds on the way, it answers yes exactly for the open stories that carry a signal only a person
  clears (blocked, awaiting, obviated, draft) or wait on such a story through open stories, or wait on
  each other in a cycle: the greatest set of open stories closed under those rules.
\<close>

theorem needs_intervention_greatest:
  assumes "keyed_index stories" and "index_story stories (snap_id story) = Some story"
  shows "needs_intervention story stories \<longleftrightarrow>
    (\<exists>S. snap_id story \<in> S \<and> (\<forall>i \<in> S. \<exists>s. index_story stories i = Some s \<and> snap_superstate s = Open
       \<and> (intervention_signal (block_facts_of s) \<or> set (bf_blockers (block_facts_of s)) \<inter> S \<noteq> {})))"
  (is "?L \<longleftrightarrow> (\<exists>S. ?closed S)")
proof -
  have "stuck stories (snap_id story) \<longleftrightarrow> (\<exists>S. ?closed S)"
  proof
    assume "stuck stories (snap_id story)"
    moreover have "\<forall>i \<in> Collect (stuck stories). \<exists>s. index_story stories i = Some s \<and> snap_superstate s = Open
       \<and> (intervention_signal (block_facts_of s) \<or> set (bf_blockers (block_facts_of s)) \<inter> Collect (stuck stories) \<noteq> {})"
    proof
      fix i
      assume "i \<in> Collect (stuck stories)"
      then have "stuck stories i" by simp
      then show "\<exists>s. index_story stories i = Some s \<and> snap_superstate s = Open \<and> (intervention_signal (block_facts_of s)
          \<or> set (bf_blockers (block_facts_of s)) \<inter> Collect (stuck stories) \<noteq> {})"
        by (cases rule: stuck.cases) blast
    qed
    ultimately show "\<exists>S. ?closed S" by blast
  next
    assume "\<exists>S. ?closed S"
    then obtain S where S: "?closed S" by blast
    show "stuck stories (snap_id story)"
    proof (rule stuck.coinduct [where X = "\<lambda>i. i \<in> S"])
      fix i
      assume "i \<in> S"
      then show "\<exists>j s. i = j \<and> index_story stories j = Some s \<and> snap_superstate s = Open
          \<and> (intervention_signal (block_facts_of s)
             \<or> (\<exists>b \<in> set (bf_blockers (block_facts_of s)). b \<in> S \<or> stuck stories b))"
        using S by blast
    qed (use S in simp)
  qed
  then show ?thesis using needs_intervention_stuck [OF assms] by simp
qed

lemma stuck_open: "stuck m i \<Longrightarrow> \<exists>s. index_story m i = Some s \<and> snap_superstate s = Open"
  by (cases "index_story m i") (auto simp: stuck_absent stuck_iff)

lemma ready_iff_unblocked:
  "is_ready s m \<longleftrightarrow> snap_superstate s = Open \<and> \<not> intervention_signal (block_facts_of s)
     \<and> \<not> (\<exists>b \<in> set (bf_blockers (block_facts_of s)). \<exists>other. index_story m b = Some other \<and> snap_superstate other = Open)"
  by (auto simp: is_ready_def is_blocked_def intervention_signal_def block_facts_of_def with_effective_def
    DISPLAY_PROMOTION_STATE_def list_ex_iff split: option.splits)

lemma no_ready_then_stuck:
  assumes "index_story m i = Some s" and "snap_superstate s = Open"
    and none: "\<And>j s. (i, j) \<in> (waits m)\<^sup>* \<Longrightarrow> index_story m j = Some s \<Longrightarrow> \<not> is_ready s m"
  shows "stuck m i"
proof (rule stuck.coinduct [where X = "\<lambda>j. (i, j) \<in> (waits m)\<^sup>* \<and> (\<exists>s. index_story m j = Some s \<and> snap_superstate s = Open)"])
  fix j
  assume j: "(i, j) \<in> (waits m)\<^sup>* \<and> (\<exists>s. index_story m j = Some s \<and> snap_superstate s = Open)"
  then obtain s where s: "index_story m j = Some s" "snap_superstate s = Open" by blast
  then have "\<not> is_ready s m" using none j by blast
  moreover have "(i, b) \<in> (waits m)\<^sup>*" if "b \<in> set (bf_blockers (block_facts_of s))" for b
    using j s that by (auto simp: waits_def intro: rtrancl_into_rtrancl)
  ultimately show "\<exists>i' s. j = i' \<and> index_story m i' = Some s \<and> snap_superstate s = Open
      \<and> (intervention_signal (block_facts_of s) \<or> (\<exists>b \<in> set (bf_blockers (block_facts_of s)).
          ((i, b) \<in> (waits m)\<^sup>* \<and> (\<exists>s. index_story m b = Some s \<and> snap_superstate s = Open)) \<or> stuck m b))"
    using s unfolding ready_iff_unblocked by blast
qed (use assms(1,2) in simp)

text \<open>
  C19. Needing a person is strictly narrower than not being ready: a story that needs intervention is
  never ready, and an open story that needs none is ready or waits, through open stories, on one that is:
  the backlog proceeds on its own.
\<close>

theorem intervention_or_progress:
  assumes "keyed_index stories" and "index_story stories (snap_id story) = Some story"
    and "snap_superstate story = Open"
  shows "if needs_intervention story stories then \<not> is_ready story stories
    else \<exists>j s. (snap_id story, j) \<in> (waits stories)\<^sup>* \<and> index_story stories j = Some s \<and> is_ready s stories"
proof (cases "needs_intervention story stories")
  case True
  then have "stuck stories (snap_id story)" using needs_intervention_stuck [OF assms(1,2)] by simp
  then have "\<not> is_ready story stories"
    using stuck_iff [OF assms(2)] stuck_open unfolding ready_iff_unblocked by blast
  then show ?thesis using True by simp
next
  case False
  then have "\<not> stuck stories (snap_id story)" using needs_intervention_stuck [OF assms(1,2)] by simp
  then show ?thesis using False no_ready_then_stuck [OF assms(2,3)] by auto
qed

text \<open>
  Claimable work is ready, unclaimed leaf work: never an epic, a draft, a closed or blocked story,
  nor one in the active or the verifying state; and every ready story outside those states that is not
  an epic is claimable.
\<close>

theorem claimable_iff:
  "is_claimable story stories active \<longleftrightarrow>
     \<not> is_epic story \<and> snap_superstate story = Open \<and> \<not> snap_draft story \<and> \<not> is_blocked story stories
     \<and> \<not> list_ex (\<lambda>r. relation r = ''obviated-by'') (snap_relationships story)
     \<and> snap_state story \<noteq> ''blocked'' \<and> snap_awaiting story = None
     \<and> snap_state story \<notin> insert VERIFYING_STATE_SLUG (sd_slug ` set_option active)"
  by (cases active) (auto simp: is_claimable_def is_ready_def is_blocked_def)

lemma filter_all_length: "length (filter p xs) = length xs \<longleftrightarrow> (\<forall>x \<in> set xs. p x)"
  by (metis filter_True length_filter_less less_irrefl)

lemma live_children_none:
  "live_children story stories = [] \<longleftrightarrow>
     (\<forall>r \<in> {r \<in> set (snap_relationships story). relation r = ''parent-of''}. btm_get stories (other_id r) = None)"
  by (auto simp: live_children_def List.map_filter_def filter_empty_conv)

text \<open>
  Progress counts the children that exist: the closed ones among the stories the parent-of edges
  name, out of all of them, and there is no rollup exactly when none exists.
\<close>

theorem progress_bounds:
  "case compute_progress story stories of
     None \<Rightarrow> \<forall>r \<in> {r \<in> set (snap_relationships story). relation r = ''parent-of''}. btm_get stories (other_id r) = None
   | Some p \<Rightarrow> children_done p \<le> children_total p \<and> 0 < children_total p
       \<and> (children_done p = children_total p \<longleftrightarrow>
           (\<forall>c \<in> set (live_children story stories). snap_superstate c = Closed))"
  using live_children_none [of story stories]
  by (simp add: compute_progress_def Let_def filter_all_length)

text \<open>
  A story is reserved exactly when it carries a reserved label, and the label that is named is one
  it carries, the stricter one when it carries both.
\<close>

theorem reserved_label_spec:
  "case reserved_label story of
     None \<Rightarrow> \<not> is_reserved story \<and> set (snap_labels story) \<inter> set RESERVED_LABELS = {}
   | Some l \<Rightarrow> is_reserved story \<and> is_reserved_label l \<and> l \<in> set (snap_labels story)
       \<and> (is_human_only story \<longleftrightarrow> l = LABEL_HUMAN_ONLY)"
  by (auto simp: reserved_label_def is_reserved_def is_reserved_label_def is_human_only_def RESERVED_LABELS_def
    LABEL_NO_AUTO_def LABEL_HUMAN_ONLY_def list_ex_iff)

section \<open>A backlog, evaluated\<close>

text \<open>\<open>SH-1\<close> waits on ready work; \<open>SH-3\<close> and \<open>SH-4\<close> wait on each other; \<open>SH-5\<close> is an epic.\<close>

definition sample_backlog :: story_map where
  "sample_backlog = keyed_stories
     [bare_story ''SH-1'' [StoryRelation ''blocked-by'' ''SH-2''], bare_story ''SH-2'' [],
      bare_story ''SH-3'' [StoryRelation ''blocked-by'' ''SH-4''],
      bare_story ''SH-4'' [StoryRelation ''blocked-by'' ''SH-3''],
      (bare_story ''SH-5'' [StoryRelation ''parent-of'' ''SH-2''])\<lparr>snap_story_type := Some EPIC_TYPE_SLUG\<rparr>]"

lemma sample_backlog_keyed: "keyed_index sample_backlog"
  by code_simp

lemma sample_backlog_get:
  "index_story sample_backlog ''SH-1'' = Some (bare_story ''SH-1'' [StoryRelation ''blocked-by'' ''SH-2''])"
  "index_story sample_backlog ''SH-3'' = Some (bare_story ''SH-3'' [StoryRelation ''blocked-by'' ''SH-4''])"
  by code_simp+

lemma bare_story_fields [simp]: "snap_id (bare_story i rels) = i" "snap_superstate (bare_story i rels) = Open"
  "snap_relationships (bare_story i rels) = rels"
  by (simp_all add: bare_story_def)

lemma sample_backlog_answers:
  "\<not> needs_intervention (bare_story ''SH-1'' [StoryRelation ''blocked-by'' ''SH-2'']) sample_backlog"
  "needs_intervention (bare_story ''SH-3'' [StoryRelation ''blocked-by'' ''SH-4'']) sample_backlog"
  by code_simp+

theorem needs_intervention_greatest_witness:
  "\<exists>S. ''SH-3'' \<in> S \<and> (\<forall>i \<in> S. \<exists>s. index_story sample_backlog i = Some s \<and> snap_superstate s = Open
     \<and> (intervention_signal (block_facts_of s) \<or> set (bf_blockers (block_facts_of s)) \<inter> S \<noteq> {}))"
  using needs_intervention_greatest [OF sample_backlog_keyed,
      of "bare_story ''SH-3'' [StoryRelation ''blocked-by'' ''SH-4'']"]
    sample_backlog_get(2) sample_backlog_answers(2)
  by simp

theorem intervention_or_progress_witness:
  "\<exists>j s. (''SH-1'', j) \<in> (waits sample_backlog)\<^sup>* \<and> index_story sample_backlog j = Some s \<and> is_ready s sample_backlog"
  using intervention_or_progress [OF sample_backlog_keyed,
      of "bare_story ''SH-1'' [StoryRelation ''blocked-by'' ''SH-2'']"]
    sample_backlog_get(1) sample_backlog_answers(1)
  by simp

theorem progress_bounds_witness:
  "compute_progress (bare_story ''SH-5'' [StoryRelation ''parent-of'' ''SH-2'']) sample_backlog
      = Some \<lparr>children_done = 0, children_total = 1\<rparr>
   \<and> \<not> (\<forall>c \<in> set (live_children (bare_story ''SH-5'' [StoryRelation ''parent-of'' ''SH-2'']) sample_backlog).
          snap_superstate c = Closed)"
proof -
  have p: "compute_progress (bare_story ''SH-5'' [StoryRelation ''parent-of'' ''SH-2'']) sample_backlog
      = Some \<lparr>children_done = 0, children_total = 1\<rparr>" by code_simp
  then show ?thesis
    using progress_bounds [of "bare_story ''SH-5'' [StoryRelation ''parent-of'' ''SH-2'']" sample_backlog] by simp
qed

end
