(* ===== verification/Blocker_Floor.thy ===== *)
theory Blocker_Floor
  imports Story_Readiness
begin

text \<open>
  The blocker floor (\<^verbatim>\<open>src/src/domain/blocker_floor.rs\<close>): the level a story sorts at while more urgent
  open work waits on it.  The computation is the source's worklist over a map of received levels.  It
  terminates because every entry of the map only ever gets more urgent, and its result is the most
  urgent level that reaches a story along the rules of the file's header.
\<close>

definition is_open :: "StorySnapshot \<Rightarrow> bool" where
  "is_open story \<longleftrightarrow> snap_superstate story = Open"

definition is_source :: "StorySnapshot \<Rightarrow> bool" where
  "is_source story \<longleftrightarrow>
     is_open story \<and> \<not> snap_draft story
     \<and> \<not> list_ex (\<lambda>r. relation r = ''obviated-by'') (snap_relationships story)"

definition open_related :: "StorySnapshot \<Rightarrow> string \<Rightarrow> story_map \<Rightarrow> StorySnapshot list" where
  "open_related story rel m =
     filter is_open (List.map_filter (\<lambda>edge. index_story m (other_id edge))
       (filter (\<lambda>edge. relation edge = rel) (snap_relationships story)))"

record FloorState =
  fl_received :: "(string, Priority) btree_map"
  fl_pending :: "StorySnapshot list"

definition receive :: "Priority \<Rightarrow> StorySnapshot \<Rightarrow> FloorState \<Rightarrow> FloorState" where
  "receive level story st =
     (if (case btm_get (fl_received st) (snap_id story) of None \<Rightarrow> True | Some current \<Rightarrow> level < current)
      then st\<lparr>fl_received := btm_insert (snap_id story) level (fl_received st),
              fl_pending := fl_pending st @ [story]\<rparr>
      else st)"

text \<open>The level a story passes to its blockers: the more urgent of its own and the one it received.\<close>

definition min_level :: "Priority option \<Rightarrow> Priority option \<Rightarrow> Priority option" where
  "min_level own relayed =
     (case (own, relayed) of
        (Some a, Some b) \<Rightarrow> Some (min a b) | (Some a, None) \<Rightarrow> Some a | (None, r) \<Rightarrow> r)"

definition passed_level :: "(string, Priority) btree_map \<Rightarrow> StorySnapshot \<Rightarrow> Priority option" where
  "passed_level received story =
     (case min_level (if is_source story then Some (snap_priority story) else None)
             (btm_get received (snap_id story)) of
        Some level \<Rightarrow> if level \<noteq> NoPriority then Some level else None
      | None \<Rightarrow> None)"

text \<open>The body of the loop for the story at the front of the queue.\<close>

definition visit_story :: "story_map \<Rightarrow> StorySnapshot \<Rightarrow> FloorState \<Rightarrow> FloorState" where
  "visit_story m story st =
     (let relayed = btm_get (fl_received st) (snap_id story) in
      case passed_level (fl_received st) story of
        None \<Rightarrow> st
      | Some level \<Rightarrow>
          (let st = fold (receive level) (open_related story ''blocked-by'' m) st in
           case relayed of
             Some relayed \<Rightarrow>
               if is_epic story then fold (receive relayed) (open_related story ''parent-of'' m) st else st
           | None \<Rightarrow> st))"

section \<open>Termination\<close>

definition urgency :: "(string, Priority) btree_map \<Rightarrow> string \<Rightarrow> nat" where
  "urgency received i = (case btm_get received i of None \<Rightarrow> 5 | Some p \<Rightarrow> priority_rank p)"

definition potential :: "story_map \<Rightarrow> FloorState \<Rightarrow> nat" where
  "potential m st = (\<Sum>i \<in> index_ids m. urgency (fl_received st) i)"

lemma finite_index_ids [simp]: "finite (index_ids m)"
  by (simp add: index_ids_def)

lemma urgency_receive:
  "urgency (fl_received (receive level s st)) i \<le> urgency (fl_received st) i"
  using priority_rank_le4 [of level]
  by (auto simp: receive_def urgency_def less_Priority_def split: option.splits)

lemma receive_progress:
  assumes "snap_id s \<in> index_ids m"
  shows "potential m (receive level s st) < potential m st \<or> receive level s st = st"
proof (cases "receive level s st = st")
  case False
  then have "urgency (fl_received (receive level s st)) (snap_id s) < urgency (fl_received st) (snap_id s)"
    using priority_rank_le4 [of level]
    by (auto simp: receive_def urgency_def less_Priority_def split: option.splits if_splits)
  then have "potential m (receive level s st) < potential m st"
    unfolding potential_def
    using assms urgency_receive by (intro sum_strict_mono_ex1) auto
  then show ?thesis ..
qed simp

lemma fold_receive_progress:
  "\<forall>s \<in> set ss. snap_id s \<in> index_ids m \<Longrightarrow>
     potential m (fold (receive level) ss st) < potential m st \<or> fold (receive level) ss st = st"
proof (induction ss arbitrary: st)
  case (Cons s ss)
  then show ?case using receive_progress [of s m level st] Cons.IH [of "receive level s st"] by fastforce
qed simp

lemma open_related_ids: "\<forall>s \<in> set (open_related story rel m). snap_id s \<in> index_ids m"
  by (auto simp: open_related_def List.map_filter_def index_story_id)

lemma visit_progress: "potential m (visit_story m story st) < potential m st \<or> visit_story m story st = st"
proof (cases "passed_level (fl_received st) story")
  case None
  then show ?thesis by (simp add: visit_story_def)
next
  case (Some level)
  let ?relayed = "btm_get (fl_received st) (snap_id story)"
  let ?st = "fold (receive level) (open_related story ''blocked-by'' m) st"
  have first: "potential m ?st < potential m st \<or> ?st = st"
    by (rule fold_receive_progress [OF open_related_ids])
  show ?thesis
  proof (cases "?relayed \<noteq> None \<and> is_epic story")
    case True
    then obtain r where r: "?relayed = Some r" "is_epic story" by blast
    have "potential m (fold (receive r) (open_related story ''parent-of'' m) ?st) < potential m ?st
        \<or> fold (receive r) (open_related story ''parent-of'' m) ?st = ?st"
      by (rule fold_receive_progress [OF open_related_ids])
    then show ?thesis using first Some r by (auto simp: visit_story_def Let_def)
  next
    case False
    then have "visit_story m story st = ?st"
      using Some by (auto simp: visit_story_def Let_def split: option.split)
    then show ?thesis using first by simp
  qed
qed

function floor_loop :: "story_map \<Rightarrow> FloorState \<Rightarrow> (string, Priority) btree_map" where
  "floor_loop m st =
     (case fl_pending st of
        [] \<Rightarrow> fl_received st
      | story # rest \<Rightarrow> floor_loop m (visit_story m story (st\<lparr>fl_pending := rest\<rparr>)))"
  by pat_completeness auto
termination
proof (relation "inv_image (less_than <*lex*> less_than) (\<lambda>(m, st). (potential m st, length (fl_pending st)))")
  fix m :: story_map and st :: FloorState and story rest
  assume p: "fl_pending st = story # rest"
  let ?st = "st\<lparr>fl_pending := rest\<rparr>"
  have "potential m ?st = potential m st" by (simp add: potential_def)
  then show "((m, visit_story m story ?st), m, st)
      \<in> inv_image (less_than <*lex*> less_than) (\<lambda>(m, st). (potential m st, length (fl_pending st)))"
    using visit_progress [of m story ?st] p by auto
qed auto

declare floor_loop.simps [simp del]

section \<open>The floors\<close>

definition floor_start :: "story_map \<Rightarrow> FloorState" where
  "floor_start m = \<lparr>fl_received = [], fl_pending = filter is_source (btm_values m)\<rparr>"

definition floors_received :: "story_map \<Rightarrow> (string, Priority) btree_map" where
  "floors_received m = floor_loop m (floor_start m)"

definition compute_floors :: "story_map \<Rightarrow> (string, Priority) btree_map" where
  "compute_floors m =
     btm_of_list (List.map_filter
       (\<lambda>(i, level). case index_story m i of
           None \<Rightarrow> None
         | Some story \<Rightarrow> if level < snap_priority story then Some (i, level) else None) (floors_received m))"

definition floor_of :: "(string, Priority) btree_map \<Rightarrow> StorySnapshot \<Rightarrow> Priority option" where
  "floor_of floors story =
     (case btm_get floors (snap_id story) of
        Some level \<Rightarrow> if level < snap_priority story then Some level else None
      | None \<Rightarrow> None)"

definition effective :: "(string, Priority) btree_map \<Rightarrow> StorySnapshot \<Rightarrow> Priority" where
  "effective floors story = (case floor_of floors story of Some level \<Rightarrow> level | None \<Rightarrow> snap_priority story)"

section \<open>Which levels reach a story\<close>

text \<open>
  The rule in full: a source lends its level to the open stories it waits on; whoever received a level
  passes it to the open stories it waits on, and an epic to its open children as well.
\<close>

inductive level_reaches :: "story_map \<Rightarrow> Priority \<Rightarrow> StorySnapshot \<Rightarrow> bool" for m where
  lend: "s \<in> set (btm_values m) \<Longrightarrow> is_source s \<Longrightarrow> snap_priority s \<noteq> NoPriority \<Longrightarrow>
    b \<in> set (open_related s ''blocked-by'' m) \<Longrightarrow> level_reaches m (snap_priority s) b"
| relay: "level_reaches m p s \<Longrightarrow> b \<in> set (open_related s ''blocked-by'' m) \<Longrightarrow> level_reaches m p b"
| hand_down: "level_reaches m p s \<Longrightarrow> is_epic s \<Longrightarrow> c \<in> set (open_related s ''parent-of'' m) \<Longrightarrow> level_reaches m p c"

lemma open_related_mem:
  "b \<in> set (open_related s rel m) \<longleftrightarrow>
     is_open b \<and> (\<exists>r \<in> set (snap_relationships s). relation r = rel \<and> index_story m (other_id r) = Some b)"
  by (force simp: open_related_def List.map_filter_def)

lemma level_not_none: "level_reaches m p s \<Longrightarrow> p \<noteq> NoPriority"
  by (induction rule: level_reaches.induct)

lemma keyed_value:
  assumes "keyed_index m" and "s \<in> set (btm_values m)"
  shows "index_story m (snap_id s) = Some s"
  using assms btm_get_mem by (fastforce simp: keyed_index_def index_story_def list_all_iff btm_values_def)

lemma index_value: "index_story m i = Some s \<Longrightarrow> s \<in> set (btm_values m)"
  by (simp add: index_story_def btm_get_value)

lemma open_related_value: "b \<in> set (open_related s rel m) \<Longrightarrow> b \<in> set (btm_values m)"
  by (auto simp: open_related_mem dest: index_value)

section \<open>The invariant of the loop\<close>

definition at_most :: "(string, Priority) btree_map \<Rightarrow> StorySnapshot \<Rightarrow> Priority \<Rightarrow> bool" where
  "at_most received s level \<longleftrightarrow> (\<exists>q \<le> level. btm_get received (snap_id s) = Some q)"

definition passed_on :: "story_map \<Rightarrow> (string, Priority) btree_map \<Rightarrow> StorySnapshot \<Rightarrow> bool" where
  "passed_on m received s \<longleftrightarrow>
     (\<forall>level. passed_level received s = Some level \<longrightarrow>
        (\<forall>b \<in> set (open_related s ''blocked-by'' m). at_most received b level)
        \<and> (\<forall>r. btm_get received (snap_id s) = Some r \<longrightarrow> is_epic s \<longrightarrow>
             (\<forall>c \<in> set (open_related s ''parent-of'' m). at_most received c r)))"

definition sound_levels :: "story_map \<Rightarrow> (string, Priority) btree_map \<Rightarrow> bool" where
  "sound_levels m received \<longleftrightarrow>
     btm_ok received \<and> (\<forall>i p. btm_get received i = Some p \<longrightarrow> (\<exists>s. index_story m i = Some s \<and> level_reaches m p s))"

definition floor_inv :: "story_map \<Rightarrow> FloorState \<Rightarrow> bool" where
  "floor_inv m st \<longleftrightarrow>
     sound_levels m (fl_received st) \<and> set (fl_pending st) \<subseteq> set (btm_values m)
     \<and> (\<forall>s \<in> set (btm_values m). s \<in> set (fl_pending st) \<or> passed_on m (fl_received st) s)"

text \<open>What a step may do: levels get more urgent, and whoever's level changed is queued.\<close>

definition improves :: "story_map \<Rightarrow> FloorState \<Rightarrow> FloorState \<Rightarrow> bool" where
  "improves m st st' \<longleftrightarrow>
     (\<forall>b l. at_most (fl_received st) b l \<longrightarrow> at_most (fl_received st') b l)
     \<and> set (fl_pending st) \<subseteq> set (fl_pending st') \<and> set (fl_pending st') \<subseteq> set (fl_pending st) \<union> set (btm_values m)
     \<and> (\<forall>s \<in> set (btm_values m). btm_get (fl_received st') (snap_id s) \<noteq> btm_get (fl_received st) (snap_id s)
          \<longrightarrow> s \<in> set (fl_pending st'))"

lemma improves_refl [simp]: "improves m st st"
  by (simp add: improves_def)

lemma improves_trans: "improves m st st' \<Longrightarrow> improves m st' st'' \<Longrightarrow> improves m st st''"
  unfolding improves_def
proof (elim conjE, intro conjI ballI impI, goal_cases)
  case (4 s)
  then show ?case by (cases "btm_get (fl_received st') (snap_id s) = btm_get (fl_received st) (snap_id s)") auto
qed (blast | auto)+

lemma receive_improves:
  assumes "keyed_index m" and "b \<in> set (btm_values m)"
  shows "improves m st (receive level b st)" and "at_most (fl_received (receive level b st)) b level"
proof -
  have same: "s = b" if "s \<in> set (btm_values m)" "snap_id s = snap_id b" for s
    using keyed_value [OF assms(1)] that assms(2) by (metis option.inject)
  show "improves m st (receive level b st)"
    using assms(2) same
    by (auto simp: improves_def receive_def at_most_def split: option.splits)
  show "at_most (fl_received (receive level b st)) b level"
    by (auto simp: receive_def at_most_def not_less split: option.splits)
qed

lemma fold_receive_improves:
  assumes "keyed_index m"
  shows "set bs \<subseteq> set (btm_values m) \<Longrightarrow>
    improves m st (fold (receive level) bs st) \<and> (\<forall>b \<in> set bs. at_most (fl_received (fold (receive level) bs st)) b level)"
proof (induction bs arbitrary: st)
  case (Cons b bs)
  let ?st = "receive level b st"
  have IH: "improves m ?st (fold (receive level) bs ?st)"
    "\<forall>b \<in> set bs. at_most (fl_received (fold (receive level) bs ?st)) b level"
    using Cons by auto
  moreover have "improves m st ?st" "at_most (fl_received ?st) b level"
    using receive_improves [OF assms] Cons.prems by auto
  ultimately show ?case by (auto simp: improves_def intro: improves_trans)
qed simp

lemma receive_sound:
  "sound_levels m (fl_received st) \<Longrightarrow> level_reaches m level b \<Longrightarrow> index_story m (snap_id b) = Some b \<Longrightarrow>
     sound_levels m (fl_received (receive level b st))"
  by (auto simp: sound_levels_def receive_def btm_ok_insert)

lemma fold_receive_sound:
  "sound_levels m (fl_received st) \<Longrightarrow>
     \<forall>b \<in> set bs. level_reaches m level b \<and> index_story m (snap_id b) = Some b \<Longrightarrow>
     sound_levels m (fl_received (fold (receive level) bs st))"
  by (induction bs arbitrary: st) (simp_all add: receive_sound)

lemma visit_story_simps:
  "passed_level (fl_received st) s = None \<Longrightarrow> visit_story m s st = st"
  "passed_level (fl_received st) s = Some level \<Longrightarrow> btm_get (fl_received st) (snap_id s) = Some r \<Longrightarrow> is_epic s \<Longrightarrow>
     visit_story m s st = fold (receive r) (open_related s ''parent-of'' m)
       (fold (receive level) (open_related s ''blocked-by'' m) st)"
  "passed_level (fl_received st) s = Some level \<Longrightarrow> btm_get (fl_received st) (snap_id s) = None \<or> \<not> is_epic s \<Longrightarrow>
     visit_story m s st = fold (receive level) (open_related s ''blocked-by'' m) st"
  by (auto simp: visit_story_def Let_def split: option.split)

lemma passed_level_reaches:
  assumes "keyed_index m" and "sound_levels m (fl_received st)" and "s \<in> set (btm_values m)"
    and "passed_level (fl_received st) s = Some level" and "b \<in> set (open_related s ''blocked-by'' m)"
  shows "level_reaches m level b"
proof -
  have "level \<noteq> NoPriority \<and> (is_source s \<and> level = snap_priority s \<or> btm_get (fl_received st) (snap_id s) = Some level)"
    using assms(4) by (auto simp: passed_level_def min_level_def min_def split: option.splits if_splits)
  moreover have "level_reaches m level s" if "btm_get (fl_received st) (snap_id s) = Some level"
    using that assms(2) keyed_value [OF assms(1,3)] by (fastforce simp: sound_levels_def)
  ultimately show ?thesis using assms(3,5) level_reaches.lend level_reaches.relay by blast
qed

lemma visit_improves:
  assumes "keyed_index m"
  shows "improves m st (visit_story m s st)"
proof (cases "passed_level (fl_received st) s")
  case (Some level)
  have blockers: "improves m st (fold (receive level) (open_related s ''blocked-by'' m) st)"
    using fold_receive_improves [OF assms] open_related_value by blast
  moreover have "improves m st' (fold (receive r) (open_related s ''parent-of'' m) st')" for r st'
    using fold_receive_improves [OF assms] open_related_value by blast
  ultimately show ?thesis
    using visit_story_simps(2,3) [OF Some] improves_trans
    by (cases "btm_get (fl_received st) (snap_id s)"; cases "is_epic s") auto
qed (simp add: visit_story_simps)

lemma visit_sound:
  assumes "keyed_index m" and sound: "sound_levels m (fl_received st)" and "s \<in> set (btm_values m)"
  shows "sound_levels m (fl_received (visit_story m s st))"
proof (cases "passed_level (fl_received st) s")
  case (Some level)
  have keyed: "index_story m (snap_id b) = Some b" if "b \<in> set (open_related s rel m)" for b rel
    using keyed_value [OF assms(1)] open_related_value that by blast
  let ?st = "fold (receive level) (open_related s ''blocked-by'' m) st"
  have first: "sound_levels m (fl_received ?st)"
    using passed_level_reaches [OF assms Some] keyed by (intro fold_receive_sound [OF sound]) blast
  show ?thesis
  proof (cases "btm_get (fl_received st) (snap_id s) = None \<or> \<not> is_epic s")
    case False
    then obtain r where r: "btm_get (fl_received st) (snap_id s) = Some r" "is_epic s" by auto
    then have "level_reaches m r s" using sound keyed_value [OF assms(1,3)] by (fastforce simp: sound_levels_def)
    then have "sound_levels m (fl_received (fold (receive r) (open_related s ''parent-of'' m) ?st))"
      using r keyed level_reaches.hand_down by (intro fold_receive_sound [OF first]) blast
    then show ?thesis by (simp add: visit_story_simps(2) [OF Some r])
  qed (simp add: visit_story_simps(3) [OF Some] first)
qed (simp add: visit_story_simps sound)

text \<open>After its visit a story has passed on its level, or its level changed and it is queued again.\<close>

lemma visit_passes_on:
  assumes "keyed_index m" and "s \<in> set (btm_values m)"
  shows "s \<in> set (fl_pending (visit_story m s st)) \<or> passed_on m (fl_received (visit_story m s st)) s"
proof (cases "btm_get (fl_received (visit_story m s st)) (snap_id s) = btm_get (fl_received st) (snap_id s)")
  case False
  then show ?thesis using visit_improves [OF assms(1), of st s] assms(2) by (auto simp: improves_def)
next
  case True
  let ?r = "fl_received (visit_story m s st)"
  have same: "passed_level ?r s = passed_level (fl_received st) s" using True by (simp add: passed_level_def)
  have blockers: "\<forall>b \<in> set (open_related s ''blocked-by'' m). at_most ?r b level"
    and children: "\<forall>r. btm_get (fl_received st) (snap_id s) = Some r \<longrightarrow> is_epic s \<longrightarrow>
      (\<forall>c \<in> set (open_related s ''parent-of'' m). at_most ?r c r)"
    if level: "passed_level (fl_received st) s = Some level" for level
  proof -
    let ?st = "fold (receive level) (open_related s ''blocked-by'' m) st"
    have first: "\<forall>b \<in> set (open_related s ''blocked-by'' m). at_most (fl_received ?st) b level"
      using fold_receive_improves [OF assms(1)] open_related_value by blast
    have second: "improves m ?st (fold (receive r) (open_related s ''parent-of'' m) ?st)
        \<and> (\<forall>c \<in> set (open_related s ''parent-of'' m).
             at_most (fl_received (fold (receive r) (open_related s ''parent-of'' m) ?st)) c r)" for r
      using fold_receive_improves [OF assms(1)] open_related_value by blast
    show "\<forall>b \<in> set (open_related s ''blocked-by'' m). at_most ?r b level"
      using first second visit_story_simps(2,3) [OF level] unfolding improves_def
      by (cases "btm_get (fl_received st) (snap_id s)"; cases "is_epic s") auto
    show "\<forall>r. btm_get (fl_received st) (snap_id s) = Some r \<longrightarrow> is_epic s \<longrightarrow>
        (\<forall>c \<in> set (open_related s ''parent-of'' m). at_most ?r c r)"
      using second visit_story_simps(2) [OF level] by auto
  qed
  then show ?thesis unfolding passed_on_def same True by blast
qed

lemma passed_on_improves:
  assumes "improves m st st'" and "s \<in> set (btm_values m)" and "passed_on m (fl_received st) s"
  shows "s \<in> set (fl_pending st') \<or> passed_on m (fl_received st') s"
proof (cases "btm_get (fl_received st') (snap_id s) = btm_get (fl_received st) (snap_id s)")
  case False
  then show ?thesis using assms(1,2) by (auto simp: improves_def)
next
  case True
  then have "passed_level (fl_received st') s = passed_level (fl_received st) s" by (simp add: passed_level_def)
  then show ?thesis using assms(1,3) True unfolding passed_on_def improves_def by auto
qed

lemma visit_inv:
  assumes "keyed_index m" and "floor_inv m st" and "fl_pending st = s # rest"
  shows "floor_inv m (visit_story m s (st\<lparr>fl_pending := rest\<rparr>))"
proof -
  let ?st = "st\<lparr>fl_pending := rest\<rparr>"
  have s: "s \<in> set (btm_values m)" and rest: "set rest \<subseteq> set (btm_values m)" using assms(2,3) by (auto simp: floor_inv_def)
  have imp: "improves m ?st (visit_story m s ?st)" by (rule visit_improves [OF assms(1)])
  have "t \<in> set (fl_pending (visit_story m s ?st)) \<or> passed_on m (fl_received (visit_story m s ?st)) t"
    if "t \<in> set (btm_values m)" for t
  proof -
    have "t \<in> set (s # rest) \<or> passed_on m (fl_received ?st) t"
      using that assms(2,3) by (simp add: floor_inv_def)
    then consider "t = s" | "t \<in> set rest" | "passed_on m (fl_received ?st) t" by auto
    then show ?thesis
    proof cases
      case 1
      then show ?thesis using visit_passes_on [OF assms(1) s] by simp
    next
      case 2
      then show ?thesis using imp by (auto simp: improves_def)
    next
      case 3
      then show ?thesis using passed_on_improves [OF imp that] by blast
    qed
  qed
  moreover have "set (fl_pending (visit_story m s ?st)) \<subseteq> set (btm_values m)"
    using imp rest by (auto simp: improves_def)
  moreover have "sound_levels m (fl_received (visit_story m s ?st))"
    using visit_sound [OF assms(1) _ s] assms(2) by (simp add: floor_inv_def)
  ultimately show ?thesis by (simp add: floor_inv_def)
qed

lemma floor_loop_inv:
  assumes "keyed_index m"
  shows "floor_inv m st \<Longrightarrow> sound_levels m (floor_loop m st)
    \<and> (\<forall>s \<in> set (btm_values m). passed_on m (floor_loop m st) s)"
  using assms
proof (induction m st rule: floor_loop.induct)
  case (1 m st)
  then show ?case
    using visit_inv by (cases "fl_pending st") (auto simp: floor_loop.simps [of m st] floor_inv_def)
qed

lemma passed_level_start: "passed_level [] s \<noteq> None \<Longrightarrow> is_source s"
  by (auto simp: passed_level_def min_level_def split: option.splits if_splits)

lemma floor_start_inv: "floor_inv m (floor_start m)"
  using passed_level_start by (fastforce simp: floor_inv_def floor_start_def sound_levels_def passed_on_def btm.ok_empty)

lemma all_passed_on: "keyed_index m \<Longrightarrow> s \<in> set (btm_values m) \<Longrightarrow> passed_on m (floors_received m) s"
  using floor_loop_inv [OF _ floor_start_inv] by (simp add: floors_received_def)

lemma received_sound: "keyed_index m \<Longrightarrow> sound_levels m (floors_received m)"
  using floor_loop_inv [OF _ floor_start_inv] by (simp add: floors_received_def)

lemma received_not_none: "sound_levels m received \<Longrightarrow> btm_get received i = Some q \<Longrightarrow> q \<noteq> NoPriority"
  unfolding sound_levels_def by (meson level_not_none)

lemma min_level_le:
  assumes "p \<noteq> NoPriority" and "a = Some p \<or> b = Some p"
  shows "\<exists>level \<le> p. min_level a b = Some level \<and> level \<noteq> NoPriority"
proof -
  obtain level where level: "min_level a b = Some level" "level \<le> p"
    using assms(2) by (cases a; cases b) (auto simp: min_level_def)
  moreover have "\<not> NoPriority \<le> p" using assms(1) by (cases p) (simp_all add: less_eq_Priority_def)
  ultimately show ?thesis by auto
qed

lemma passed_level_le:
  assumes "p \<noteq> NoPriority"
    and "is_source s \<and> snap_priority s = p \<or> btm_get received (snap_id s) = Some p"
  shows "\<exists>level \<le> p. passed_level received s = Some level"
  using min_level_le [OF assms(1), of "if is_source s then Some (snap_priority s) else None"
      "btm_get received (snap_id s)"] assms(2)
  by (auto simp: passed_level_def split: if_splits)

lemma at_most_trans: "at_most received s p \<Longrightarrow> p \<le> q \<Longrightarrow> at_most received s q"
  by (auto simp: at_most_def)

lemma received_complete:
  assumes "keyed_index m"
  shows "level_reaches m p s \<Longrightarrow> at_most (floors_received m) s p \<and> s \<in> set (btm_values m)"
proof (induction rule: level_reaches.induct)
  case (lend s b)
  then obtain level where "passed_level (floors_received m) s = Some level" "level \<le> snap_priority s"
    using passed_level_le [of "snap_priority s" s "floors_received m"] by blast
  then show ?case using all_passed_on [OF assms lend(1)] lend(4) open_related_value [OF lend(4)]
    by (auto simp: passed_on_def intro: at_most_trans)
next
  case (relay p s b)
  then obtain q where q: "btm_get (floors_received m) (snap_id s) = Some q" "q \<le> p" by (auto simp: at_most_def)
  then have "q \<noteq> NoPriority" using received_not_none [OF received_sound [OF assms]] by blast
  then obtain level where "passed_level (floors_received m) s = Some level" "level \<le> q"
    using passed_level_le [of q s "floors_received m"] q by blast
  then show ?case using all_passed_on [OF assms, of s] relay open_related_value [OF relay(2)] q(2)
    by (auto simp: passed_on_def intro: at_most_trans)
next
  case (hand_down p s c)
  then obtain q where q: "btm_get (floors_received m) (snap_id s) = Some q" "q \<le> p" by (auto simp: at_most_def)
  then have "q \<noteq> NoPriority" using received_not_none [OF received_sound [OF assms]] by blast
  then obtain level where "passed_level (floors_received m) s = Some level"
    using passed_level_le [of q s "floors_received m"] q by blast
  then show ?case using all_passed_on [OF assms, of s] hand_down open_related_value [OF hand_down(3)] q
    by (auto simp: passed_on_def intro: at_most_trans)
qed

section \<open>The floor is the most urgent level that reaches a story\<close>

lemma distinct_map_filter_keys:
  assumes "\<forall>x y. f x = Some y \<longrightarrow> fst y = fst x"
  shows "distinct (map fst xs) \<Longrightarrow>
     distinct (map fst (List.map_filter f xs)) \<and> fst ` set (List.map_filter f xs) \<subseteq> fst ` set xs"
proof (induction xs)
  case (Cons x xs)
  show ?case
  proof (cases "f x")
    case None
    then show ?thesis using Cons by (auto simp: List.map_filter_simps)
  next
    case (Some y)
    then have "fst y = fst x" using assms by blast
    then show ?thesis using Cons Some by (auto simp: List.map_filter_simps simp del: split_paired_All)
  qed
qed (simp add: List.map_filter_simps)

lemma compute_floors_get:
  assumes "keyed_index m"
  shows "btm_get (compute_floors m) i = Some level \<longleftrightarrow>
    btm_get (floors_received m) i = Some level \<and> (\<exists>s. index_story m i = Some s \<and> level < snap_priority s)"
proof -
  let ?f = "\<lambda>(i, level). case index_story m i of None \<Rightarrow> None
    | Some story \<Rightarrow> if level < snap_priority story then Some (i, level) else None"
  let ?zs = "List.map_filter ?f (floors_received m)"
  have ok: "btm_ok (floors_received m)" using received_sound [OF assms] by (simp add: sound_levels_def)
  then have "distinct (map fst (floors_received m))" by (simp add: btm_ok_def strict_sorted_iff)
  then have "distinct (map fst ?zs)"
    using distinct_map_filter_keys [of ?f "floors_received m"] by (simp split: option.splits)
  then have "btm_get (compute_floors m) i = Some level \<longleftrightarrow> (i, level) \<in> set ?zs"
    by (simp add: compute_floors_def btm_get_of_list map_of_eq_Some_iff rev_map [symmetric])
  also have "\<dots> \<longleftrightarrow> (i, level) \<in> set (floors_received m) \<and> (\<exists>s. index_story m i = Some s \<and> level < snap_priority s)"
    by (force simp: List.map_filter_def split: option.splits if_splits)
  finally show ?thesis by (simp add: btm_get_mem [OF ok])
qed

lemma effective_received:
  assumes "keyed_index m" and "index_story m (snap_id s) = Some s"
  shows "effective (compute_floors m) s =
    (case btm_get (floors_received m) (snap_id s) of Some level \<Rightarrow> min level (snap_priority s) | None \<Rightarrow> snap_priority s)"
proof (cases "btm_get (compute_floors m) (snap_id s)")
  case None
  then have "\<not> (btm_get (floors_received m) (snap_id s) = Some level \<and> level < snap_priority s)" for level
    using compute_floors_get [OF assms(1), of "snap_id s" level] assms(2) by auto
  then show ?thesis using None
    by (cases "btm_get (floors_received m) (snap_id s)")
      (auto simp: effective_def floor_of_def min_absorb2 not_less)
next
  case (Some level)
  then show ?thesis using compute_floors_get [OF assms(1), of "snap_id s" level] assms(2)
    by (auto simp: effective_def floor_of_def)
qed

text \<open>
  C20. The blocker floor is the most urgent claim on a story: its effective level is its own or one that
  reaches it from open work waiting on it, and it is at least as urgent as its own level and as every
  level that reaches it.
\<close>

theorem effective_level_most_urgent:
  assumes "keyed_index stories" and "index_story stories (snap_id story) = Some story"
  shows "(effective (compute_floors stories) story = snap_priority story
      \<or> level_reaches stories (effective (compute_floors stories) story) story)
    \<and> effective (compute_floors stories) story \<le> snap_priority story
    \<and> (\<forall>p. level_reaches stories p story \<longrightarrow> effective (compute_floors stories) story \<le> p)"
proof (cases "btm_get (floors_received stories) (snap_id story)")
  case None
  then have "\<not> level_reaches stories p story" for p
    using received_complete [OF assms(1), of p story] by (auto simp: at_most_def)
  then show ?thesis by (simp add: effective_received [OF assms] None)
next
  case (Some level)
  then have "level_reaches stories level story"
    using received_sound [OF assms(1)] assms(2) by (fastforce simp: sound_levels_def)
  moreover have "level \<le> p" if "level_reaches stories p story" for p
    using received_complete [OF assms(1) that] Some by (auto simp: at_most_def)
  moreover have "effective (compute_floors stories) story = min level (snap_priority story)"
    by (simp add: effective_received [OF assms] Some)
  ultimately show ?thesis
    by (cases level "snap_priority story" rule: linorder_cases) (auto simp: min.coboundedI1, force)
qed

section \<open>Ranking ready work\<close>

text \<open>\<open>ReadyRanking\<close>: an index with the floors derived from it.\<close>

record ReadyRanking =
  rr_index :: story_map
  rr_floors :: "(string, Priority) btree_map"

definition ranking_new :: "story_map \<Rightarrow> ReadyRanking" where
  "ranking_new m = \<lparr>rr_index = m, rr_floors = compute_floors m\<rparr>"

definition ranking_effective :: "ReadyRanking \<Rightarrow> StorySnapshot \<Rightarrow> Priority" where
  "ranking_effective ranking story = effective (rr_floors ranking) story"

definition parent_epic_priority :: "ReadyRanking \<Rightarrow> StorySnapshot \<Rightarrow> Priority" where
  "parent_epic_priority ranking story =
     (let parents = filter is_epic (List.map_filter (\<lambda>r. index_story (rr_index ranking) (other_id r))
        (filter (\<lambda>r. relation r = ''child-of'') (snap_relationships story))) in
      if parents = [] then ranking_effective ranking story
      else Min (set (map (ranking_effective ranking) parents)))"

definition story_number :: "string \<Rightarrow> nat" where
  "story_number i =
     (case split_on (CHR ''-'') i of
        _ # raw # _ \<Rightarrow> (case parse_u64 raw of Some n \<Rightarrow> n | None \<Rightarrow> 2 ^ 64 - 1)
      | _ \<Rightarrow> 2 ^ 64 - 1)"

lemma story_number_code [code]:
  "story_number i =
     (case (case split_on (CHR ''-'') i of _ # raw # _ \<Rightarrow> parse_u64 raw | _ \<Rightarrow> None) of Some n \<Rightarrow> n | None \<Rightarrow> 2 ^ 64 - 1)"
  by (simp add: story_number_def split: list.split)

datatype Ordering = Less | Equal | Greater

definition cmp :: "'a::linorder \<Rightarrow> 'a \<Rightarrow> Ordering" where
  "cmp a b = (if a < b then Less else if a = b then Equal else Greater)"

fun then_with :: "Ordering \<Rightarrow> Ordering \<Rightarrow> Ordering" where
  "then_with Equal other = other"
| "then_with o' other = o'"

definition ready_order :: "StorySnapshot \<Rightarrow> StorySnapshot \<Rightarrow> ReadyRanking \<Rightarrow> Ordering" where
  "ready_order a b ranking =
     then_with (then_with (then_with
       (cmp (ranking_effective ranking a) (ranking_effective ranking b))
       (cmp (parent_epic_priority ranking a) (parent_epic_priority ranking b)))
       (cmp (story_number (snap_id a)) (story_number (snap_id b))))
       (cmp (snap_id a) (snap_id b))"

lemma then_with_cases: "then_with x y = Less \<longleftrightarrow> x = Less \<or> x = Equal \<and> y = Less"
  "then_with x y = Equal \<longleftrightarrow> x = Equal \<and> y = Equal"
  "then_with x y = Greater \<longleftrightarrow> x = Greater \<or> x = Equal \<and> y = Greater"
  by (cases x; simp)+

lemma cmp_cases: "cmp a b = Less \<longleftrightarrow> a < b" "cmp a b = Equal \<longleftrightarrow> a = b" "cmp a b = Greater \<longleftrightarrow> b < a"
  by (auto simp: cmp_def)

lemmas ready_order_cases = ready_order_def then_with_cases cmp_cases

text \<open>
  Ready work has one order: the comparison is a strict total order on stories with different ids,
  two stories tie only when they have the same id, it is antisymmetric and transitive, and a more urgent
  effective level always comes first.
\<close>

theorem ready_order_total:
  "(ready_order a b r = Equal \<longrightarrow> snap_id a = snap_id b) \<and> ready_order a a r = Equal
    \<and> (ready_order a b r = Less \<longleftrightarrow> ready_order b a r = Greater)
    \<and> (ready_order a b r = Less \<longrightarrow> ready_order b c r = Less \<longrightarrow> ready_order a c r = Less)
    \<and> (ranking_effective r a < ranking_effective r b \<longrightarrow> ready_order a b r = Less)"
  unfolding ready_order_cases by (auto dest: less_trans)

section \<open>A backlog, evaluated\<close>

definition sample_urgent :: story_map where
  "sample_urgent = keyed_stories
     [(bare_story ''SH-1'' [StoryRelation ''blocked-by'' ''SH-2''])\<lparr>snap_priority := Critical\<rparr>,
      (bare_story ''SH-2'' [StoryRelation ''blocked-by'' ''SH-3''])\<lparr>snap_priority := Low\<rparr>,
      (bare_story ''SH-3'' [])\<lparr>snap_priority := Medium\<rparr>,
      (bare_story ''SH-4'' [])\<lparr>snap_priority := High\<rparr>]"

lemma sample_urgent_keyed: "keyed_index sample_urgent"
  by code_simp

lemma sample_urgent_get: "index_story sample_urgent ''SH-3'' = Some ((bare_story ''SH-3'' [])\<lparr>snap_priority := Medium\<rparr>)"
  by code_simp

lemma sample_urgent_effective:
  "effective (compute_floors sample_urgent) ((bare_story ''SH-3'' [])\<lparr>snap_priority := Medium\<rparr>) = Critical"
  by code_simp

theorem effective_level_most_urgent_witness:
  "level_reaches sample_urgent Critical ((bare_story ''SH-3'' [])\<lparr>snap_priority := Medium\<rparr>)"
  using effective_level_most_urgent [OF sample_urgent_keyed, of "(bare_story ''SH-3'' [])\<lparr>snap_priority := Medium\<rparr>"]
    sample_urgent_get sample_urgent_effective
  by simp

theorem ready_order_total_witness:
  "ready_order ((bare_story ''SH-3'' [])\<lparr>snap_priority := Medium\<rparr>) ((bare_story ''SH-4'' [])\<lparr>snap_priority := High\<rparr>)
     (ranking_new sample_urgent) = Less"
proof -
  have "ranking_effective (ranking_new sample_urgent) ((bare_story ''SH-3'' [])\<lparr>snap_priority := Medium\<rparr>)
      < ranking_effective (ranking_new sample_urgent) ((bare_story ''SH-4'' [])\<lparr>snap_priority := High\<rparr>)"
    by code_simp
  then show ?thesis using ready_order_total by blast
qed

end
