(* ===== verification/Story_Refs.thy ===== *)
theory Story_Refs
  imports Blocker_Floor "HOL-Library.Product_Lexorder"
begin

text \<open>
  Story ids in free text (\<^verbatim>\<open>src/src/domain.rs\<close>, lines 3731 to 4368): the scan of a line for ids, the
  grammar that tells a commit's claim from a mention, the references of a commit message, and the
  mentions of a story in the comments of others with their bounded snippets.  Offsets are byte offsets,
  as in the source.  The theorems: the scan finds ids and only ids, references are listed once each, a
  reverted subject claims nothing, and a snippet is within its bound and shows the id it is evidence of.
\<close>

section \<open>Words that claim\<close>

datatype ReferenceIntent = Mention | Claim

text \<open>The derived order of the variants; the merge of two intents is the maximum.\<close>

fun intent_max :: "ReferenceIntent \<Rightarrow> ReferenceIntent \<Rightarrow> ReferenceIntent" where
  "intent_max Mention b = b"
| "intent_max Claim b = Claim"

record StoryReference =
  ref_id :: string
  ref_intent :: ReferenceIntent

definition ref_claims :: "StoryReference \<Rightarrow> bool" where
  "ref_claims r \<longleftrightarrow> ref_intent r = Claim"

definition REF_WORDS :: "(string \<times> bool) list" where
  "REF_WORDS =
     map (\<lambda>w. (w, True))
       [''close'', ''closes'', ''closed'', ''fix'', ''fixes'', ''fixed'', ''resolve'', ''resolves'', ''resolved'',
        ''implement'', ''implements'', ''implemented'', ''implementing'', ''complete'', ''completes'',
        ''completed'', ''start'', ''starts'', ''started'', ''starting'', ''wip'']
     @ map (\<lambda>w. (w, False))
       [''refs'', ''ref'', ''references'', ''see'', ''related'', ''part'', ''mentions'', ''cc'', ''re'',
        ''tracks'', ''blocks'', ''story'']"

definition NEGATIONS :: "string list" where
  "NEGATIONS = [''not'', ''no'', ''never'', ''without'', ''unless'']"

definition REVERT_SUBJECT_PREFIX :: string where
  "REVERT_SUBJECT_PREFIX = ''Revert '' @ [CHR 0x22]"

definition claim_word :: "string \<Rightarrow> bool" where
  "claim_word word =
     (let folded = to_ascii_lowercase word in
      case find (\<lambda>entry. fst entry = folded) REF_WORDS of None \<Rightarrow> False | Some entry \<Rightarrow> snd entry)"

definition negates :: "string \<Rightarrow> bool" where
  "negates word =
     (let folded = to_ascii_lowercase word in
      folded \<in> set NEGATIONS \<or> ends_with [CHR ''n'', CHR 0x27, CHR ''t''] folded)"

section \<open>Ids in a line\<close>

definition byte_slice :: "string \<Rightarrow> nat \<Rightarrow> nat \<Rightarrow> string" where
  "byte_slice s a b = take (b - a) (drop a s)"

definition digits_from :: "string \<Rightarrow> nat \<Rightarrow> nat" where
  "digits_from line at = at + length (takeWhile is_ascii_digit (drop at line))"

text \<open>The end of the id that starts at a position, when one does.\<close>

definition id_at :: "string \<Rightarrow> string \<Rightarrow> nat \<Rightarrow> nat option" where
  "id_at pre line i =
     (let dash = i + length pre in
      if 0 < i \<and> is_ascii_alphanumeric (line ! (i - 1)) then None
      else if byte_slice line i dash \<noteq> pre then None
      else if length line \<le> dash \<or> line ! dash \<noteq> CHR ''-'' then None
      else if digits_from line (dash + 1) = dash + 1 then None
      else Some (digits_from line (dash + 1)))"

lemma id_at_after: "id_at pre line i = Some e \<Longrightarrow> i < e"
  by (auto simp: id_at_def digits_from_def Let_def split: if_splits)

function ids_from :: "string \<Rightarrow> string \<Rightarrow> nat \<Rightarrow> (nat \<times> nat) list" where
  "ids_from pre line i =
     (if i + length pre < length line
      then (case id_at pre line i of
          None \<Rightarrow> ids_from pre line (i + 1)
        | Some e \<Rightarrow> (i, e) # ids_from pre line e)
      else [])"
  by pat_completeness auto
termination
  by (relation "measure (\<lambda>(pre, line, i). length line - i)") (auto dest: id_at_after)

declare ids_from.simps [simp del]

definition ids_in_line :: "string \<Rightarrow> string \<Rightarrow> (nat \<times> nat) list" where
  "ids_in_line pre line = ids_from pre line 0"

section \<open>Runs and intents\<close>

definition joins_a_run :: "string \<Rightarrow> bool" where
  "joins_a_run gap =
     (let stripped = concat (filter (\<lambda>c. \<not> is_whitespace c \<and> c \<noteq> '','' \<and> c \<noteq> ''&'') (utf8_chars gap)) in
      stripped = [] \<or> eq_ignore_ascii_case stripped ''and'')"

datatype Separator = SepWhitespace | SepColon

text \<open>A backwards scan: how far \<open>at\<close> moves left while the byte before it satisfies \<open>p\<close>.\<close>

fun back_while :: "(char \<Rightarrow> bool) \<Rightarrow> string \<Rightarrow> nat \<Rightarrow> nat" where
  "back_while p s 0 = 0"
| "back_while p s (Suc n) = (if p (s ! n) then back_while p s n else Suc n)"

definition is_blank :: "char \<Rightarrow> bool" where
  "is_blank c \<longleftrightarrow> c = CHR '' '' \<or> c = CHR 9"

definition preceding_word :: "string \<Rightarrow> nat \<Rightarrow> (string \<times> nat \<times> Separator) option" where
  "preceding_word line id_start =
     (let at = (if 0 < id_start \<and> line ! (id_start - 1) = CHR ''#'' then id_start - 1 else id_start);
          whitespace_end = at;
          at = back_while is_blank line at
      in if at = whitespace_end then None
         else (let (at, separator) =
                 (if 0 < at \<and> line ! (at - 1) = CHR '':'' then (at - 1, SepColon) else (at, SepWhitespace));
                 word_end = at;
                 at = back_while is_ascii_alphanumeric line at
               in if at < word_end then Some (byte_slice line at word_end, at, separator) else None))"

definition word_before :: "string \<Rightarrow> nat \<Rightarrow> string" where
  "word_before line word_start =
     (let stop = back_while is_blank line word_start;
          at = back_while (\<lambda>c. is_ascii_alphanumeric c \<or> c = CHR 0x27) line stop
      in byte_slice line at stop)"

definition intent_for_run :: "string \<Rightarrow> nat \<Rightarrow> nat \<Rightarrow> ReferenceIntent" where
  "intent_for_run line run_start run_end =
     (case preceding_word line run_start of
        None \<Rightarrow> Mention
      | Some (word, word_start, separator) \<Rightarrow>
          if \<not> claim_word word then Mention
          else if negates (word_before line word_start) then Mention
          else if separator = SepColon
            \<and> \<not> (let rest = trim (drop run_end line) in rest = [] \<or> rest = ''.'' \<or> rest = '';'')
          then Mention
          else Claim)"

text \<open>The first run of a list of occurrences, and what is left after it.\<close>

fun take_run :: "string \<Rightarrow> (nat \<times> nat) \<Rightarrow> (nat \<times> nat) list \<Rightarrow> (nat \<times> nat) list \<times> (nat \<times> nat) list" where
  "take_run line cur [] = ([cur], [])"
| "take_run line cur (nxt # rest) =
     (if joins_a_run (byte_slice line (snd cur) (fst nxt))
      then (let (run, rest') = take_run line nxt rest in (cur # run, rest'))
      else ([cur], nxt # rest))"

lemma take_run_length: "length (snd (take_run line cur rest)) \<le> length rest"
  by (induction line cur rest rule: take_run.induct) (auto split: prod.split)

record RefState =
  rf_order :: "string list"
  rf_intents :: "(string, ReferenceIntent) btree_map"

definition note_ref :: "ReferenceIntent \<Rightarrow> string \<Rightarrow> RefState \<Rightarrow> RefState" where
  "note_ref intent i st =
     (case btm_get (rf_intents st) i of
        Some existing \<Rightarrow> st\<lparr>rf_intents := btm_insert i (intent_max existing intent) (rf_intents st)\<rparr>
      | None \<Rightarrow> st\<lparr>rf_order := rf_order st @ [i], rf_intents := btm_insert i intent (rf_intents st)\<rparr>)"

function scan_runs :: "bool \<Rightarrow> string \<Rightarrow> (nat \<times> nat) list \<Rightarrow> RefState \<Rightarrow> RefState" where
  "scan_runs suppressed line [] st = st"
| "scan_runs suppressed line (first # rest) st =
     (let (run, rest') = take_run line first rest;
          intent = (if suppressed then Mention else intent_for_run line (fst first) (snd (last run)))
      in scan_runs suppressed line rest' (fold (\<lambda>(a, b). note_ref intent (byte_slice line a b)) run st))"
  by pat_completeness auto
termination
proof (relation "measure (\<lambda>(suppressed, line, occurrences, st). length occurrences)", goal_cases)
  case (2 suppressed line first rest st x run rest' intent)
  then have "rest' = snd (take_run line first rest)" by (metis snd_conv)
  then show ?case using take_run_length [of line first rest] by simp
qed simp

definition scan_line :: "string \<Rightarrow> bool \<Rightarrow> nat \<times> string \<Rightarrow> RefState \<Rightarrow> RefState" where
  "scan_line pre reverted numbered st =
     scan_runs (reverted \<and> fst numbered = 0) (snd numbered) (ids_in_line pre (snd numbered)) st"

definition scan_story_refs :: "string \<Rightarrow> string \<Rightarrow> StoryReference list" where
  "scan_story_refs pre message =
     (let reverted_subject = starts_with REVERT_SUBJECT_PREFIX message;
          st = fold (scan_line pre reverted_subject) (enumerate 0 (lines message)) \<lparr>rf_order = [], rf_intents = []\<rparr>
      in map (\<lambda>i. \<lparr>ref_id = i, ref_intent = the (btm_get (rf_intents st) i)\<rparr>) (rf_order st))"

section \<open>Mentions in comments\<close>

record CommentMention =
  cm_at :: string
  cm_other_id :: string
  cm_snippet :: string

definition SNIPPET_BYTES :: nat where
  "SNIPPET_BYTES = 120"

text \<open>The three bytes of \<open>U+2026\<close>.\<close>

definition SNIPPET_ELLIPSIS :: string where
  "SNIPPET_ELLIPSIS = [CHR 0xE2, CHR 0x80, CHR 0xA6]"

definition SNIPPET_LEAD_IN :: nat where
  "SNIPPET_LEAD_IN = 24"

fun floor_boundary :: "string \<Rightarrow> nat \<Rightarrow> nat" where
  "floor_boundary text 0 = 0"
| "floor_boundary text (Suc n) = (if \<not> is_char_boundary text (Suc n) then floor_boundary text n else Suc n)"

function ceil_boundary :: "string \<Rightarrow> nat \<Rightarrow> nat" where
  "ceil_boundary text at =
     (if at < length text \<and> \<not> is_char_boundary text at then ceil_boundary text (at + 1) else at)"
  by pat_completeness auto
termination
  by (relation "measure (\<lambda>(text, at). length text - at)") auto

declare ceil_boundary.simps [simp del]

definition snippet_window :: "string \<Rightarrow> nat \<Rightarrow> nat \<Rightarrow> nat \<times> nat" where
  "snippet_window trimmed id_start id_end =
     (let inner = SNIPPET_BYTES - 2 * length SNIPPET_ELLIPSIS;
          lead = min SNIPPET_LEAD_IN (inner - (id_end - id_start));
          start = ceil_boundary trimmed (min (id_start - lead) (length trimmed - min inner (length trimmed)));
          stop = floor_boundary trimmed (min (start + inner) (length trimmed))
      in if stop < id_end then (ceil_boundary trimmed (id_end - inner), id_end) else (start, stop))"

definition snippet_for :: "string \<Rightarrow> nat \<Rightarrow> nat \<Rightarrow> string" where
  "snippet_for line id_start id_end =
     (let trimmed = trim line in
      if length trimmed \<le> SNIPPET_BYTES then trimmed
      else (let shift = length line - length (trim_start line);
                (start, stop) = snippet_window trimmed (id_start - shift) (id_end - shift)
            in (if 0 < start then SNIPPET_ELLIPSIS else [])
               @ byte_slice trimmed start stop
               @ (if stop < length trimmed then SNIPPET_ELLIPSIS else [])))"

record MentionState =
  ms_named :: "string list"
  ms_mentions :: "(string, CommentMention list) btree_map"

definition note_mention ::
  "story_map \<Rightarrow> string \<Rightarrow> StoryComment \<Rightarrow> string \<Rightarrow> nat \<times> nat \<Rightarrow> MentionState \<Rightarrow> MentionState" where
  "note_mention stories source_id comment line span st =
     (let target = byte_slice line (fst span) (snd span) in
      if target = source_id \<or> \<not> btm_contains stories target then st
      else if target \<in> set (ms_named st) then st
      else st\<lparr>ms_named := bset_insert target (ms_named st),
              ms_mentions := btm_entry target [] (\<lambda>found. found @
                [\<lparr>cm_at = comment_at comment, cm_other_id = source_id,
                  cm_snippet = snippet_for line (fst span) (snd span)\<rparr>]) (ms_mentions st)\<rparr>)"

definition comment_mentions ::
  "string \<Rightarrow> story_map \<Rightarrow> string \<Rightarrow> StoryComment \<Rightarrow> (string, CommentMention list) btree_map
     \<Rightarrow> (string, CommentMention list) btree_map" where
  "comment_mentions pre stories source_id comment mentions =
     ms_mentions (fold (\<lambda>line. fold (note_mention stories source_id comment line) (ids_in_line pre line))
       (lines (comment_text comment)) \<lparr>ms_named = [], ms_mentions = mentions\<rparr>)"

definition story_mentions ::
  "string \<Rightarrow> story_map \<Rightarrow> string \<times> StorySnapshot \<Rightarrow> (string, CommentMention list) btree_map
     \<Rightarrow> (string, CommentMention list) btree_map" where
  "story_mentions pre stories entry mentions =
     fold (comment_mentions pre stories (fst entry)) (snap_comments (snd entry)) mentions"

text \<open>\<open>sort_by\<close> is stable: the comparison key is the time, then the number, then the id of the source.\<close>

definition mention_key :: "CommentMention \<Rightarrow> string \<times> nat \<times> string" where
  "mention_key m = (cm_at m, story_number (cm_other_id m), cm_other_id m)"

definition derive_comment_mentions :: "string \<Rightarrow> story_map \<Rightarrow> (string, CommentMention list) btree_map" where
  "derive_comment_mentions pre stories =
     map (\<lambda>(i, found). (i, sort_key mention_key found)) (fold (story_mentions pre stories) stories [])"

section \<open>The scan finds ids and only ids\<close>

text \<open>What the text at an occurrence looks like: the prefix, a dash and a maximal run of digits.\<close>

definition id_shape :: "string \<Rightarrow> string \<Rightarrow> nat \<Rightarrow> nat \<Rightarrow> bool" where
  "id_shape pre line s e \<longleftrightarrow>
     (s = 0 \<or> \<not> is_ascii_alphanumeric (line ! (s - 1)))
     \<and> (\<exists>ds t. drop s line = pre @ CHR ''-'' # ds @ t \<and> ds \<noteq> [] \<and> list_all is_ascii_digit ds
          \<and> (t = [] \<or> \<not> is_ascii_digit (hd t)) \<and> e = s + length pre + 1 + length ds)"

lemma takeWhile_run: "list_all p ds \<Longrightarrow> t = [] \<or> \<not> p (hd t) \<Longrightarrow> takeWhile p (ds @ t) = ds"
  by (induction ds) (auto simp: takeWhile_eq_Nil_iff)

lemma id_at_shape: "id_at pre line s = Some e \<longleftrightarrow> id_shape pre line s e"
proof
  assume some: "id_at pre line s = Some e"
  let ?dash = "s + length pre"
  let ?r = "drop s line"
  have pre: "take (length pre) ?r = pre" and dash: "?dash < length line" "line ! ?dash = CHR ''-''"
    and e: "e = digits_from line (?dash + 1)" "e \<noteq> ?dash + 1"
    and left: "s = 0 \<or> \<not> is_ascii_alphanumeric (line ! (s - 1))"
    using some by (auto simp: id_at_def byte_slice_def Let_def split: if_splits)
  let ?ds = "takeWhile is_ascii_digit (drop (?dash + 1) line)"
  let ?t = "dropWhile is_ascii_digit (drop (?dash + 1) line)"
  have "?r = take (length pre) ?r @ line ! ?dash # drop (?dash + 1) line"
    using dash(1) by (metis Cons_nth_drop_Suc Suc_eq_plus1 append_take_drop_id drop_drop add.commute)
  then have "?r = pre @ CHR ''-'' # ?ds @ ?t" using pre dash(2) by simp
  moreover have "list_all is_ascii_digit ?ds" by (auto simp: list_all_iff dest: set_takeWhileD)
  moreover have "?t = [] \<or> \<not> is_ascii_digit (hd ?t)" using hd_dropWhile by blast
  moreover have "?ds \<noteq> []" and "e = s + length pre + 1 + length ?ds" using e by (auto simp: digits_from_def)
  ultimately show "id_shape pre line s e" using left unfolding id_shape_def by blast
next
  assume "id_shape pre line s e"
  then obtain ds t where left: "s = 0 \<or> \<not> is_ascii_alphanumeric (line ! (s - 1))"
    and r: "drop s line = pre @ CHR ''-'' # ds @ t" and ds: "ds \<noteq> []" "list_all is_ascii_digit ds"
    and t: "t = [] \<or> \<not> is_ascii_digit (hd t)" and e: "e = s + length pre + 1 + length ds"
    by (auto simp: id_shape_def)
  have len: "length line = s + length pre + 1 + length ds + length t"
    using arg_cong [OF r, of length] ds by (cases "s \<le> length line") auto
  have "line ! (s + length pre) = drop s line ! length pre" using len by (simp add: add.commute)
  then have "line ! (s + length pre) = CHR ''-''" using r by simp
  moreover have "drop (s + length pre + 1) line = ds @ t"
    using arg_cong [OF r, of "drop (length pre + 1)"] by (simp add: add.commute add.left_commute)
  moreover have "byte_slice line s (s + length pre) = pre" using r by (simp add: byte_slice_def)
  ultimately show "id_at pre line s = Some e"
    using left len ds e takeWhile_run [OF ds(2) t] by (auto simp: id_at_def digits_from_def Let_def)
qed

text \<open>A project prefix: letters and digits, starting with a letter.\<close>

definition id_prefix :: "string \<Rightarrow> bool" where
  "id_prefix pre \<longleftrightarrow> pre \<noteq> [] \<and> list_all is_ascii_alphanumeric pre \<and> \<not> is_ascii_digit (hd pre)"

lemma id_shape_bound: "id_shape pre line s e \<Longrightarrow> s + length pre < length line \<and> e \<le> length line \<and> s < e"
proof -
  assume "id_shape pre line s e"
  then obtain ds t where r: "drop s line = pre @ CHR ''-'' # ds @ t" and e: "e = s + length pre + 1 + length ds"
    by (auto simp: id_shape_def)
  have "length line - s = length pre + 1 + length ds + length t" using arg_cong [OF r, of length] by simp
  then show ?thesis using e by linarith
qed

text \<open>No id starts inside another one.\<close>

lemma no_id_inside:
  assumes "id_prefix pre" and "id_shape pre line s e" and "s < j" and "j < e"
  shows "\<not> id_shape pre line j e'"
proof
  assume inner: "id_shape pre line j e'"
  obtain ds t where r: "drop s line = pre @ CHR ''-'' # ds @ t" and ds: "list_all is_ascii_digit ds"
    and e: "e = s + length pre + 1 + length ds"
    using assms(2) by (auto simp: id_shape_def)
  have nth: "line ! (s + k) = (pre @ CHR ''-'' # ds @ t) ! k" for k
    using r id_shape_bound [OF assms(2)] by (metis less_imp_le_nat nth_drop add_leE)
  show False
  proof (cases "j \<le> s + length pre")
    case True
    then have "line ! (j - 1) = pre ! (j - 1 - s)" using nth [of "j - 1 - s"] assms(3) by (auto simp: nth_append)
    moreover have "pre ! (j - 1 - s) \<in> set pre" using True assms(3) by auto
    ultimately have "is_ascii_alphanumeric (line ! (j - 1))" using assms(1) by (auto simp: id_prefix_def list_all_iff)
    then show False using inner assms(3) by (auto simp: id_shape_def)
  next
    case False
    let ?k = "j - s - (length pre + 1)"
    have "j = s + (length pre + 1 + ?k)" and k: "?k < length ds" using False assms(4) e by auto
    then have "line ! j = ds ! ?k" using nth [of "length pre + 1 + ?k"] by (auto simp: nth_append)
    then have "is_ascii_digit (line ! j)" using ds k by (auto simp: list_all_iff)
    moreover have "line ! j = hd pre"
    proof -
      obtain ds' t' where r': "drop j line = pre @ CHR ''-'' # ds' @ t'" using inner by (auto simp: id_shape_def)
      have "line ! j = hd (drop j line)" using id_shape_bound [OF inner] by (simp add: hd_drop_conv_nth)
      then show ?thesis using r' assms(1) by (simp add: id_prefix_def)
    qed
    ultimately show False using assms(1) by (simp add: id_prefix_def)
  qed
qed

lemma ids_from_exact:
  "id_prefix pre \<Longrightarrow> set (ids_from pre line i) = {(s, e). i \<le> s \<and> id_shape pre line s e}"
proof (induction pre line i rule: ids_from.induct)
  case (1 pre line i)
  show ?case
  proof (cases "i + length pre < length line")
    case False
    then show ?thesis using id_shape_bound by (subst ids_from.simps) fastforce
  next
    case True
    show ?thesis
    proof (cases "id_at pre line i")
      case None
      then have "\<not> id_shape pre line i e" for e using id_at_shape by (metis option.distinct(1))
      then have "{(s, e). i \<le> s \<and> id_shape pre line s e} = {(s, e). i + 1 \<le> s \<and> id_shape pre line s e}"
        by (auto simp: Suc_le_eq order.order_iff_strict)
      then show ?thesis using "1.IH"(1) [OF True None "1.prems"] None True by (subst ids_from.simps) simp
    next
      case (Some e)
      then have shape: "id_shape pre line i e" by (simp add: id_at_shape)
      have one: "e' = e" if "id_shape pre line i e'" for e' using that Some id_at_shape by (metis option.inject)
      have bound: "i < e" using id_shape_bound [OF shape] by simp
      have split: "i \<le> s \<and> id_shape pre line s e' \<longleftrightarrow> (s, e') = (i, e) \<or> e \<le> s \<and> id_shape pre line s e'" for s e'
      proof -
        consider "s < i" | "s = i" | "i < s" "s < e" | "e \<le> s" by linarith
        then show ?thesis
        proof cases
          case 2
          then show ?thesis using one [of e'] shape bound by fastforce
        next
          case 3
          then show ?thesis using no_id_inside [OF "1.prems" shape] by auto
        qed (use bound in auto)
      qed
      have "{(s, e). i \<le> s \<and> id_shape pre line s e} = insert (i, e) {(s, e'). e \<le> s \<and> id_shape pre line s e'}"
        unfolding split by auto
      then show ?thesis using "1.IH"(2) [OF True Some "1.prems"] Some True by (subst ids_from.simps) simp
    qed
  qed
qed

text \<open>
  C38. The scan of a line finds exactly the ids in it: an occurrence is reported if and only if the text
  there is the prefix, a dash and a maximal, non-empty run of digits, with no letter or digit before it.
\<close>

theorem ids_in_line_exact:
  assumes "id_prefix pre"
  shows "(s, e) \<in> set (ids_in_line pre line) \<longleftrightarrow>
    (s = 0 \<or> \<not> is_ascii_alphanumeric (line ! (s - 1)))
    \<and> (\<exists>ds t. drop s line = pre @ CHR ''-'' # ds @ t \<and> ds \<noteq> [] \<and> list_all is_ascii_digit ds
         \<and> (t = [] \<or> \<not> is_ascii_digit (hd t)) \<and> e = s + length pre + 1 + length ds)"
  using ids_from_exact [OF assms, of line 0] by (simp add: ids_in_line_def id_shape_def)

theorem ids_in_line_exact_witness:
  "(4, 9) \<in> set (ids_in_line ''SH'' ''see SH-12, PUSH-3'')
    \<longleftrightarrow> (\<exists>ds t. drop 4 ''see SH-12, PUSH-3'' = ''SH-'' @ ds @ t \<and> ds \<noteq> [] \<and> list_all is_ascii_digit ds
          \<and> (t = [] \<or> \<not> is_ascii_digit (hd t)) \<and> 9 = 4 + 2 + 1 + length ds)"
proof -
  have "id_prefix ''SH''" by code_simp
  from ids_in_line_exact [OF this, of 4 9 "''see SH-12, PUSH-3''"] show ?thesis
    by (simp add: ascii_class_defs)
qed

section \<open>References of a message\<close>

text \<open>The notes a scan takes, in order: an intent and an id for every occurrence.\<close>

function run_notes :: "bool \<Rightarrow> string \<Rightarrow> (nat \<times> nat) list \<Rightarrow> (ReferenceIntent \<times> string) list" where
  "run_notes suppressed line [] = []"
| "run_notes suppressed line (first # rest) =
     (let (run, rest') = take_run line first rest;
          intent = (if suppressed then Mention else intent_for_run line (fst first) (snd (last run)))
      in map (\<lambda>(a, b). (intent, byte_slice line a b)) run @ run_notes suppressed line rest')"
  by pat_completeness auto
termination
proof (relation "measure (\<lambda>(suppressed, line, occurrences). length occurrences)", goal_cases)
  case (2 suppressed line first rest x run rest' intent)
  then have "rest' = snd (take_run line first rest)" by (metis snd_conv)
  then show ?case using take_run_length [of line first rest] by simp
qed simp

definition message_notes :: "string \<Rightarrow> string \<Rightarrow> (ReferenceIntent \<times> string) list" where
  "message_notes pre message =
     concat (map (\<lambda>(n, line). run_notes (starts_with REVERT_SUBJECT_PREFIX message \<and> n = 0) line (ids_in_line pre line))
       (enumerate 0 (lines message)))"

definition take_note :: "ReferenceIntent \<times> string \<Rightarrow> RefState \<Rightarrow> RefState" where
  "take_note nt = note_ref (fst nt) (snd nt)"

lemma take_run_split: "take_run line cur rest = (run, rest') \<Longrightarrow> run @ rest' = cur # rest"
  by (induction line cur rest arbitrary: run rest' rule: take_run.induct) (auto split: if_splits prod.splits)

lemma fold_notes: "fold (\<lambda>(a, b). note_ref intent (byte_slice line a b)) run = fold take_note (map (\<lambda>(a, b). (intent, byte_slice line a b)) run)"
  by (simp add: fold_map take_note_def comp_def case_prod_unfold)

lemma scan_runs_notes: "scan_runs suppressed line occs st = fold take_note (run_notes suppressed line occs) st"
proof (induction suppressed line occs st rule: scan_runs.induct)
  case (2 suppressed line first rest st)
  obtain run rest' where "take_run line first rest = (run, rest')" by fastforce
  then show ?case using 2 by (simp add: fold_notes Let_def)
qed simp

lemma run_notes_ids: "map snd (run_notes suppressed line occs) = map (\<lambda>(a, b). byte_slice line a b) occs"
proof (induction suppressed line occs rule: run_notes.induct)
  case (2 suppressed line first rest)
  obtain run rest' where run: "take_run line first rest = (run, rest')" by fastforce
  then have "map snd (run_notes suppressed line (first # rest)) = map (\<lambda>(a, b). byte_slice line a b) (run @ rest')"
    using 2 by (simp add: Let_def comp_def split_beta)
  then show ?case by (simp only: take_run_split [OF run])
qed simp

lemma run_notes_suppressed: "nt \<in> set (run_notes True line occs) \<Longrightarrow> fst nt = Mention"
proof (induction True line occs rule: run_notes.induct)
  case (2 line first rest)
  obtain run rest' where "take_run line first rest = (run, rest')" by fastforce
  then show ?case using 2 by (auto simp: Let_def)
qed simp

text \<open>The state after some notes: each id once, in the order of first appearance, with its strongest intent.\<close>

definition noted :: "(ReferenceIntent \<times> string) list \<Rightarrow> RefState \<Rightarrow> bool" where
  "noted ks st \<longleftrightarrow>
     distinct (rf_order st) \<and> set (rf_order st) = snd ` set ks
     \<and> (\<forall>i. btm_get (rf_intents st) i =
          (if i \<in> snd ` set ks then Some (if (Claim, i) \<in> set ks then Claim else Mention) else None))"

lemma intent_cases: "x \<noteq> Claim \<longleftrightarrow> x = Mention"
  by (cases x) simp_all

lemma noted_step:
  assumes "noted ks st"
  shows "noted (ks @ [nt]) (take_note nt st)"
proof (cases nt)
  case (Pair intent i)
  show ?thesis
  proof (cases "i \<in> snd ` set ks")
    case True
    then show ?thesis using assms Pair
      by (cases intent) (auto simp: noted_def take_note_def note_ref_def)
  next
    case False
    then have "(x, i) \<notin> set ks" for x by force
    then show ?thesis using assms Pair False
      by (cases intent) (auto simp: noted_def take_note_def note_ref_def)
  qed
qed

lemma noted_fold: "noted ks st \<Longrightarrow> noted (ks @ ns) (fold take_note ns st)"
proof (induction ns arbitrary: ks st)
  case (Cons nt ns)
  from Cons.IH [OF noted_step [OF Cons.prems, of nt]] show ?case by simp
qed simp

lemma scan_lines_notes:
  "fold (scan_line pre reverted) numbered st =
     fold take_note (concat (map (\<lambda>(n, line). run_notes (reverted \<and> n = 0) line (ids_in_line pre line)) numbered)) st"
  by (induction numbered arbitrary: st) (auto simp: scan_line_def scan_runs_notes)

lemma scan_notes:
  "\<exists>st. noted (message_notes pre message) st
     \<and> scan_story_refs pre message = map (\<lambda>i. \<lparr>ref_id = i, ref_intent = the (btm_get (rf_intents st) i)\<rparr>) (rf_order st)"
proof -
  have "noted [] \<lparr>rf_order = [], rf_intents = []\<rparr>" by (simp add: noted_def)
  from noted_fold [OF this, of "message_notes pre message"] show ?thesis
    by (auto simp: scan_story_refs_def scan_lines_notes message_notes_def Let_def)
qed

lemma message_ids:
  "map snd (message_notes pre message) =
     concat (map (\<lambda>line. map (\<lambda>(a, b). byte_slice line a b) (ids_in_line pre line)) (lines message))"
proof -
  have "map snd (message_notes pre message) =
      concat (map (\<lambda>x. map (\<lambda>(a, b). byte_slice (snd x) a b) (ids_in_line pre (snd x))) (enumerate 0 (lines message)))"
    by (simp add: message_notes_def map_concat comp_def case_prod_unfold run_notes_ids)
  also have "\<dots> = concat (map (\<lambda>line. map (\<lambda>(a, b). byte_slice line a b) (ids_in_line pre line))
      (map snd (enumerate 0 (lines message))))"
    by (simp only: map_map comp_def)
  finally show ?thesis by (simp only: map_snd_enumerate)
qed

lemma note_of_ref:
  assumes "noted ks st" and "i \<in> set (rf_order st)"
    and "ref_claims \<lparr>ref_id = i, ref_intent = the (btm_get (rf_intents st) i)\<rparr>"
  shows "(Claim, i) \<in> set ks"
  using assms by (simp add: noted_def ref_claims_def split: if_splits)

text \<open>
  The references of a commit message are the ids its lines name, each listed once; and a message
  whose subject is a generated revert claims a story only through a line after the subject.
\<close>

theorem scan_story_refs_spec:
  "distinct (map ref_id (scan_story_refs pre message))
    \<and> ref_id ` set (scan_story_refs pre message) =
        (\<Union>line \<in> set (lines message). (\<lambda>(a, b). byte_slice line a b) ` set (ids_in_line pre line))
    \<and> (starts_with REVERT_SUBJECT_PREFIX message \<longrightarrow>
        (\<forall>r \<in> set (scan_story_refs pre message). ref_claims r \<longrightarrow>
          (\<exists>line \<in> set (tl (lines message)). ref_id r \<in> (\<lambda>(a, b). byte_slice line a b) ` set (ids_in_line pre line))))"
proof -
  obtain st where noted: "noted (message_notes pre message) st"
    and refs: "scan_story_refs pre message = map (\<lambda>i. \<lparr>ref_id = i, ref_intent = the (btm_get (rf_intents st) i)\<rparr>) (rf_order st)"
    using scan_notes by blast
  have ids: "snd ` set (run_notes b line (ids_in_line pre line)) = (\<lambda>(a, b). byte_slice line a b) ` set (ids_in_line pre line)"
    for b line using arg_cong [OF run_notes_ids, of set] by simp
  have distinct: "distinct (map ref_id (scan_story_refs pre message))" using noted by (simp add: refs noted_def comp_def)
  have "ref_id ` set (scan_story_refs pre message) = snd ` set (message_notes pre message)"
    using noted by (simp add: refs noted_def image_image)
  then have all: "ref_id ` set (scan_story_refs pre message) =
      (\<Union>line \<in> set (lines message). (\<lambda>(a, b). byte_slice line a b) ` set (ids_in_line pre line))"
    using arg_cong [OF message_ids, of set pre message] by simp
  have "\<exists>line \<in> set (tl (lines message)). ref_id r \<in> (\<lambda>(a, b). byte_slice line a b) ` set (ids_in_line pre line)"
    if rev: "starts_with REVERT_SUBJECT_PREFIX message" and r: "r \<in> set (scan_story_refs pre message)" "ref_claims r" for r
  proof -
    have "(Claim, ref_id r) \<in> set (message_notes pre message)"
      using note_of_ref [OF noted] r unfolding refs by auto
    then obtain n line where n: "(n, line) \<in> set (enumerate 0 (lines message))"
      and nt: "(Claim, ref_id r) \<in> set (run_notes (n = 0) line (ids_in_line pre line))"
      using rev by (auto simp: message_notes_def)
    then have "n \<noteq> 0" using run_notes_suppressed by fastforce
    then have "line \<in> set (tl (lines message))"
      using n by (cases "lines message") (auto simp: in_set_enumerate_eq nth_Cons' split: if_splits)
    moreover have "ref_id r \<in> snd ` set (run_notes (n = 0) line (ids_in_line pre line))" using nt by force
    ultimately show ?thesis using ids by blast
  qed
  with distinct all show ?thesis by blast
qed

definition sample_revert :: string where
  "sample_revert = REVERT_SUBJECT_PREFIX @ ''Closes SH-1'' @ [CHR 10] @ ''Closes SH-2''"

lemma sample_revert_refs:
  "starts_with REVERT_SUBJECT_PREFIX sample_revert"
  "scan_story_refs ''SH'' sample_revert
     = [\<lparr>ref_id = ''SH-1'', ref_intent = Mention\<rparr>, \<lparr>ref_id = ''SH-2'', ref_intent = Claim\<rparr>]"
  by code_simp+

theorem scan_story_refs_spec_witness:
  "\<exists>line \<in> set (tl (lines sample_revert)). ''SH-2'' \<in> (\<lambda>(a, b). byte_slice line a b) ` set (ids_in_line ''SH'' line)"
proof -
  let ?r = "\<lparr>ref_id = ''SH-2'', ref_intent = Claim\<rparr>"
  have "?r \<in> set (scan_story_refs ''SH'' sample_revert)" "ref_claims ?r"
    by (simp_all add: sample_revert_refs(2) ref_claims_def)
  then show ?thesis
    using scan_story_refs_spec [of "''SH''" sample_revert] sample_revert_refs(1) by fastforce
qed

section \<open>Snippets\<close>

lemma floor_boundary_le: "floor_boundary w n \<le> n"
  by (induction n) auto

lemma ceil_boundary_ge: "k \<le> ceil_boundary w k"
proof (induction w k rule: ceil_boundary.induct)
  case (1 w k)
  then show ?case by (subst ceil_boundary.simps) auto
qed

lemma ceil_boundary_below:
  "is_char_boundary w b \<Longrightarrow> k \<le> b \<Longrightarrow> b \<le> length w \<Longrightarrow> ceil_boundary w k \<le> b"
proof (induction w k rule: ceil_boundary.induct)
  case (1 w k)
  then show ?case by (cases "k = b") (subst ceil_boundary.simps, auto)+
qed

lemma snippet_window_bounds:
  assumes "id_start < id_end" "id_end \<le> length t" "is_char_boundary t id_start"
    and "id_end - id_start \<le> 114" and "snippet_window t id_start id_end = (start, stop)"
  shows "start \<le> id_start \<and> id_end \<le> stop \<and> stop \<le> length t \<and> stop - start \<le> 114"
proof -
  define lower where "lower = min (id_start - min SNIPPET_LEAD_IN (114 - (id_end - id_start))) (length t - min 114 (length t))"
  define start0 where "start0 = ceil_boundary t lower"
  define stop0 where "stop0 = floor_boundary t (min (start0 + 114) (length t))"
  define start1 where "start1 = ceil_boundary t (id_end - 114)"
  have inner: "SNIPPET_BYTES - 2 * length SNIPPET_ELLIPSIS = 114"
    by (simp add: SNIPPET_BYTES_def SNIPPET_ELLIPSIS_def)
  have "snippet_window t id_start id_end = (if stop0 < id_end then (start1, id_end) else (start0, stop0))"
    unfolding snippet_window_def Let_def inner start1_def stop0_def start0_def lower_def by (rule refl)
  then have window: "(start, stop) = (if stop0 < id_end then (start1, id_end) else (start0, stop0))"
    by (simp only: assms(5))
  have "stop0 \<le> min (start0 + 114) (length t)" unfolding stop0_def by (rule floor_boundary_le)
  then have stop0: "stop0 \<le> start0 + 114" "stop0 \<le> length t" by simp_all
  have "lower \<le> id_start" by (simp add: lower_def min_le_iff_disj)
  then have start0: "start0 \<le> id_start" unfolding start0_def using assms(1-3) by (intro ceil_boundary_below) linarith+
  have start1: "start1 \<le> id_start" unfolding start1_def using assms by (intro ceil_boundary_below) linarith+
  have low: "id_end - 114 \<le> start1" unfolding start1_def by (rule ceil_boundary_ge)
  show ?thesis
  proof (cases "stop0 < id_end")
    case True
    then have "start = start1" "stop = id_end" using window by simp_all
    then show ?thesis using start1 low assms(2) by linarith
  next
    case False
    then have "start = start0" "stop = stop0" using window by simp_all
    then show ?thesis using start0 stop0 False by linarith
  qed
qed

lemma byte_slice_split: "a \<le> s \<Longrightarrow> s \<le> b \<Longrightarrow> byte_slice t a b = byte_slice t a s @ byte_slice t s b"
  using take_add [of "s - a" "b - s" "drop a t"] by (simp add: byte_slice_def)

lemma byte_slice_within:
  "a \<le> s \<Longrightarrow> s \<le> e \<Longrightarrow> e \<le> b \<Longrightarrow> \<exists>u v. byte_slice t a b = u @ byte_slice t s e @ v"
  using byte_slice_split [of a s b t] byte_slice_split [of s e b t] by auto

lemma trim_with_removed: "\<exists>p. s = p @ trim_with ws s \<and> set p \<subseteq> (\<Union>w \<in> set ws. set w)"
proof (induction ws s rule: trim_with.induct)
  case (1 ws s)
  show ?case
  proof (cases "strip_one ws s")
    case (Some r)
    then obtain w where w: "w \<in> set ws" "s = w @ r" using strip_one_Some by blast
    obtain p where p: "r = p @ trim_with ws r" "set p \<subseteq> (\<Union>w \<in> set ws. set w)" using "1.IH" [OF Some] by blast
    have "s = (w @ p) @ trim_with ws s" using Some w(2) p(1) by (subst trim_with.simps) simp
    moreover have "set (w @ p) \<subseteq> (\<Union>w \<in> set ws. set w)" using w(1) p(2) by auto
    ultimately show ?thesis by blast
  qed (subst trim_with.simps, auto)
qed

definition blank_bytes :: "char set" where
  "blank_bytes = (\<Union>w \<in> set white_space. set w)"

lemma trim_removed:
  "\<exists>a b. trim_start s = trim s @ b \<and> s = a @ trim s @ b \<and> set a \<subseteq> blank_bytes \<and> set b \<subseteq> blank_bytes"
proof -
  obtain a where a: "s = a @ trim_start s" "set a \<subseteq> blank_bytes"
    using trim_with_removed [of s white_space] unfolding trim_start_def blank_bytes_def by blast
  obtain p where p: "rev (trim_start s) = p @ trim_with (map rev white_space) (rev (trim_start s))"
    "set p \<subseteq> (\<Union>w \<in> set (map rev white_space). set w)"
    using trim_with_removed by blast
  have "trim_start s = trim s @ rev p" using p(1) unfolding trim_def trim_end_def by (metis rev_append rev_rev_ident)
  moreover have "set (rev p) \<subseteq> blank_bytes" using p(2) by (auto simp: blank_bytes_def)
  ultimately show ?thesis using a by metis
qed

lemma alphanumeric_not_blank: "is_ascii_alphanumeric c \<Longrightarrow> c \<notin> blank_bytes"
  by (auto simp: blank_bytes_def white_space_def ascii_class_defs)

lemma alphanumeric_not_continuation: "is_ascii_alphanumeric c \<Longrightarrow> \<not> is_continuation c"
  by (auto simp: is_continuation_def ascii_class_defs)

lemma digit_alphanumeric: "is_ascii_digit c \<Longrightarrow> is_ascii_alphanumeric c"
  by (simp add: is_ascii_alphanumeric_def)

lemma id_ends:
  assumes "id_prefix pre" and "id_shape pre line s e"
  shows "is_ascii_alphanumeric (line ! s)" and "is_ascii_alphanumeric (line ! (e - 1))"
proof -
  obtain ds t where r: "drop s line = pre @ CHR ''-'' # ds @ t" and ds: "ds \<noteq> []" "list_all is_ascii_digit ds"
    and e: "e = s + length pre + 1 + length ds"
    using assms(2) by (auto simp: id_shape_def)
  have bound: "s < length line" using id_shape_bound [OF assms(2)] by simp
  have "line ! s = hd (drop s line)" using bound by (simp add: hd_drop_conv_nth)
  then show "is_ascii_alphanumeric (line ! s)" using r assms(1) by (simp add: id_prefix_def list_all_iff)
  have "line ! (e - 1) = drop s line ! (length pre + length ds)" using bound e by (simp add: add.assoc)
  also have "\<dots> = last ds" using r ds(1) by (simp add: nth_append last_conv_nth)
  finally show "is_ascii_alphanumeric (line ! (e - 1))"
    using ds digit_alphanumeric by (auto simp: list_all_iff)
qed

text \<open>A byte that is no blank lies outside the blanks that were trimmed.\<close>

lemma outside_blanks:
  assumes "line = a @ t @ b" and "set a \<subseteq> B" and "set b \<subseteq> B" and "line ! i \<notin> B" and "i < length line"
  shows "length a \<le> i \<and> i < length a + length t"
proof (rule ccontr)
  assume "\<not> ?thesis"
  then have "line ! i \<in> set a \<or> line ! i \<in> set b" using assms(1,5) by (auto simp: nth_append)
  then show False using assms(2-4) by auto
qed

text \<open>
  A snippet is bounded evidence: for an id of the scan that is at most 114 bytes long, the snippet is at most 120 bytes and contains the id, however long the line is.
\<close>

theorem snippet_shows_id:
  assumes "id_prefix pre" and "(s, e) \<in> set (ids_in_line pre line)" and "e - s \<le> 114"
  shows "length (snippet_for line s e) \<le> SNIPPET_BYTES
    \<and> (\<exists>u v. snippet_for line s e = u @ byte_slice line s e @ v)"
proof -
  have shape: "id_shape pre line s e" using assms(2) ids_from_exact [OF assms(1), of line 0] by (simp add: ids_in_line_def)
  obtain a b where ab: "trim_start line = trim line @ b" "line = a @ trim line @ b"
    "set a \<subseteq> blank_bytes" "set b \<subseteq> blank_bytes" using trim_removed by blast
  have se: "s < e" "e \<le> length line" using id_shape_bound [OF shape] by auto
  have "e - 1 < length line" "s < length line" using se by linarith+
  then have "length a \<le> s" "e - 1 < length a + length (trim line)"
    using outside_blanks [OF ab(2-4), of s] outside_blanks [OF ab(2-4), of "e - 1"] se
      alphanumeric_not_blank [OF id_ends(1) [OF assms(1) shape]] alphanumeric_not_blank [OF id_ends(2) [OF assms(1) shape]]
    by blast+
  then have inside: "length a \<le> s" "e \<le> length a + length (trim line)" using se by linarith+
  let ?t = "trim line"
  let ?s = "s - length a"
  let ?e = "e - length a"
  have slice: "byte_slice line s e = byte_slice ?t ?s ?e"
    using inside se by (subst ab(2)) (simp add: byte_slice_def)
  have shift: "length line - length (trim_start line) = length a"
    using arg_cong [OF ab(2), of length] arg_cong [OF ab(1), of length] by simp
  show ?thesis
  proof (cases "length ?t \<le> SNIPPET_BYTES")
    case True
    then show ?thesis using byte_slice_within [of 0 ?s ?e "length ?t" ?t] inside se slice
      by (simp add: snippet_for_def byte_slice_def)
  next
    case False
    obtain start stop where w: "snippet_window ?t ?s ?e = (start, stop)" by fastforce
    have "?t ! ?s = line ! s" using inside se by (subst (2) ab(2)) (auto simp: nth_append)
    then have "is_char_boundary ?t ?s"
      using id_ends(1) [OF assms(1) shape] inside se by (auto simp: is_char_boundary_def alphanumeric_not_continuation)
    then have win: "start \<le> ?s" "?e \<le> stop" "stop \<le> length ?t" "stop - start \<le> 114"
      using snippet_window_bounds [OF _ _ _ _ w] inside se assms(3) by auto
    moreover have "?s \<le> ?e" using se by linarith
    ultimately obtain u v where "byte_slice ?t start stop = u @ byte_slice ?t ?s ?e @ v"
      using byte_slice_within by blast
    moreover have "length (byte_slice ?t start stop) \<le> 114" using win(4) by (simp add: byte_slice_def)
    ultimately show ?thesis using False w slice
      by (simp add: snippet_for_def shift Let_def SNIPPET_BYTES_def SNIPPET_ELLIPSIS_def) (metis append.assoc append_Cons append_Nil)
  qed
qed

theorem snippet_shows_id_witness:
  "length (snippet_for (replicate 90 (CHR ''x'') @ '' SH-7 '' @ replicate 90 (CHR ''y'')) 91 95) \<le> SNIPPET_BYTES
    \<and> (\<exists>u v. snippet_for (replicate 90 (CHR ''x'') @ '' SH-7 '' @ replicate 90 (CHR ''y'')) 91 95 = u @ ''SH-7'' @ v)"
proof -
  let ?line = "replicate 90 (CHR ''x'') @ '' SH-7 '' @ replicate 90 (CHR ''y'')"
  have pre: "id_prefix ''SH''" and found: "(91, 95) \<in> set (ids_in_line ''SH'' ?line)"
    and id: "byte_slice ?line 91 95 = ''SH-7''" by code_simp+
  show ?thesis using snippet_shows_id [OF pre found] unfolding id by simp
qed

end
