(* ===== verification/Story_Ids.thy ===== *)
theory Story_Ids
  imports Story_Refs
begin

text \<open>
  Story ids: the project prefix (\<^verbatim>\<open>src/src/domain/prefix.rs\<close>) and the id newtypes (\<^verbatim>\<open>src/src/store/ids.rs\<close>).
  A story number is the \<open>i64\<close> of the source, an \<open>int\<close> in its range.  The theorems: printing and parsing
  an id are inverse, a token names a story of the selected project in exactly two ways, the suggested
  prefix always passes the gate, and what a project mints the scanner finds and the ranking reads.
\<close>

section \<open>Prefixes\<close>

definition DEFAULT_PREFIX :: string where
  "DEFAULT_PREFIX = ''SH''"

definition MAX_LEN :: nat where
  "MAX_LEN = 10"

definition MAX_INITIALS :: nat where
  "MAX_INITIALS = 4"

definition SINGLE_PART_LEN :: nat where
  "SINGLE_PART_LEN = 3"

text \<open>A predicate on ASCII bytes, read on the encoding of a character.\<close>

definition on_ascii :: "(char \<Rightarrow> bool) \<Rightarrow> string \<Rightarrow> bool" where
  "on_ascii p ch = (case ch of [c] \<Rightarrow> p c | _ \<Rightarrow> False)"

text \<open>The refusal; the dashes of the message are \<open>U+2013\<close> and \<open>U+2014\<close>.\<close>

definition prefix_refusal :: "string \<Rightarrow> string \<Rightarrow> AppError" where
  "prefix_refusal raw because =
     Validation (''invalid story-id prefix `'' @ raw @ ''`: '' @ because @ ''. A prefix is 1''
       @ [CHR 0xE2, CHR 0x80, CHR 0x93] @ nat_str MAX_LEN
       @ '' characters, starts with a letter and holds only letters and digits ''
       @ [CHR 0xE2, CHR 0x80, CHR 0x94]
       @ '' it becomes the first half of every story id this project ever mints, as in `SH-1`.'')"

definition validate_prefix :: "string \<Rightarrow> string result" where
  "validate_prefix raw =
     (let canonical = to_ascii_uppercase raw in
      case utf8_chars canonical of
        [] \<Rightarrow> Inl (prefix_refusal raw ''it is empty'')
      | first # rest \<Rightarrow>
          if \<not> on_ascii is_ascii_alphabetic first then Inl (prefix_refusal raw ''it does not start with a letter'')
          else if MAX_LEN < char_count canonical then Inl (prefix_refusal raw ''it is too long'')
          else (case find (\<lambda>c. \<not> on_ascii is_ascii_alphanumeric c) rest of
              Some bad \<Rightarrow> Inl (prefix_refusal raw (''`'' @ bad @ ''` is neither a letter nor a digit''))
            | None \<Rightarrow> Inr canonical))"

fun alnum_parts :: "string \<Rightarrow> string list" where
  "alnum_parts [] = [[]]"
| "alnum_parts (c # s) =
     (if is_ascii_alphanumeric c then (case alnum_parts s of [] \<Rightarrow> [[c]] | w # ws \<Rightarrow> (c # w) # ws)
      else [] # alnum_parts s)"

definition derive_prefix :: "string \<Rightarrow> string" where
  "derive_prefix basename =
     (let parts = filter (\<lambda>part. part \<noteq> []) (alnum_parts basename);
          candidate = (case parts of
              [] \<Rightarrow> []
            | [single] \<Rightarrow> take SINGLE_PART_LEN single
            | many \<Rightarrow> map hd (take MAX_INITIALS many))
      in case validate_prefix candidate of Inr p \<Rightarrow> p | Inl _ \<Rightarrow> DEFAULT_PREFIX)"

section \<open>Story numbers and ids\<close>

text \<open>The variant of the store's error these parsers build.\<close>

datatype StoreError = StoreValidation string

datatype NotANumber = NonNumeric | Malformed

fun not_a_number_str :: "NotANumber \<Rightarrow> string" where
  "not_a_number_str NonNumeric = ''non-numeric story''"
| "not_a_number_str Malformed = ''malformed story''"

definition to_id :: "int \<Rightarrow> string \<Rightarrow> string" where
  "to_id number pre = pre @ ''-'' @ int_str number"

definition number_of_text :: "string \<Rightarrow> NotANumber + int" where
  "number_of_text text =
     (case parse_i64 text of
        None \<Rightarrow> Inl NonNumeric
      | Some number \<Rightarrow> if number < 1 \<or> int_str number \<noteq> text then Inl Malformed else Inr number)"

definition parse_id :: "string \<Rightarrow> string \<Rightarrow> StoreError + int" where
  "parse_id pre i =
     (case (case strip_prefix pre i of None \<Rightarrow> None | Some r \<Rightarrow> strip_prefix ''-'' r) of
        None \<Rightarrow> Inl (StoreValidation (''story id `'' @ i @ ''` does not belong to a project with prefix `'' @ pre @ ''`''))
      | Some rest \<Rightarrow>
          (case number_of_text rest of
             Inr number \<Rightarrow> Inr number
           | Inl why \<Rightarrow> Inl (StoreValidation (''story id `'' @ i @ ''` has a '' @ not_a_number_str why @ '' number''))))"

datatype StoryRef = Here int | Elsewhere string | Unrecognized

definition classify :: "string \<Rightarrow> string \<Rightarrow> StoryRef" where
  "classify pre token =
     (case number_of_text token of
        Inr number \<Rightarrow> Here number
      | Inl _ \<Rightarrow>
          (case split_once (CHR ''-'') token of
             None \<Rightarrow> Unrecognized
           | Some (left, rest) \<Rightarrow>
               if eq_ignore_ascii_case left pre
               then (case parse_id pre token of Inr no \<Rightarrow> Here no | Inl _ \<Rightarrow> Unrecognized)
               else if is_ok (validate_prefix left) \<and> is_ok (number_of_text rest) then Elsewhere left
               else Unrecognized))"

section \<open>Round trips\<close>

lemma parse_i64_plain:
  assumes "is_ascii_digit c"
  shows "parse_i64 (c # r) =
    (case parse_digits (c # r) of None \<Rightarrow> None | Some n \<Rightarrow> if n < 2 ^ 63 then Some (int n) else None)"
proof -
  have "c \<noteq> CHR ''-''" "c \<noteq> CHR ''+''" using assms by (auto simp: ascii_class_defs)
  then show ?thesis by (cases c) (auto simp: parse_i64_def split: bool.split)
qed

lemma parse_i64_nat_str: "parse_i64 (nat_str n) = (if n < 2 ^ 63 then Some (int n) else None)"
proof -
  obtain c r where "nat_str n = c # r" "is_ascii_digit c" using nat_str_head by blast
  then show ?thesis using parse_i64_plain [of c r] parse_digits_nat_str [of n] by simp
qed

lemma number_of_text_iff: "number_of_text text = Inr n \<longleftrightarrow> text = int_str n \<and> 1 \<le> n \<and> n < 2 ^ 63"
proof
  assume some: "number_of_text text = Inr n"
  then have n: "parse_i64 text = Some n" "1 \<le> n" "text = int_str n"
    by (auto simp: number_of_text_def split: option.splits if_splits)
  then have "parse_i64 (nat_str (nat n)) = Some n" by (simp add: int_str_def)
  then show "text = int_str n \<and> 1 \<le> n \<and> n < 2 ^ 63" using n by (auto simp: parse_i64_nat_str split: if_splits)
next
  assume "text = int_str n \<and> 1 \<le> n \<and> n < 2 ^ 63"
  then show "number_of_text text = Inr n"
    using parse_i64_nat_str [of "nat n"] by (simp add: number_of_text_def int_str_def nat_less_iff)
qed

lemma strip_prefix_append [simp]: "strip_prefix p (p @ r) = Some r"
  by (simp add: strip_prefix_Some)

lemma parse_id_ok: "parse_id pre i = Inr n \<longleftrightarrow> (\<exists>rest. i = pre @ CHR ''-'' # rest \<and> number_of_text rest = Inr n)"
  by (auto simp: parse_id_def strip_prefix_Some split: option.splits sum.splits)

lemma parse_id_text: "parse_id pre i = Inr n \<longleftrightarrow> i = to_id n pre \<and> 1 \<le> n \<and> n < 2 ^ 63"
  by (auto simp: parse_id_ok number_of_text_iff to_id_def)

text \<open>
  C39. Story ids round-trip: parsing an id under a prefix gives a number exactly when the text is what
  that number prints as under that prefix and the number is one a project can mint, so no two texts and
  no two numbers are confused.
\<close>

theorem parse_id_iff_to_id: "parse_id pre i = Inr n \<longleftrightarrow> i = to_id n pre \<and> 1 \<le> n \<and> n < 2 ^ 63"
  by (rule parse_id_text)

text \<open>
  A token names a story of the selected project in exactly two ways: as its number or as its id
  under the project's own prefix, in the project's own case.
\<close>

theorem classify_here_iff:
  assumes "CHR ''-'' \<notin> set pre"
  shows "classify pre token = Here n \<longleftrightarrow> (token = int_str n \<or> token = to_id n pre) \<and> 1 \<le> n \<and> n < 2 ^ 63"
proof (cases "number_of_text token")
  case (Inr k)
  then have k: "token = int_str k" "1 \<le> k" by (simp_all add: number_of_text_iff)
  have "CHR ''-'' \<notin> set token"
    using k nat_str_digits [of "nat k"] by (auto simp: int_str_def list_all_iff ascii_class_defs)
  then have "token \<noteq> to_id n pre" by (auto simp: to_id_def)
  then show ?thesis using Inr number_of_text_iff [of token k] number_of_text_iff [of token n]
    by (auto simp: classify_def)
next
  case (Inl why)
  have none: "\<not> (token = int_str n \<and> 1 \<le> n \<and> n < 2 ^ 63)" using Inl number_of_text_iff [of token n] by auto
  have "classify pre token = Here n \<longleftrightarrow> parse_id pre token = Inr n"
  proof
    assume "parse_id pre token = Inr n"
    then obtain rest where "token = pre @ CHR ''-'' # rest" by (auto simp: parse_id_ok)
    then have "split_once (CHR ''-'') token = Some (pre, rest)" using assms by (simp add: split_once_Some)
    then show "classify pre token = Here n" using Inl \<open>parse_id pre token = Inr n\<close>
      by (simp add: classify_def eq_ignore_ascii_case_def)
  qed (use Inl in \<open>auto simp: classify_def split: option.splits sum.splits if_splits\<close>)
  also have "\<dots> \<longleftrightarrow> token = to_id n pre \<and> 1 \<le> n \<and> n < 2 ^ 63"
    by (auto simp: parse_id_ok number_of_text_iff to_id_def)
  finally show ?thesis using none by blast
qed

section \<open>The prefix gate\<close>

lemma ascii_chars_bytes:
  assumes "\<And>c. p c \<Longrightarrow> \<not> is_continuation c"
  shows "(\<forall>ch \<in> set (utf8_chars s). on_ascii p ch) \<longleftrightarrow> (\<forall>c \<in> set s. p c)"
proof (induction s rule: utf8_chars.induct)
  case (2 c s)
  show ?case
  proof (cases "takeWhile is_continuation s = []")
    case True
    then have "dropWhile is_continuation s = s" by (metis append_Nil takeWhile_dropWhile_id)
    then show ?thesis using "2.IH" True by (simp add: on_ascii_def)
  next
    case False
    then have "\<exists>d \<in> set s. is_continuation d" by (metis takeWhile_eq_Nil_iff list.set_sel(1))
    then show ?thesis using False assms by (auto simp: on_ascii_def split: list.splits)
  qed
qed simp

lemma utf8_chars_head: "utf8_chars s = first # rest \<Longrightarrow> on_ascii p first \<Longrightarrow> p (hd s)"
  by (cases s) (auto simp: on_ascii_def split: list.splits)

lemma utf8_chars_Nil [simp]: "utf8_chars s = [] \<longleftrightarrow> s = []"
  by (cases s) simp_all

lemma char_count_plain: "\<forall>c \<in> set s. \<not> is_continuation c \<Longrightarrow> char_count s = length s"
  by (simp add: char_count_def)

lemma alphabetic_alphanumeric: "is_ascii_alphabetic c \<Longrightarrow> is_ascii_alphanumeric c"
  by (simp add: is_ascii_alphanumeric_def)

definition prefix_shape :: "string \<Rightarrow> bool" where
  "prefix_shape p \<longleftrightarrow> p \<noteq> [] \<and> length p \<le> 10 \<and> is_ascii_alphabetic (hd p) \<and> (\<forall>c \<in> set p. is_ascii_alphanumeric c)"

lemma validate_prefix_ok:
  "validate_prefix raw = Inr p \<longleftrightarrow> p = to_ascii_uppercase raw \<and> prefix_shape p"
proof (cases "utf8_chars (to_ascii_uppercase raw)")
  case Nil
  then show ?thesis by (auto simp: validate_prefix_def prefix_shape_def)
next
  case (Cons first rest)
  let ?c = "to_ascii_uppercase raw"
  note bytes = ascii_chars_bytes [where p = is_ascii_alphanumeric and s = ?c, OF alphanumeric_not_continuation]
  have ne: "?c \<noteq> []" using Cons by auto
  show ?thesis
  proof (cases "on_ascii is_ascii_alphabetic first \<and> (\<forall>ch \<in> set rest. on_ascii is_ascii_alphanumeric ch)")
    case True
    then have "on_ascii is_ascii_alphanumeric first" by (auto simp: on_ascii_def alphabetic_alphanumeric split: list.splits)
    then have all: "\<forall>c \<in> set ?c. is_ascii_alphanumeric c" using True bytes Cons by simp
    then have "char_count ?c = length ?c" using alphanumeric_not_continuation by (intro char_count_plain) blast
    moreover have "find (\<lambda>c. \<not> on_ascii is_ascii_alphanumeric c) rest = None" using True by (auto simp: find_None_iff)
    ultimately show ?thesis using True Cons ne all utf8_chars_head [OF Cons, of is_ascii_alphabetic]
      by (auto simp: validate_prefix_def prefix_shape_def MAX_LEN_def Let_def)
  next
    case False
    have "\<not> prefix_shape ?c"
    proof
      assume shape: "prefix_shape ?c"
      then have all: "\<forall>ch \<in> set (first # rest). on_ascii is_ascii_alphanumeric ch"
        using bytes Cons by (simp add: prefix_shape_def)
      then obtain c where c: "first = [c]" by (auto simp: on_ascii_def split: list.splits)
      then have "hd ?c = c" using Cons by (cases ?c) auto
      then show False using False all c shape by (simp add: on_ascii_def prefix_shape_def)
    qed
    moreover have "validate_prefix raw \<noteq> Inr q" for q
      using False Cons by (auto simp: validate_prefix_def find_None_iff Let_def split: option.splits)
    ultimately show ?thesis by auto
  qed
qed

lemma upper_alnum: "is_ascii_alphanumeric c \<Longrightarrow> is_ascii_alphanumeric (ascii_upper c)"
  "is_ascii_alphabetic c \<Longrightarrow> is_ascii_alphabetic (ascii_upper c)"
  by (auto simp: ascii_upper_def ascii_class_defs)

lemma upper_upper: "ascii_upper (ascii_upper c) = ascii_upper c"
proof (cases "is_ascii_lowercase c")
  case True
  then have "(97::nat) \<le> of_char c" "of_char c \<le> (122::nat)" by (simp_all add: ascii_class_defs)
  then have "of_char (char_of (of_char c - (32::nat)) :: char) = of_char c - (32::nat)" by simp
  moreover have "\<not> (97::nat) \<le> of_char c - 32" using \<open>of_char c \<le> (122::nat)\<close> by linarith
  ultimately show ?thesis using True by (simp add: ascii_upper_def ascii_class_defs)
qed (simp add: ascii_upper_def)

lemma to_upper_idem: "to_ascii_uppercase (to_ascii_uppercase s) = to_ascii_uppercase s"
  by (simp add: to_ascii_uppercase_def upper_upper)

text \<open>
  The gate accepts exactly the prefixes of its rule, in their canonical form, and the suggestion
  always passes it: an accepted prefix is the upper-case form of what was given, at most ten letters and
  digits starting with a letter; it is its own canonical form; and whatever a directory is called, the
  derived prefix is accepted unchanged.
\<close>

theorem prefix_gate:
  "(validate_prefix raw = Inr p \<longleftrightarrow> p = to_ascii_uppercase raw \<and> prefix_shape p)
    \<and> validate_prefix (derive_prefix basename) = Inr (derive_prefix basename)"
proof -
  have "validate_prefix p' = Inr p'" if "validate_prefix candidate = Inr p'" for candidate p'
    using that by (auto simp: validate_prefix_ok to_upper_idem)
  moreover have "validate_prefix DEFAULT_PREFIX = Inr DEFAULT_PREFIX" by code_simp
  ultimately have "validate_prefix (derive_prefix basename) = Inr (derive_prefix basename)"
    by (simp add: derive_prefix_def Let_def split: sum.split)
  then show ?thesis using validate_prefix_ok by blast
qed

section \<open>Minted ids in text and in the queue\<close>

lemma prefix_shape_id_prefix: "prefix_shape p \<Longrightarrow> id_prefix p"
  by (auto simp: prefix_shape_def id_prefix_def list_all_iff ascii_class_defs)

lemma prefix_no_dash: "prefix_shape p \<Longrightarrow> CHR ''-'' \<notin> set p"
  by (auto simp: prefix_shape_def ascii_class_defs)

lemma number_no_dash: "1 \<le> k \<Longrightarrow> CHR ''-'' \<notin> set (int_str k)"
  using nat_str_digits [of "nat k"] by (auto simp: int_str_def list_all_iff ascii_class_defs)

lemma split_on_none: "d \<notin> set s \<Longrightarrow> split_on d s = [s]"
  by (induction s) auto

lemma split_on_first: "d \<notin> set a \<Longrightarrow> split_on d (a @ d # b) = a # split_on d b"
  by (induction a) auto

lemma parse_u64_nat_str: "parse_u64 (nat_str n) = (if n < 2 ^ 64 then Some n else None)"
proof -
  obtain c r where cr: "nat_str n = c # r" "is_ascii_digit c" using nat_str_head by blast
  then have "c \<noteq> CHR ''+''" by (auto simp: ascii_class_defs)
  then have "parse_u64 (c # r) = (case parse_digits (c # r) of None \<Rightarrow> None | Some n \<Rightarrow> if n < 2 ^ 64 then Some n else None)"
    by (cases c) (auto simp: parse_u64_def split: bool.split)
  then show ?thesis using parse_digits_nat_str [of n] cr(1) by simp
qed

text \<open>
  A minted id is recognised everywhere: under an accepted prefix, the id of a number a project can
  mint parses back to the number, classifies as a story of the project, is found whole by the text scan,
  and is ranked by that number.
\<close>

theorem minted_ids_recognised:
  assumes "validate_prefix raw = Inr p" and "1 \<le> n" and "n < 2 ^ 63"
  shows "parse_id p (to_id n p) = Inr n \<and> classify p (to_id n p) = Here n
    \<and> (0, length (to_id n p)) \<in> set (ids_in_line p (to_id n p)) \<and> story_number (to_id n p) = nat n"
proof -
  have shape: "prefix_shape p" using assms(1) validate_prefix_ok by blast
  have str: "int_str n = nat_str (nat n)" using assms(2) by (simp add: int_str_def)
  have parse: "parse_id p (to_id n p) = Inr n" using assms(2,3) by (auto simp: parse_id_ok number_of_text_iff to_id_def)
  have "split_once (CHR ''-'') (to_id n p) = Some (p, int_str n)"
    using prefix_no_dash [OF shape] by (simp add: split_once_Some to_id_def)
  moreover have "number_of_text (to_id n p) \<noteq> Inr k" for k
  proof
    assume "number_of_text (to_id n p) = Inr k"
    then have "to_id n p = int_str k" "1 \<le> k" by (simp_all add: number_of_text_iff)
    then have "CHR ''-'' \<notin> set (to_id n p)" using number_no_dash by simp
    then show False by (simp add: to_id_def)
  qed
  ultimately have "classify p (to_id n p) = Here n"
    using parse by (auto simp: classify_def eq_ignore_ascii_case_def split: sum.split)
  moreover have "id_shape p (to_id n p) 0 (length (to_id n p))"
    using nat_str_digits [of "nat n"] by (auto simp: id_shape_def to_id_def str)
  then have "(0, length (to_id n p)) \<in> set (ids_in_line p (to_id n p))"
    using ids_from_exact [OF prefix_shape_id_prefix [OF shape]] by (simp add: ids_in_line_def)
  moreover have "story_number (to_id n p) = nat n"
  proof -
    have "CHR ''-'' \<notin> set (nat_str (nat n))" using nat_str_digits [of "nat n"] by (auto simp: list_all_iff ascii_class_defs)
    then have "split_on (CHR ''-'') (to_id n p) = [p, nat_str (nat n)]"
      using prefix_no_dash [OF shape] by (simp add: to_id_def str split_on_first split_on_none)
    moreover have "nat n < 2 ^ 64" using assms(3) by (simp add: nat_less_iff)
    ultimately show ?thesis by (simp add: story_number_def parse_u64_nat_str)
  qed
  ultimately show ?thesis using parse by blast
qed

theorem classify_here_iff_witness: "classify ''SH'' ''SH-12'' = Here 12"
proof -
  have "CHR ''-'' \<notin> set ''SH''" by simp
  moreover have "''SH-12'' = to_id 12 ''SH''" by code_simp
  ultimately show ?thesis using classify_here_iff [of "''SH''" "''SH-12''" 12] by simp
qed

theorem minted_ids_recognised_witness:
  "parse_id ''ACME'' (to_id 42 ''ACME'') = Inr 42 \<and> story_number (to_id 42 ''ACME'') = 42"
proof -
  have "validate_prefix ''acme'' = Inr ''ACME''" by code_simp
  from minted_ids_recognised [OF this, of 42] show ?thesis by simp
qed

end
