(* ===== verification/Story_Fold.thy ===== *)
theory Story_Fold
  imports State_Catalog
begin

text \<open>
  The event log and its fold (\<^verbatim>\<open>src/src/domain.rs\<close>, lines 1032 to 1330, 1829 to 2300 and 2600 to 2656):
  event kinds, git-link comments, the replay of a story's history into its snapshot, and the state a
  story was claimed from.  The mutable locals of \<open>fold_story\<close> are the fields of \<open>FoldState\<close>, one
  definition per match arm that does more than set a field.  Arithmetic on attachment ids is at the
  32 bits of the source, with the wrap-around of a release build.
\<close>

section \<open>Git links in comments\<close>

definition KIND_STORY_COMMIT_LINKED :: string where
  "KIND_STORY_COMMIT_LINKED = ''StoryCommitLinked''"

definition SHORT_SHA :: nat where
  "SHORT_SHA = 7"

text \<open>Slicing inside a scalar value panics, which is \<open>None\<close> here.\<close>

definition short_sha :: "string \<Rightarrow> string option" where
  "short_sha sha =
     (let n = min SHORT_SHA (length sha) in
      if is_char_boundary sha n then Some (take n sha) else None)"

definition git_link_comment :: "string \<Rightarrow> string \<Rightarrow> string option" where
  "git_link_comment sha subject =
     map_option (\<lambda>short. ''[git] '' @ short @ '': '' @ subject) (short_sha sha)"

definition parse_git_link_comment :: "string \<Rightarrow> (string \<times> string) option" where
  "parse_git_link_comment text =
     (case strip_prefix ''[git] '' text of
        None \<Rightarrow> None
      | Some rest \<Rightarrow>
          (case split_once (CHR '':'') rest of
             None \<Rightarrow> None
           | Some (sha, subject) \<Rightarrow>
               (let subject = (case strip_prefix '' '' subject of Some s \<Rightarrow> s | None \<Rightarrow> subject) in
                if sha \<noteq> [] \<and> list_all is_ascii_hexdigit sha then Some (sha, subject) else None)))"

definition git_link_sha :: "string \<Rightarrow> string option" where
  "git_link_sha text = map_option fst (parse_git_link_comment text)"

definition git_link_subject :: "string \<Rightarrow> string option" where
  "git_link_subject text = map_option snd (parse_git_link_comment text)"

section \<open>Event kinds\<close>

fun event_kind :: "StoryEvent \<Rightarrow> string" where
  "event_kind (StoryCreated _ _ _) = ''StoryCreated''"
| "event_kind (StoryCommentAdded _ _) = ''StoryCommentAdded''"
| "event_kind (StoryCommentRetracted _ _ _) = ''StoryCommentRetracted''"
| "event_kind (StoryAwaitingSet _ _) = ''StoryAwaitingSet''"
| "event_kind (StoryAwaitingCleared _) = ''StoryAwaitingCleared''"
| "event_kind (StoryStateChanged _ _) = ''StoryStateChanged''"
| "event_kind (StoryCleanupLeaseRecorded _ _) = ''StoryCleanupLeaseRecorded''"
| "event_kind (StoryStateCleared _) = ''StoryStateCleared''"
| "event_kind (StoryRelationshipAdded _ _ _) = ''StoryRelationshipAdded''"
| "event_kind (StoryRelationshipRemoved _ _ _) = ''StoryRelationshipRemoved''"
| "event_kind (StoryComplexitySet _ _) = ''StoryComplexitySet''"
| "event_kind (StoryComplexityCleared _) = ''StoryComplexityCleared''"
| "event_kind (StoryPrioritySet _ _) = ''StoryPrioritySet''"
| "event_kind (StoryPriorityCleared _) = ''StoryPriorityCleared''"
| "event_kind (StoryTypeSet _ _) = ''StoryTypeSet''"
| "event_kind (StoryLabelsSet _ _) = ''StoryLabelsSet''"
| "event_kind (StoryTitleSet _ _) = ''StoryTitleSet''"
| "event_kind (StoryDescriptionSet _ _) = ''StoryDescriptionSet''"
| "event_kind (StoryClosedAndArchived _ _) = ''StoryClosedAndArchived''"
| "event_kind (StoryDeleted _ _) = ''StoryDeleted''"
| "event_kind (StoryCommitLinked _ _ _) = KIND_STORY_COMMIT_LINKED"
| "event_kind (StoryHidden _) = ''StoryHidden''"
| "event_kind (StoryUnhidden _) = ''StoryUnhidden''"
| "event_kind (StoryPrLinked _ _ _ _ _ _) = ''StoryPrLinked''"
| "event_kind (StoryPrUnlinked _ _) = ''StoryPrUnlinked''"
| "event_kind (StoryPrMerged _ _) = ''StoryPrMerged''"
| "event_kind (StoryPrClosed _ _) = ''StoryPrClosed''"
| "event_kind (StoryCreatedAsDraft _) = ''StoryCreatedAsDraft''"
| "event_kind (StoryPublished _) = ''StoryPublished''"
| "event_kind (StoryAttachmentAdded _ _ _ _ _ _) = ''StoryAttachmentAdded''"
| "event_kind (StoryAttachmentRemoved _ _) = ''StoryAttachmentRemoved''"

definition EVENT_KINDS :: "string list" where
  "EVENT_KINDS =
     [''StoryCreated'', ''StoryCommentAdded'', ''StoryCommentRetracted'', ''StoryAwaitingSet'',
      ''StoryAwaitingCleared'', ''StoryStateChanged'', ''StoryCleanupLeaseRecorded'', ''StoryStateCleared'',
      ''StoryRelationshipAdded'', ''StoryRelationshipRemoved'', ''StoryComplexitySet'',
      ''StoryComplexityCleared'', ''StoryPrioritySet'', ''StoryPriorityCleared'', ''StoryTypeSet'',
      ''StoryLabelsSet'', ''StoryTitleSet'', ''StoryDescriptionSet'', ''StoryClosedAndArchived'',
      ''StoryDeleted'', KIND_STORY_COMMIT_LINKED, ''StoryHidden'', ''StoryUnhidden'', ''StoryPrLinked'',
      ''StoryPrUnlinked'', ''StoryPrMerged'', ''StoryPrClosed'', ''StoryCreatedAsDraft'',
      ''StoryPublished'', ''StoryAttachmentAdded'', ''StoryAttachmentRemoved'']"

definition is_known_event_kind :: "string \<Rightarrow> bool" where
  "is_known_event_kind kind \<longleftrightarrow> kind \<in> set EVENT_KINDS"

definition is_retired_assignment :: "string \<Rightarrow> bool" where
  "is_retired_assignment kind \<longleftrightarrow> kind = ''StoryAssigned'' \<or> kind = ''StoryAssigneeCleared''"

definition BLOCK_INERT_EVENT_KINDS :: "string list" where
  "BLOCK_INERT_EVENT_KINDS =
     [''StoryCommentAdded'', ''StoryCommentRetracted'', ''StoryCleanupLeaseRecorded'', ''StoryComplexitySet'',
      ''StoryComplexityCleared'', ''StoryPrioritySet'', ''StoryPriorityCleared'', ''StoryLabelsSet'',
      ''StoryTitleSet'', ''StoryDescriptionSet'', KIND_STORY_COMMIT_LINKED, ''StoryPrLinked'',
      ''StoryPrUnlinked'', ''StoryPrMerged'', ''StoryPrClosed'', ''StoryAttachmentAdded'',
      ''StoryAttachmentRemoved'']"

definition may_change_effective_block :: "StoryEvent \<Rightarrow> bool" where
  "may_change_effective_block event \<longleftrightarrow> event_kind event \<notin> set BLOCK_INERT_EVENT_KINDS"

fun activity_name :: "StoryEvent \<Rightarrow> string" where
  "activity_name (StoryCreated _ _ _) = ''created''"
| "activity_name (StoryCommentAdded _ _) = ''comment''"
| "activity_name (StoryCommentRetracted _ _ _) = ''comment-retracted''"
| "activity_name (StoryAwaitingSet _ _) = ''awaiting-set''"
| "activity_name (StoryAwaitingCleared _) = ''awaiting-cleared''"
| "activity_name (StoryStateChanged _ _) = ''state-change''"
| "activity_name (StoryCleanupLeaseRecorded _ _) = ''cleanup-lease-recorded''"
| "activity_name (StoryStateCleared _) = ''state-cleared''"
| "activity_name (StoryRelationshipAdded _ _ _) = ''relationship-added''"
| "activity_name (StoryRelationshipRemoved _ _ _) = ''relationship-removed''"
| "activity_name (StoryComplexitySet _ _) = ''complexity-set''"
| "activity_name (StoryComplexityCleared _) = ''complexity-cleared''"
| "activity_name (StoryPrioritySet _ _) = ''priority-set''"
| "activity_name (StoryPriorityCleared _) = ''priority-cleared''"
| "activity_name (StoryTypeSet _ _) = ''type-set''"
| "activity_name (StoryLabelsSet _ _) = ''labels-set''"
| "activity_name (StoryTitleSet _ _) = ''title-set''"
| "activity_name (StoryDescriptionSet _ _) = ''description-set''"
| "activity_name (StoryClosedAndArchived _ _) = ''archived''"
| "activity_name (StoryDeleted _ _) = ''deleted''"
| "activity_name (StoryCommitLinked _ _ _) = ''commit-linked''"
| "activity_name (StoryHidden _) = ''hidden''"
| "activity_name (StoryUnhidden _) = ''unhidden''"
| "activity_name (StoryPrLinked _ _ _ _ _ _) = ''linked''"
| "activity_name (StoryPrUnlinked _ _) = ''unlinked''"
| "activity_name (StoryPrMerged _ _) = ''pr-merged''"
| "activity_name (StoryPrClosed _ _) = ''pr-closed''"
| "activity_name (StoryCreatedAsDraft _) = ''created-as-draft''"
| "activity_name (StoryPublished _) = ''published''"
| "activity_name (StoryAttachmentAdded _ _ _ _ _ _) = ''attachment-added''"
| "activity_name (StoryAttachmentRemoved _ _) = ''attachment-removed''"

definition last_activity_type :: "StoryEvent list \<Rightarrow> string" where
  "last_activity_type events = (if events = [] then ''unknown'' else activity_name (last events))"

section \<open>The fold\<close>

record FoldState =
  f_title :: "string option"
  f_created_at :: "string option"
  f_updated_at :: "string option"
  f_state :: "string option"
  f_state_computed :: bool
  f_awaiting :: "string option"
  f_priority :: Priority
  f_priority_assessed :: bool
  f_complexity :: Complexity
  f_complexity_assessed :: bool
  f_story_type :: "string option"
  f_description :: "string option"
  f_labels :: "string list"
  f_comments :: "StoryComment list"
  f_commits :: "CommitReference list"
  f_relationships :: "StoryRelation list"
  f_closed_at :: "string option"
  f_deletion_active :: bool
  f_hidden_at :: "string option"
  f_draft :: bool
  f_published :: bool
  f_attachments :: "Attachment list"
  f_next_attachment_id :: "32 word"

definition fold_init :: FoldState where
  "fold_init =
     \<lparr>f_title = None, f_created_at = None, f_updated_at = None, f_state = None, f_state_computed = False,
      f_awaiting = None, f_priority = NoPriority, f_priority_assessed = False,
      f_complexity = complexity_default, f_complexity_assessed = False, f_story_type = None,
      f_description = None, f_labels = [], f_comments = [], f_commits = [], f_relationships = [],
      f_closed_at = None, f_deletion_active = False, f_hidden_at = None, f_draft = False,
      f_published = False, f_attachments = [], f_next_attachment_id = default_next_attachment_id\<rparr>"

text \<open>Whether the project currently defines the slug and calls it open.\<close>

definition is_open_slug :: "catalog_map \<Rightarrow> string \<Rightarrow> bool" where
  "is_open_slug states slug = (case btm_get states slug of Some d \<Rightarrow> sd_super d = Open | None \<Rightarrow> False)"

definition on_created :: "catalog_map \<Rightarrow> string \<Rightarrow> string \<Rightarrow> string \<Rightarrow> FoldState \<Rightarrow> FoldState" where
  "on_created states at title state f =
     f\<lparr>f_title := Some title, f_created_at := Some at, f_updated_at := Some at,
       f_state := Some (historical_slug state states)\<rparr>"

definition on_comment_added :: "string \<Rightarrow> string \<Rightarrow> FoldState \<Rightarrow> FoldState" where
  "on_comment_added at text f =
     (case (git_link_sha text, git_link_subject text) of
        (Some sha, Some subject) \<Rightarrow>
          f\<lparr>f_commits := f_commits f @ [\<lparr>commit_at = at, commit_sha = sha, commit_subject = subject\<rparr>],
            f_updated_at := Some at\<rparr>
      | _ \<Rightarrow>
          f\<lparr>f_comments := f_comments f @ [\<lparr>comment_at = at, comment_text = text\<rparr>],
            f_updated_at := Some at\<rparr>)"

definition on_commit_linked :: "string \<Rightarrow> string \<Rightarrow> string \<Rightarrow> FoldState \<Rightarrow> FoldState" where
  "on_commit_linked at sha subject f =
     f\<lparr>f_commits := f_commits f @ [\<lparr>commit_at = at, commit_sha = sha, commit_subject = subject\<rparr>],
       f_updated_at := Some at\<rparr>"

definition on_comment_retracted :: "string \<Rightarrow> string \<Rightarrow> string \<Rightarrow> FoldState \<Rightarrow> FoldState" where
  "on_comment_retracted at c_at text f =
     (case rposition (\<lambda>c. comment_at c = c_at \<and> comment_text c = text) (f_comments f) of
        Some index \<Rightarrow> f\<lparr>f_comments := remove_at index (f_comments f), f_updated_at := Some at\<rparr>
      | None \<Rightarrow> f\<lparr>f_updated_at := Some at\<rparr>)"

definition on_state_changed :: "catalog_map \<Rightarrow> string \<Rightarrow> string \<Rightarrow> FoldState \<Rightarrow> FoldState" where
  "on_state_changed states at state f =
     (let slug = historical_slug state states;
          g = f\<lparr>f_state := Some slug, f_state_computed := False, f_updated_at := Some at\<rparr>
      in if is_open_slug states slug
         then g\<lparr>f_closed_at := None,
                f_hidden_at := (if f_deletion_active g then None else f_hidden_at g),
                f_deletion_active := False\<rparr>
         else g)"

definition on_closed_and_archived :: "catalog_map \<Rightarrow> string \<Rightarrow> string \<Rightarrow> FoldState \<Rightarrow> FoldState" where
  "on_closed_and_archived states at state f =
     (let slug = historical_slug state states;
          g = f\<lparr>f_state := Some slug, f_state_computed := False, f_updated_at := Some at\<rparr>
      in if \<not> is_open_slug states slug then g\<lparr>f_closed_at := Some at\<rparr> else g)"

definition on_deleted :: "string \<Rightarrow> FoldState \<Rightarrow> FoldState" where
  "on_deleted at f =
     f\<lparr>f_deletion_active := True, f_updated_at := Some at,
       f_closed_at := (if f_closed_at f = None then Some at else f_closed_at f),
       f_hidden_at := Some at\<rparr>"

definition on_attachment_added ::
  "string \<Rightarrow> 32 word \<Rightarrow> string \<Rightarrow> MediaType \<Rightarrow> 64 word \<Rightarrow> string \<Rightarrow> FoldState \<Rightarrow> FoldState" where
  "on_attachment_added at i name media len sha f =
     f\<lparr>f_attachments := f_attachments f @
         [\<lparr>att_id = i, att_name = name, att_media_type = media, att_byte_len = len, att_sha256 = sha,
           att_added_at = at\<rparr>],
       f_next_attachment_id := max (f_next_attachment_id f) (i + 1),
       f_updated_at := Some at\<rparr>"

fun apply_event :: "catalog_map \<Rightarrow> FoldState \<Rightarrow> StoryEvent \<Rightarrow> FoldState" where
  "apply_event states f (StoryCreated at title state) = on_created states at title state f"
| "apply_event states f (StoryCommentAdded at text) = on_comment_added at text f"
| "apply_event states f (StoryCommitLinked at sha subject) = on_commit_linked at sha subject f"
| "apply_event states f (StoryCommentRetracted at c_at text) = on_comment_retracted at c_at text f"
| "apply_event states f (StoryAwaitingSet at awaiting) =
     f\<lparr>f_awaiting := Some awaiting, f_updated_at := Some at\<rparr>"
| "apply_event states f (StoryAwaitingCleared at) = f\<lparr>f_awaiting := None, f_updated_at := Some at\<rparr>"
| "apply_event states f (StoryStateChanged at state) = on_state_changed states at state f"
| "apply_event states f (StoryCleanupLeaseRecorded at _) = f\<lparr>f_updated_at := Some at\<rparr>"
| "apply_event states f (StoryStateCleared at) = f\<lparr>f_state_computed := True, f_updated_at := Some at\<rparr>"
| "apply_event states f (StoryComplexitySet at level) =
     f\<lparr>f_complexity := level, f_complexity_assessed := True, f_updated_at := Some at\<rparr>"
| "apply_event states f (StoryComplexityCleared at) =
     f\<lparr>f_complexity := complexity_default, f_complexity_assessed := False, f_updated_at := Some at\<rparr>"
| "apply_event states f (StoryPrioritySet at priority) =
     f\<lparr>f_priority := priority, f_priority_assessed := True, f_updated_at := Some at\<rparr>"
| "apply_event states f (StoryPriorityCleared at) =
     f\<lparr>f_priority := NoPriority, f_priority_assessed := False, f_updated_at := Some at\<rparr>"
| "apply_event states f (StoryTypeSet at type) = f\<lparr>f_story_type := Some type, f_updated_at := Some at\<rparr>"
| "apply_event states f (StoryLabelsSet at labels) = f\<lparr>f_labels := labels, f_updated_at := Some at\<rparr>"
| "apply_event states f (StoryTitleSet at title) = f\<lparr>f_title := Some title, f_updated_at := Some at\<rparr>"
| "apply_event states f (StoryDescriptionSet at description) =
     f\<lparr>f_description := Some description, f_updated_at := Some at\<rparr>"
| "apply_event states f (StoryRelationshipAdded at other rel) =
     f\<lparr>f_relationships := bset_insert (StoryRelation rel other) (f_relationships f), f_updated_at := Some at\<rparr>"
| "apply_event states f (StoryRelationshipRemoved at other rel) =
     f\<lparr>f_relationships := bset_remove (StoryRelation rel other) (f_relationships f), f_updated_at := Some at\<rparr>"
| "apply_event states f (StoryClosedAndArchived at state) = on_closed_and_archived states at state f"
| "apply_event states f (StoryDeleted at _) = on_deleted at f"
| "apply_event states f (StoryHidden at) = f\<lparr>f_hidden_at := Some at, f_updated_at := Some at\<rparr>"
| "apply_event states f (StoryUnhidden at) = f\<lparr>f_hidden_at := None, f_updated_at := Some at\<rparr>"
| "apply_event states f (StoryPrLinked at _ _ _ _ _) = f\<lparr>f_updated_at := Some at\<rparr>"
| "apply_event states f (StoryPrUnlinked at _) = f\<lparr>f_updated_at := Some at\<rparr>"
| "apply_event states f (StoryPrMerged at _) = f\<lparr>f_updated_at := Some at\<rparr>"
| "apply_event states f (StoryPrClosed at _) = f\<lparr>f_updated_at := Some at\<rparr>"
| "apply_event states f (StoryCreatedAsDraft at) =
     f\<lparr>f_draft := (if f_published f then f_draft f else True), f_updated_at := Some at\<rparr>"
| "apply_event states f (StoryPublished at) =
     f\<lparr>f_draft := False, f_published := True, f_updated_at := Some at\<rparr>"
| "apply_event states f (StoryAttachmentAdded at i name media len sha) =
     on_attachment_added at i name media len sha f"
| "apply_event states f (StoryAttachmentRemoved at i) =
     f\<lparr>f_attachments := filter (\<lambda>a. att_id a \<noteq> i) (f_attachments f), f_updated_at := Some at\<rparr>"

definition replay :: "catalog_map \<Rightarrow> StoryEvent list \<Rightarrow> FoldState" where
  "replay states events = foldl (apply_event states) fold_init events"

definition require :: "string \<Rightarrow> string \<Rightarrow> 'a option \<Rightarrow> 'a result" where
  "require i what v =
     (case v of Some x \<Rightarrow> Inr x
      | None \<Rightarrow> Inl (Integrity (integrity_of_string (''story '' @ i @ '' is missing '' @ what))))"

text \<open>The resting slug and superstate: a live legacy deletion closes, otherwise the catalog answers.\<close>

definition resolve_superstate :: "string \<Rightarrow> catalog_map \<Rightarrow> bool \<Rightarrow> string \<Rightarrow> (string \<times> SuperState) result" where
  "resolve_superstate i states deleted state =
     (if deleted
      then (case resting_state_for_closure states of
              Some resting \<Rightarrow> Inr (sd_slug resting, Closed)
            | None \<Rightarrow> Inr (state, Closed))
      else (case btm_get states state of
              None \<Rightarrow> Inl (Validation (''story '' @ i @ '' references undefined state `'' @ state @ ''`''))
            | Some d \<Rightarrow> Inr (state, sd_super d)))"

definition finish_fold :: "string \<Rightarrow> catalog_map \<Rightarrow> FoldState \<Rightarrow> StorySnapshot result" where
  "finish_fold i states f =
     result_bind (require i ''state'' (f_state f)) (\<lambda>state.
     result_bind (require i ''title'' (f_title f)) (\<lambda>title.
     result_bind (require i ''created_at'' (f_created_at f)) (\<lambda>created_at.
     result_bind (resolve_superstate i states (f_deletion_active f) state) (\<lambda>(state, superstate).
       Inr \<lparr>snap_id = i, snap_title = title, snap_created_at = created_at,
            snap_updated_at = (case f_updated_at f of Some u \<Rightarrow> u | None \<Rightarrow> created_at),
            snap_state = state, snap_superstate = superstate,
            snap_state_computed = f_state_computed f, snap_awaiting = f_awaiting f,
            snap_comments = f_comments f, snap_referenced_by_commits = f_commits f,
            snap_relationships = f_relationships f, snap_priority = f_priority f,
            snap_priority_assessed = f_priority_assessed f, snap_complexity = f_complexity f,
            snap_complexity_assessed = f_complexity_assessed f, snap_labels = f_labels f,
            snap_story_type = f_story_type f, snap_description = f_description f,
            snap_closed_at = f_closed_at f,
            snap_hidden_at = (if superstate = Open then None else f_hidden_at f),
            snap_draft = f_draft f, snap_attachments = f_attachments f,
            snap_next_attachment_id = f_next_attachment_id f\<rparr>))))"

definition fold_story :: "string \<Rightarrow> StoryEvent list \<Rightarrow> catalog_map \<Rightarrow> StorySnapshot result" where
  "fold_story i events states = finish_fold i states (replay states events)"

section \<open>Where a claimed story came from\<close>

fun state_of_event :: "StoryEvent \<Rightarrow> string option" where
  "state_of_event (StoryCreated _ _ state) = Some state"
| "state_of_event (StoryStateChanged _ state) = Some state"
| "state_of_event (StoryClosedAndArchived _ state) = Some state"
| "state_of_event _ = None"

definition state_timeline :: "StoryEvent list \<Rightarrow> string list" where
  "state_timeline events = List.map_filter state_of_event events"

text \<open>The last index whose state is \<open>active\<close> and whose predecessor is not.\<close>

definition entry_index :: "string \<Rightarrow> string list \<Rightarrow> nat option" where
  "entry_index active timeline =
     fold (\<lambda>i entry. if timeline ! i = active \<and> (i = 0 \<or> timeline ! (i - 1) \<noteq> active) then Some i else entry)
       [0..<length timeline] None"

definition state_claimed_from :: "StoryEvent list \<Rightarrow> string \<Rightarrow> string option" where
  "state_claimed_from events active =
     (let timeline = state_timeline events in
      case entry_index active timeline of
        None \<Rightarrow> None
      | Some i \<Rightarrow> if 0 < i then Some (timeline ! (i - 1)) else None)"

section \<open>The batch of a transition\<close>

definition state_transition_events ::
  "StateDef \<Rightarrow> bool \<Rightarrow> string \<Rightarrow> StoryEvent list \<Rightarrow> StoryEvent list" where
  "state_transition_events target awaiting at extra =
     [StoryStateChanged at (sd_slug target)] @ extra
     @ (if sd_super target = Closed
        then (if awaiting then [StoryAwaitingCleared at] else []) @ [StoryClosedAndArchived at (sd_slug target)]
        else [])"

end
