(* ===== verification/Fold_Facts.thy ===== *)
theory Fold_Facts
  imports Story_Fold
begin

text \<open>
  What the replay of a story's history guarantees.  A locale states the shape of every invariant
  proof about an event log: a step function and a property it keeps, hence kept by any log.  The
  interpretation gives it the fold's own step with the type invariant of the fold's locals.
\<close>

section \<open>Invariants of a log\<close>

locale log_invariant =
  fixes step :: "'s \<Rightarrow> 'e \<Rightarrow> 's"
    and adm :: "'e \<Rightarrow> bool"
    and inv :: "'s \<Rightarrow> bool"
  assumes step_inv: "inv s \<Longrightarrow> adm e \<Longrightarrow> inv (step s e)"
begin

lemma log_inv: "inv s \<Longrightarrow> list_all adm es \<Longrightarrow> inv (foldl step s es)"
  by (induction es arbitrary: s) (auto simp: step_inv)

lemma log_inv_suffix:
  assumes "inv (foldl step s es)" and "list_all adm fs"
  shows "inv (foldl step s (es @ fs))"
  using log_inv [OF assms] by simp

end

section \<open>The type invariant\<close>

lemmas fold_handler_defs =
  on_created_def on_comment_added_def on_commit_linked_def on_comment_retracted_def on_state_changed_def
  on_closed_and_archived_def on_deleted_def on_attachment_added_def

text \<open>
  The locals of the fold at every moment of the replay: relations form an ordered set, a level implies
  an assessment, publication excludes the draft, a comment that is a git link is never kept as a
  comment, a live legacy deletion has a closing time, and a created story has a title, a state and a
  last change.
\<close>

definition fold_ok :: "FoldState \<Rightarrow> bool" where
  "fold_ok f \<longleftrightarrow>
     bset_ok (f_relationships f)
     \<and> (f_priority f \<noteq> NoPriority \<longrightarrow> f_priority_assessed f)
     \<and> (f_complexity f \<noteq> complexity_default \<longrightarrow> f_complexity_assessed f)
     \<and> (f_published f \<longrightarrow> \<not> f_draft f)
     \<and> list_all (\<lambda>c. parse_git_link_comment (comment_text c) = None) (f_comments f)
     \<and> (f_deletion_active f \<longrightarrow> f_closed_at f \<noteq> None)
     \<and> (f_created_at f \<noteq> None \<longrightarrow> f_title f \<noteq> None \<and> f_state f \<noteq> None \<and> f_updated_at f \<noteq> None)"

lemma git_link_None: "git_link_sha text = None \<longleftrightarrow> parse_git_link_comment text = None"
  "git_link_subject text = None \<longleftrightarrow> parse_git_link_comment text = None"
  by (auto simp: git_link_sha_def git_link_subject_def)

lemma on_comment_added_cases:
  "on_comment_added at text f =
     (case parse_git_link_comment text of
        Some (sha, subject) \<Rightarrow> on_commit_linked at sha subject f
      | None \<Rightarrow> f\<lparr>f_comments := f_comments f @ [\<lparr>comment_at = at, comment_text = text\<rparr>],
                  f_updated_at := Some at\<rparr>)"
  by (simp add: on_comment_added_def on_commit_linked_def git_link_sha_def git_link_subject_def
    split: option.splits prod.splits)

lemma list_all_remove_at: "list_all p xs \<Longrightarrow> list_all p (remove_at i xs)"
  using set_remove_at_subset [of i xs] by (auto simp: list_all_iff)

lemma fold_ok_init: "fold_ok fold_init"
  by (simp add: fold_ok_def fold_init_def bset_ok_def)

lemma fold_ok_comment_added: "fold_ok f \<Longrightarrow> fold_ok (on_comment_added at text f)"
  by (simp add: on_comment_added_cases on_commit_linked_def fold_ok_def split: option.split prod.split)

lemma fold_ok_comment_retracted: "fold_ok f \<Longrightarrow> fold_ok (on_comment_retracted at c_at text f)"
  by (simp add: on_comment_retracted_def fold_ok_def list_all_remove_at split: option.split)

lemma fold_ok_state_changed: "fold_ok f \<Longrightarrow> fold_ok (on_state_changed states at state f)"
  by (simp add: on_state_changed_def fold_ok_def Let_def)

lemma fold_ok_closed: "fold_ok f \<Longrightarrow> fold_ok (on_closed_and_archived states at state f)"
  by (simp add: on_closed_and_archived_def fold_ok_def Let_def)

lemma fold_ok_created: "fold_ok f \<Longrightarrow> fold_ok (on_created states at title state f)"
  by (simp add: on_created_def fold_ok_def)

lemma fold_ok_deleted: "fold_ok f \<Longrightarrow> fold_ok (on_deleted at f)"
  by (simp add: on_deleted_def fold_ok_def)

lemma fold_ok_attachment: "fold_ok f \<Longrightarrow> fold_ok (on_attachment_added at i name media len sha f)"
  by (simp add: on_attachment_added_def fold_ok_def)

lemma fold_ok_commit: "fold_ok f \<Longrightarrow> fold_ok (on_commit_linked at sha subject f)"
  by (simp add: on_commit_linked_def fold_ok_def)

lemmas fold_ok_handlers =
  fold_ok_comment_added fold_ok_comment_retracted fold_ok_state_changed fold_ok_closed fold_ok_created
  fold_ok_deleted fold_ok_attachment fold_ok_commit

lemma fold_ok_step: "fold_ok f \<Longrightarrow> fold_ok (apply_event states f event)"
  by (cases event) (simp_all add: fold_ok_handlers, simp_all add: fold_ok_def bset.ok_add bset.ok_del)

interpretation fold_log: log_invariant "apply_event states" "\<lambda>_. True" fold_ok for states
  by unfold_locales (rule fold_ok_step)

lemma replay_ok: "fold_ok (replay states events)"
  unfolding replay_def by (rule fold_log.log_inv) (simp_all add: fold_ok_init list_all_iff)

lemma replay_append: "replay states (es @ fs) = foldl (apply_event states) (replay states es) fs"
  by (simp add: replay_def)

section \<open>From the locals to the snapshot\<close>

lemma require_ok: "require i what v = Inr x \<longleftrightarrow> v = Some x"
  by (simp add: require_def split: option.split)

lemma fold_story_fields:
  assumes "fold_story i events states = Inr s"
  defines "f \<equiv> replay states events"
  shows "snap_id s = i"
    and "f_created_at f = Some (snap_created_at s)" and "f_title f = Some (snap_title s)"
    and "\<exists>state. f_state f = Some state \<and>
           resolve_superstate i states (f_deletion_active f) state = Inr (snap_state s, snap_superstate s)"
    and "snap_state_computed s = f_state_computed f" and "snap_awaiting s = f_awaiting f"
    and "snap_comments s = f_comments f" and "snap_referenced_by_commits s = f_commits f"
    and "snap_relationships s = f_relationships f"
    and "snap_priority s = f_priority f" and "snap_priority_assessed s = f_priority_assessed f"
    and "snap_complexity s = f_complexity f" and "snap_complexity_assessed s = f_complexity_assessed f"
    and "snap_labels s = f_labels f" and "snap_story_type s = f_story_type f"
    and "snap_description s = f_description f" and "snap_closed_at s = f_closed_at f"
    and "snap_hidden_at s = (if snap_superstate s = Open then None else f_hidden_at f)"
    and "snap_draft s = f_draft f" and "snap_attachments s = f_attachments f"
    and "snap_next_attachment_id s = f_next_attachment_id f"
  using assms(1) unfolding fold_story_def finish_fold_def f_def [symmetric]
  by (auto simp: result_bind_eq_Inr require_ok)

lemma resolve_ok:
  "is_ok (resolve_superstate i states deleted state) \<longleftrightarrow> deleted \<or> btm_get states state \<noteq> None"
  by (simp add: resolve_superstate_def split: option.split)

lemma finish_fold_ok:
  assumes "fold_ok f"
  shows "is_ok (finish_fold i states f) \<longleftrightarrow>
     f_created_at f \<noteq> None \<and> is_ok (resolve_superstate i states (f_deletion_active f) (the (f_state f)))"
  using assms unfolding fold_ok_def finish_fold_def
  by (cases "f_created_at f"; cases "f_title f"; cases "f_state f"; 
      cases "resolve_superstate i states (f_deletion_active f) (the (f_state f))")
    (auto simp: require_def)

subsection \<open>The timeline decides the state\<close>

lemma state_timeline_snoc:
  "state_timeline (es @ [e]) =
     state_timeline es @ (case state_of_event e of Some slug \<Rightarrow> [slug] | None \<Rightarrow> [])"
  by (simp add: state_timeline_def List.map_filter_def split: option.split)

lemma apply_event_state:
  "f_state (apply_event states f e) =
     (case state_of_event e of Some slug \<Rightarrow> Some (historical_slug slug states) | None \<Rightarrow> f_state f)"
  by (cases e) (simp_all add: fold_handler_defs Let_def git_link_None split: option.split)

lemma replay_state:
  "f_state (replay states es) =
     (if state_timeline es = [] then None else Some (historical_slug (last (state_timeline es)) states))"
proof (induction es rule: rev_induct)
  case Nil
  then show ?case by (simp add: replay_def fold_init_def state_timeline_def List.map_filter_simps)
next
  case (snoc e es)
  then show ?case
    by (simp add: replay_append apply_event_state state_timeline_snoc split: option.split)
qed

fun is_creation :: "StoryEvent \<Rightarrow> bool" where
  "is_creation (StoryCreated _ _ _) = True"
| "is_creation _ = False"

lemma apply_event_created:
  "f_created_at (apply_event states f e) = None \<longleftrightarrow> \<not> is_creation e \<and> f_created_at f = None"
  by (cases e) (simp_all add: fold_handler_defs Let_def git_link_None split: option.split)

lemma replay_created: "f_created_at (replay states es) = None \<longleftrightarrow> \<not> list_ex is_creation es"
  by (induction es rule: rev_induct) (auto simp: replay_append apply_event_created,
    simp add: replay_def fold_init_def)

lemma creation_in_timeline: "list_ex is_creation es \<Longrightarrow> state_timeline es \<noteq> []"
proof (induction es)
  case (Cons e es)
  then show ?case
    by (cases e) (auto simp: state_timeline_def List.map_filter_simps)
qed simp

text \<open>
  C6. Replaying a story's history never fails on a history it wrote: the fold returns a snapshot exactly
  when the log records the creation and either a legacy deletion is live or the slug of the last
  state-bearing event (read through the renamed-state rule) is defined in the project's catalog.
\<close>

theorem fold_story_succeeds_iff:
  "is_ok (fold_story i events states) \<longleftrightarrow>
     list_ex is_creation events
     \<and> (f_deletion_active (replay states events)
        \<or> btm_contains states (historical_slug (last (state_timeline events)) states))"
  by (auto simp: fold_story_def finish_fold_ok [OF replay_ok] replay_created resolve_ok replay_state
    btm_contains_def creation_in_timeline)

subsection \<open>Well-formed snapshots\<close>

definition snapshot_ok :: "StorySnapshot \<Rightarrow> bool" where
  "snapshot_ok s \<longleftrightarrow>
     bset_ok (snap_relationships s)
     \<and> (snap_priority s \<noteq> NoPriority \<longrightarrow> snap_priority_assessed s)
     \<and> (snap_complexity s \<noteq> complexity_default \<longrightarrow> snap_complexity_assessed s)
     \<and> (snap_hidden_at s \<noteq> None \<longrightarrow> snap_superstate s = Closed)
     \<and> list_all (\<lambda>c. parse_git_link_comment (comment_text c) = None) (snap_comments s)"

lemma superstate_not_open: "x \<noteq> Open \<longleftrightarrow> x = Closed"
  by (cases x) simp_all

lemma fold_story_snapshot_ok: "fold_story i events states = Inr s \<Longrightarrow> snapshot_ok s"
  using replay_ok [of states events]
  by (auto simp: fold_ok_def snapshot_ok_def superstate_not_open fold_story_fields split: if_splits)

text \<open>
  C35. Every snapshot the fold returns is well formed: its relations are an ordered set without
  duplicates, a priority or a non-default complexity is always an assessed one (the assertion at the end
  of the fold), an archived story is closed, and no git link is left among the comments.
\<close>

theorem fold_story_well_formed: "fold_story i events states = Inr s \<Longrightarrow> snap_id s = i \<and> snapshot_ok s"
  by (simp add: fold_story_snapshot_ok fold_story_fields(1))

definition keyed_catalog :: "catalog_map \<Rightarrow> bool" where
  "keyed_catalog states \<longleftrightarrow> btm_ok states \<and> list_all (\<lambda>(k, d). sd_slug d = k) states"

lemma keyed_catalog_get: "keyed_catalog states \<Longrightarrow> btm_get states k = Some d \<Longrightarrow> sd_slug d = k"
  using btm_get_mem [of states k d] by (auto simp: keyed_catalog_def list_all_iff)

lemma keyed_catalog_value:
  "keyed_catalog states \<Longrightarrow> d \<in> set (btm_values states) \<Longrightarrow> btm_get states (sd_slug d) = Some d"
  using btm_get_mem by (fastforce simp: keyed_catalog_def list_all_iff btm_values_def)

lemma resting_state_defined:
  assumes "keyed_catalog states" and "resting_state_for_closure states = Some d"
  shows "btm_get states (sd_slug d) = Some d \<and> sd_super d = Closed"
  using resting_state_closed [of states d] keyed_catalog_value [OF assms(1)] assms by blast

text \<open>
  C36. State and superstate never disagree: in a catalog keyed by slug with at least one closed state,
  the snapshot's state is defined and its superstate is the one the catalog gives that state, whatever
  legacy deletions, renamed states and reclassified states the history went through.
\<close>

theorem fold_superstate_agrees:
  assumes "keyed_catalog states" and "list_ex (\<lambda>d. sd_super d = Closed) (btm_values states)"
    and "fold_story i events states = Inr s"
  shows "\<exists>d. btm_get states (snap_state s) = Some d \<and> sd_super d = snap_superstate s"
proof -
  obtain state where "resolve_superstate i states (f_deletion_active (replay states events)) state
      = Inr (snap_state s, snap_superstate s)"
    using fold_story_fields(4) [OF assms(3)] by blast
  moreover obtain d where "resting_state_for_closure states = Some d"
    using assms(2) resting_state_None [of states]
    by (cases "resting_state_for_closure states") (auto simp: list_ex_iff)
  ultimately show ?thesis
    using resting_state_defined [OF assms(1)]
    by (auto simp: resolve_superstate_def split: if_splits option.splits)
qed

subsection \<open>Drafts\<close>

fun is_draft_marker :: "StoryEvent \<Rightarrow> bool" where
  "is_draft_marker (StoryCreatedAsDraft _) = True"
| "is_draft_marker _ = False"

fun is_publication :: "StoryEvent \<Rightarrow> bool" where
  "is_publication (StoryPublished _) = True"
| "is_publication _ = False"

lemma apply_event_draft:
  "f_published (apply_event states f e) \<longleftrightarrow> is_publication e \<or> f_published f"
  "f_draft (apply_event states f e) \<longleftrightarrow>
     \<not> is_publication e \<and> (f_draft f \<or> is_draft_marker e \<and> \<not> f_published f)"
  by (cases e; simp add: fold_handler_defs Let_def git_link_None split: option.split)+

lemma replay_draft:
  "f_published (replay states es) \<longleftrightarrow> list_ex is_publication es"
  "f_draft (replay states es) \<longleftrightarrow> list_ex is_draft_marker es \<and> \<not> list_ex is_publication es"
proof (induction es rule: rev_induct)
  case Nil
  show "f_published (replay states []) \<longleftrightarrow> list_ex is_publication []"
    and "f_draft (replay states []) \<longleftrightarrow> list_ex is_draft_marker [] \<and> \<not> list_ex is_publication []"
    by (simp_all add: replay_def fold_init_def)
next
  case (snoc e es)
  show "f_published (replay states (es @ [e])) \<longleftrightarrow> list_ex is_publication (es @ [e])"
    and "f_draft (replay states (es @ [e])) \<longleftrightarrow>
      list_ex is_draft_marker (es @ [e]) \<and> \<not> list_ex is_publication (es @ [e])"
    by (auto simp: replay_append apply_event_draft snoc.IH)
qed

text \<open>
  Publication is irreversible and does not depend on the order of replay: a story is a draft exactly
  when its log marks it a draft somewhere and publishes it nowhere.
\<close>

theorem draft_iff_never_published:
  "fold_story i events states = Inr s \<Longrightarrow>
     snap_draft s \<longleftrightarrow> list_ex is_draft_marker events \<and> \<not> list_ex is_publication events"
  by (simp add: fold_story_fields replay_draft)

subsection \<open>Attachment ids\<close>

fun attachment_id_of :: "StoryEvent \<Rightarrow> 32 word option" where
  "attachment_id_of (StoryAttachmentAdded _ i _ _ _ _) = Some i"
| "attachment_id_of _ = None"

lemma apply_event_next_attachment:
  "f_next_attachment_id (apply_event states f e) =
     (case attachment_id_of e of Some i \<Rightarrow> max (f_next_attachment_id f) (i + 1)
      | None \<Rightarrow> f_next_attachment_id f)"
  by (cases e) (simp_all add: fold_handler_defs Let_def git_link_None split: option.split)

lemma apply_event_attachments:
  "set (f_attachments (apply_event states f e)) \<subseteq>
     set (f_attachments f) \<union> {a. attachment_id_of e = Some (att_id a)}"
  by (cases e) (auto simp add: fold_handler_defs Let_def git_link_None split: option.splits)

lemma word_less_suc: "(i :: 32 word) \<noteq> - 1 \<Longrightarrow> i < i + 1"
  using unatSuc [of i] by (simp add: word_less_nat_alt add.commute eq_neg_iff_add_eq_0)

text \<open>The counter is above every id the log ever assigned, removed attachments included.\<close>

lemma replay_attachment_ids:
  assumes "list_all (\<lambda>e. attachment_id_of e \<noteq> Some (- 1)) es"
  shows "\<forall>e \<in> set es. \<forall>i. attachment_id_of e = Some i \<longrightarrow> i < f_next_attachment_id (replay states es)"
  using assms
proof (induction es rule: rev_induct)
  case (snoc e es)
  show ?case
  proof (intro ballI allI impI)
    fix e' i
    assume "e' \<in> set (es @ [e])" and i: "attachment_id_of e' = Some i"
    then consider "e' \<in> set es" | "e' = e" by auto
    then show "i < f_next_attachment_id (replay states (es @ [e]))"
    proof cases
      case 1
      then have "i < f_next_attachment_id (replay states es)" using snoc i by simp
      then show ?thesis
        by (auto simp: replay_append apply_event_next_attachment less_max_iff_disj split: option.split)
    next
      case 2
      then have "i < i + 1" using snoc.prems i by (intro word_less_suc) auto
      then show ?thesis using 2 i
        by (simp add: replay_append apply_event_next_attachment less_max_iff_disj)
    qed
  qed
qed simp

lemma replay_attachments_logged:
  "a \<in> set (f_attachments (replay states es)) \<Longrightarrow> \<exists>e \<in> set es. attachment_id_of e = Some (att_id a)"
proof (induction es rule: rev_induct)
  case (snoc e es)
  then show ?case
    using apply_event_attachments [of states "replay states es" e] by (auto simp: replay_append)
qed (simp add: replay_def fold_init_def)

text \<open>
  Attachment ids are never reused: unless a log assigns the largest 32-bit id, the next id of the
  snapshot is above every id the log ever assigned, so above every attachment the story still has and
  every one it has dropped.
\<close>

theorem attachment_ids_fresh:
  assumes "fold_story i events states = Inr s"
    and "list_all (\<lambda>e. attachment_id_of e \<noteq> Some (- 1)) events"
  shows "(\<forall>e \<in> set events. \<forall>n. attachment_id_of e = Some n \<longrightarrow> n < snap_next_attachment_id s)
    \<and> (\<forall>a \<in> set (snap_attachments s). att_id a < snap_next_attachment_id s)"
  using replay_attachment_ids [OF assms(2)] replay_attachments_logged [of _ states events]
  by (fastforce simp: fold_story_fields [OF assms(1)])

subsection \<open>Block-inert events\<close>

text \<open>What a derived blockage or readiness reads of a story.\<close>

definition block_view ::
  "FoldState \<Rightarrow> string option \<times> bool \<times> string option \<times> StoryRelation list \<times> string option
     \<times> string option \<times> bool \<times> bool \<times> string option" where
  "block_view f =
     (f_state f, f_state_computed f, f_awaiting f, f_relationships f, f_closed_at f, f_hidden_at f,
      f_deletion_active f, f_draft f, f_story_type f)"

lemma inert_keeps_view:
  "\<not> may_change_effective_block e \<Longrightarrow> block_view (apply_event states f e) = block_view f"
  by (cases e) (simp_all add: may_change_effective_block_def BLOCK_INERT_EVENT_KINDS_def
    KIND_STORY_COMMIT_LINKED_def block_view_def on_comment_added_def on_commit_linked_def
    on_comment_retracted_def on_attachment_added_def split: option.split)

lemma inert_log_keeps_view:
  "list_all (\<lambda>e. \<not> may_change_effective_block e) es \<Longrightarrow>
     block_view (foldl (apply_event states) f es) = block_view f"
  by (induction es arbitrary: f) (simp_all add: inert_keeps_view)

text \<open>
  Appending events of the block-inert kinds leaves everything a blockage is derived from as it was:
  state, superstate, the computed-state latch, the awaiting reason, the relations, closure, archive,
  draft flag and type of the snapshot.
\<close>

theorem inert_events_keep_block_facts:
  assumes "list_all (\<lambda>e. \<not> may_change_effective_block e) new"
    and "fold_story i events states = Inr s" and "fold_story i (events @ new) states = Inr t"
  shows "snap_state t = snap_state s \<and> snap_superstate t = snap_superstate s
    \<and> snap_state_computed t = snap_state_computed s \<and> snap_awaiting t = snap_awaiting s
    \<and> snap_relationships t = snap_relationships s \<and> snap_closed_at t = snap_closed_at s
    \<and> snap_hidden_at t = snap_hidden_at s \<and> snap_draft t = snap_draft s
    \<and> snap_story_type t = snap_story_type s"
proof -
  have view: "block_view (replay states (events @ new)) = block_view (replay states events)"
    using inert_log_keeps_view [OF assms(1)] by (simp add: replay_append)
  have "Inr (snap_state t, snap_superstate t) = (Inr (snap_state s, snap_superstate s) :: _ result)"
    using fold_story_fields(4) [OF assms(2)] fold_story_fields(4) [OF assms(3)] view
    by (auto simp: block_view_def)
  then show ?thesis
    using view
    by (simp add: block_view_def fold_story_fields(5-21) [OF assms(2)] fold_story_fields(5-21) [OF assms(3)])
qed

subsection \<open>Transitions\<close>

lemma historical_slug_defined: "btm_get states slug = Some d \<Longrightarrow> historical_slug slug states = slug"
  by (auto simp: historical_slug_def btm_contains_def)

text \<open>What the batch of a transition leaves in the fold's locals.\<close>

lemma transition_into_open:
  assumes "btm_get states (sd_slug target) = Some target" and "sd_super target = Open"
  shows "foldl (apply_event states) f (state_transition_events target awaiting at []) =
    f\<lparr>f_state := Some (sd_slug target), f_state_computed := False, f_updated_at := Some at,
      f_closed_at := None, f_hidden_at := (if f_deletion_active f then None else f_hidden_at f),
      f_deletion_active := False\<rparr>"
  using assms
  by (simp add: state_transition_events_def on_state_changed_def is_open_slug_def historical_slug_defined
    Let_def)

lemma transition_into_closed:
  assumes "btm_get states (sd_slug target) = Some target" and "sd_super target = Closed"
  shows "foldl (apply_event states) f (state_transition_events target awaiting at []) =
    f\<lparr>f_state := Some (sd_slug target), f_state_computed := False, f_updated_at := Some at,
      f_closed_at := Some at, f_awaiting := (if awaiting then None else f_awaiting f)\<rparr>"
  using assms
  by (simp add: state_transition_events_def on_state_changed_def on_closed_and_archived_def
    is_open_slug_def historical_slug_defined Let_def)

text \<open>
  A transition does what it names: after the batch that moves a live story into a state of the
  catalog, the story is in that state with that state's superstate, the state is no longer computed, it
  was closed now or is not closed at all, a closed story awaits nothing, and every other field but the
  time of the last change is as it was.
\<close>

theorem transition_batch_effect:
  assumes "fold_story i events states = Inr s"
    and "btm_get states (sd_slug target) = Some target"
    and "\<not> f_deletion_active (replay states events)"
  shows "fold_story i (events @ state_transition_events target (snap_awaiting s \<noteq> None) at []) states =
    Inr (s\<lparr>snap_state := sd_slug target, snap_superstate := sd_super target, snap_state_computed := False,
           snap_updated_at := at,
           snap_awaiting := (if sd_super target = Closed then None else snap_awaiting s),
           snap_closed_at := (if sd_super target = Closed then Some at else None),
           snap_hidden_at := (if sd_super target = Open then None else f_hidden_at (replay states events))\<rparr>)"
proof (cases "sd_super target")
  case Open
  show ?thesis
    using assms(1,3) unfolding fold_story_def replay_append transition_into_open [OF assms(2) Open]
    by (auto simp: finish_fold_def result_bind_eq_Inr require_ok resolve_superstate_def assms(2) Open)
next
  case Closed
  show ?thesis
    using assms(1,3) unfolding fold_story_def replay_append transition_into_closed [OF assms(2) Closed]
    by (auto simp: finish_fold_def result_bind_eq_Inr require_ok resolve_superstate_def assms(2) Closed)
qed

subsection \<open>Comments and commits\<close>

lemma rposition_snoc: "p x \<Longrightarrow> rposition p (xs @ [x]) = Some (length xs)"
  by (induction xs) simp_all

lemma add_then_retract:
  assumes "parse_git_link_comment text = None"
  shows "on_comment_retracted later at text (on_comment_added at text f) = f\<lparr>f_updated_at := Some later\<rparr>"
  using assms
  by (simp add: on_comment_added_cases on_comment_retracted_def rposition_snoc remove_at_def)

lemma finish_fold_touch:
  "finish_fold i states (f\<lparr>f_updated_at := Some u\<rparr>) =
     map_sum id (\<lambda>s. s\<lparr>snap_updated_at := u\<rparr>) (finish_fold i states f)"
  by (cases "f_state f"; cases "f_title f"; cases "f_created_at f";
      cases "resolve_superstate i states (f_deletion_active f) (the (f_state f))")
    (auto simp: finish_fold_def require_def)

text \<open>
  Retracting a comment just added restores the story: the snapshot is the one before the comment,
  but for the time of its last change.
\<close>

theorem retract_restores_snapshot:
  assumes "parse_git_link_comment text = None" and "fold_story i events states = Inr s"
  shows "fold_story i (events @ [StoryCommentAdded at text, StoryCommentRetracted later at text]) states
    = Inr (s\<lparr>snap_updated_at := later\<rparr>)"
  using assms(2) unfolding fold_story_def replay_append
  by (simp add: add_then_retract [OF assms(1)] finish_fold_touch)

lemma hexdigit_not_continuation: "is_ascii_hexdigit c \<Longrightarrow> \<not> is_continuation c \<and> c \<noteq> CHR '':''"
  by (auto simp: ascii_class_defs is_continuation_def)

lemma split_once_first: "c \<notin> set xs \<Longrightarrow> split_once c (xs @ c # ys) = Some (xs, ys)"
  by (induction xs) auto

lemma short_sha_hex:
  assumes "list_all is_ascii_hexdigit sha"
  shows "short_sha sha = Some (take SHORT_SHA sha)"
proof (cases "length sha \<le> SHORT_SHA")
  case True
  then show ?thesis by (simp add: short_sha_def is_char_boundary_def Let_def)
next
  case False
  then have "sha ! SHORT_SHA \<in> set sha" by simp
  then show ?thesis using False assms hexdigit_not_continuation
    by (auto simp: short_sha_def is_char_boundary_def list_all_iff Let_def)
qed

text \<open>
  The comment a commit link writes reads back as that link: for a non-empty hexadecimal sha the
  comment parses to the short sha and the subject, whatever the subject holds, and folding it has the
  effect of folding the commit link itself.
\<close>

theorem git_link_round_trip:
  assumes "sha \<noteq> []" and "list_all is_ascii_hexdigit sha"
  shows "\<exists>text. git_link_comment sha subject = Some text
    \<and> parse_git_link_comment text = Some (take SHORT_SHA sha, subject)
    \<and> apply_event states f (StoryCommentAdded at text)
      = apply_event states f (StoryCommitLinked at (take SHORT_SHA sha) subject)"
proof -
  define short where "short = take SHORT_SHA sha"
  have hex: "list_all is_ascii_hexdigit short"
    using assms(2) by (auto simp: short_def list_all_iff dest: in_set_takeD)
  then have colon: "CHR '':'' \<notin> set short"
    using hexdigit_not_continuation by (auto simp: list_all_iff)
  have ne: "short \<noteq> []" using assms(1) by (simp add: short_def SHORT_SHA_def)
  have "parse_git_link_comment (''[git] '' @ short @ '': '' @ subject) = Some (short, subject)"
    using split_once_first [OF colon, of "CHR '' '' # subject"]
    by (simp add: parse_git_link_comment_def hex ne)
  moreover have "git_link_comment sha subject = Some (''[git] '' @ short @ '': '' @ subject)"
    by (simp add: git_link_comment_def short_sha_hex [OF assms(2)] short_def)
  ultimately show ?thesis
    by (simp add: on_comment_added_cases short_def)
qed

section \<open>Where a claimed story came from\<close>

lemma entry_index_snoc:
  "entry_index active (t @ [x]) =
     (if x = active \<and> (t = [] \<or> last t \<noteq> active) then Some (length t) else entry_index active t)"
proof -
  have "fold (\<lambda>i entry. if (t @ [x]) ! i = active \<and> (i = 0 \<or> (t @ [x]) ! (i - 1) \<noteq> active)
          then Some i else entry) [0..<length t] None = entry_index active t"
    unfolding entry_index_def
    by (rule fold_cong) (auto simp: nth_append fun_eq_iff)
  then show ?thesis
    by (cases "t = []") (auto simp: entry_index_def nth_append last_conv_nth)
qed

lemma entry_index_bound: "entry_index active t = Some i \<Longrightarrow> i < length t"
  by (induction t rule: rev_induct) (auto simp: entry_index_snoc less_Suc_eq split: if_splits,
    simp add: entry_index_def)

text \<open>The same resolution read off the timeline from its end.\<close>

definition claimed_in :: "string \<Rightarrow> string list \<Rightarrow> string option" where
  "claimed_in active t =
     (case entry_index active t of None \<Rightarrow> None | Some i \<Rightarrow> if 0 < i then Some (t ! (i - 1)) else None)"

lemma claimed_in_snoc:
  "claimed_in active (t @ [x]) =
     (if x = active \<and> (t = [] \<or> last t \<noteq> active) then (if t = [] then None else Some (last t))
      else claimed_in active t)"
  by (auto simp: claimed_in_def entry_index_snoc nth_append last_conv_nth
    dest: entry_index_bound split: option.split)

lemma claimed_in_runs:
  "claimed_in active t =
     (case dropWhile (\<lambda>slug. slug = active) (dropWhile (\<lambda>slug. slug \<noteq> active) (rev t)) of
        [] \<Rightarrow> None | p # _ \<Rightarrow> Some p)"
proof (induction t rule: rev_induct)
  case Nil
  then show ?case by (simp add: claimed_in_def entry_index_def)
next
  case (snoc x t)
  show ?case
    unfolding claimed_in_snoc snoc.IH
    by (cases t rule: rev_cases) auto
qed

text \<open>
  A released story goes back to where it was claimed from: reading the states of the log from the
  latest, skip those after the last stay in the active state, skip that stay, and the next one is the
  answer; there is none when the story was never active or began so.
\<close>

theorem state_claimed_from_spec:
  "state_claimed_from events active =
     (case dropWhile (\<lambda>slug. slug = active)
             (dropWhile (\<lambda>slug. slug \<noteq> active) (rev (state_timeline events))) of
        [] \<Rightarrow> None | p # _ \<Rightarrow> Some p)"
  using claimed_in_runs [of active "state_timeline events"]
  by (simp add: state_claimed_from_def claimed_in_def Let_def)

lemma event_kind_listed: "event_kind e \<in> set EVENT_KINDS"
  by (cases e) (simp_all add: EVENT_KINDS_def)

text \<open>
  The list of event kinds is complete and closed: every event of the model has a listed kind, and
  the kinds that cannot change a blockage are all among them while the retired assignment kinds are not.
\<close>

theorem event_kinds_complete:
  "is_known_event_kind (event_kind e) \<and> distinct EVENT_KINDS
    \<and> set BLOCK_INERT_EVENT_KINDS \<subseteq> set EVENT_KINDS
    \<and> {kind. is_retired_assignment kind} \<inter> {kind. is_known_event_kind kind} = {}"
  using event_kind_listed [of e]
  by (auto simp: is_known_event_kind_def is_retired_assignment_def EVENT_KINDS_def
    BLOCK_INERT_EVENT_KINDS_def KIND_STORY_COMMIT_LINKED_def)

section \<open>A story's history, evaluated\<close>

text \<open>A project's catalog and the log of a story that was drafted, published, linked, blocked and closed.\<close>

definition sample_state :: "string \<Rightarrow> SuperState \<Rightarrow> StateDef" where
  "sample_state slug super = \<lparr>sd_slug = slug, sd_super = super, sd_role = None, sd_description = None\<rparr>"

definition sample_catalog :: catalog_map where
  "sample_catalog =
     btm_of_list (map (\<lambda>d. (sd_slug d, d))
       [sample_state ''todo'' Open, sample_state ''in-progress'' Open, sample_state ''verifying'' Open,
        sample_state ''done'' Closed, sample_state ''dropped'' Closed])"

definition sample_log :: "StoryEvent list" where
  "sample_log =
     [StoryCreated ''t1'' ''Ship it'' ''todo'', StoryCreatedAsDraft ''t1'', StoryPublished ''t2'',
      StoryPrioritySet ''t3'' High, StoryRelationshipAdded ''t4'' ''SH-2'' ''blocked-by'',
      StoryAttachmentAdded ''t5'' 1 ''a.png'' Png 10 ''00'', StoryAttachmentAdded ''t5'' 2 ''b.png'' Png 10 ''01'',
      StoryAttachmentRemoved ''t6'' 2, StoryAwaitingSet ''t7'' ''review'', StoryStateChanged ''t8'' ''in-progress'']"

definition sample_snapshot :: StorySnapshot where
  "sample_snapshot =
     \<lparr>snap_id = ''SH-1'', snap_title = ''Ship it'', snap_created_at = ''t1'', snap_updated_at = ''t8'',
      snap_state = ''in-progress'', snap_superstate = Open, snap_state_computed = False,
      snap_awaiting = Some ''review'', snap_comments = [], snap_referenced_by_commits = [],
      snap_relationships = [StoryRelation ''blocked-by'' ''SH-2''], snap_priority = High,
      snap_priority_assessed = True, snap_complexity = ComplexityMedium, snap_complexity_assessed = False,
      snap_labels = [], snap_story_type = None, snap_description = None, snap_closed_at = None,
      snap_hidden_at = None, snap_draft = False,
      snap_attachments = [\<lparr>att_id = 1, att_name = ''a.png'', att_media_type = Png, att_byte_len = 10,
         att_sha256 = ''00'', att_added_at = ''t5''\<rparr>],
      snap_next_attachment_id = 3\<rparr>"

lemma sample_fold: "fold_story ''SH-1'' sample_log sample_catalog = Inr sample_snapshot"
  by code_simp

lemma sample_catalog_ok: "keyed_catalog sample_catalog"
  by code_simp

theorem fold_story_well_formed_witness: "snap_id sample_snapshot = ''SH-1'' \<and> snapshot_ok sample_snapshot"
  by (rule fold_story_well_formed [OF sample_fold])

theorem fold_superstate_agrees_witness:
  "\<exists>d. btm_get sample_catalog (snap_state sample_snapshot) = Some d \<and> sd_super d = snap_superstate sample_snapshot"
  by (rule fold_superstate_agrees [OF sample_catalog_ok _ sample_fold]) code_simp

theorem draft_iff_never_published_witness:
  "snap_draft sample_snapshot \<longleftrightarrow> list_ex is_draft_marker sample_log \<and> \<not> list_ex is_publication sample_log"
  by (rule draft_iff_never_published [OF sample_fold])

lemma sample_log_ids: "list_all (\<lambda>e. attachment_id_of e \<noteq> Some (- 1)) sample_log"
  by code_simp

theorem attachment_ids_fresh_witness:
  "list_all (\<lambda>a. att_id a < snap_next_attachment_id sample_snapshot) (snap_attachments sample_snapshot)
    \<and> (2 :: 32 word) < snap_next_attachment_id sample_snapshot"
  using attachment_ids_fresh [OF sample_fold sample_log_ids] by (simp add: list_all_iff sample_log_def)

lemma sample_inert:
  "list_all (\<lambda>e. \<not> may_change_effective_block e) [StoryPrioritySet ''t9'' Low, StoryTitleSet ''t9'' ''Ship'']"
  by code_simp

lemma sample_fold_inert:
  "fold_story ''SH-1'' (sample_log @ [StoryPrioritySet ''t9'' Low, StoryTitleSet ''t9'' ''Ship'']) sample_catalog
    = Inr (sample_snapshot\<lparr>snap_title := ''Ship'', snap_updated_at := ''t9'', snap_priority := Low\<rparr>)"
  by code_simp

theorem inert_events_keep_block_facts_witness:
  "snap_state (sample_snapshot\<lparr>snap_title := ''Ship'', snap_updated_at := ''t9'', snap_priority := Low\<rparr>)
    = snap_state sample_snapshot"
  using inert_events_keep_block_facts [OF sample_inert sample_fold sample_fold_inert] by (rule conjunct1)

lemma sample_done: "btm_get sample_catalog (sd_slug (sample_state ''done'' Closed)) = Some (sample_state ''done'' Closed)"
  by code_simp

lemma sample_live: "\<not> f_deletion_active (replay sample_catalog sample_log)"
  by code_simp

theorem transition_batch_effect_witness:
  "fold_story ''SH-1'' (sample_log @ state_transition_events (sample_state ''done'' Closed)
      (snap_awaiting sample_snapshot \<noteq> None) ''t9'' []) sample_catalog
    = Inr (sample_snapshot\<lparr>snap_state := ''done'', snap_superstate := Closed, snap_state_computed := False,
        snap_updated_at := ''t9'', snap_awaiting := None, snap_closed_at := Some ''t9'',
        snap_hidden_at := f_hidden_at (replay sample_catalog sample_log)\<rparr>)"
  using transition_batch_effect [OF sample_fold sample_done sample_live] by (simp add: sample_state_def)

theorem retract_restores_snapshot_witness:
  "fold_story ''SH-1'' (sample_log @ [StoryCommentAdded ''t9'' ''hm'', StoryCommentRetracted ''u'' ''t9'' ''hm''])
      sample_catalog = Inr (sample_snapshot\<lparr>snap_updated_at := ''u''\<rparr>)"
  by (rule retract_restores_snapshot [OF _ sample_fold]) code_simp

theorem git_link_round_trip_witness:
  "\<exists>text. git_link_comment ''0123456789abcdef'' ''Fix: it'' = Some text
    \<and> parse_git_link_comment text = Some (''0123456'', ''Fix: it'')"
  using git_link_round_trip [of "''0123456789abcdef''" "''Fix: it''"]
  by (simp add: ascii_class_defs SHORT_SHA_def) blast

end
