(* ===== verification/Story_Admission.thy ===== *)
theory Story_Admission
  imports Fold_Facts Story_Readiness
begin

text \<open>
  Which values may enter a story's log: option tokens and labels (\<^verbatim>\<open>src/src/domain.rs\<close>, lines 26 to 44,
  1247 to 1288 and 1445 to 1482).  The Unicode lower-casing of a string and the debug rendering of a list
  are parameters; the laws the code relies on for the former are the locale \<open>label_lowercase\<close>,
  interpreted on the ASCII lower-casing of \<open>Story_Text\<close>.  Normalisation is idempotent and its result
  always passes the append guard.
\<close>

section \<open>Option tokens\<close>

definition option_byte :: "char \<Rightarrow> bool" where
  "option_byte c \<longleftrightarrow> is_ascii_alphanumeric c \<or> c = CHR ''.'' \<or> c = CHR ''_'' \<or> c = CHR ''-''"

definition validate_dispatch_option_token :: "string \<Rightarrow> string + unit" where
  "validate_dispatch_option_token raw =
     (let len = char_count raw in
      if \<not> (1 \<le> len \<and> len \<le> 64) then Inl (''must be 1-64 characters (got '' @ nat_str len @ '')'')
      else if \<not> list_all option_byte raw
        then Inl ''must contain only letters, digits, `.`, `_`, or `-`''
      else Inr ())"

section \<open>Labels\<close>

definition normalize_labels :: "(string \<Rightarrow> string) \<Rightarrow> string list \<Rightarrow> string list" where
  "normalize_labels lower raw =
     bset_collect (filter (\<lambda>s. s \<noteq> [])
       (concat (map (\<lambda>value. map (\<lambda>s. lower (trim s)) (split_on (CHR '','') value)) raw)))"

definition em_dash :: string where
  "em_dash = [CHR 0xE2, CHR 0x80, CHR 0x94]"

definition validate_label :: "(string \<Rightarrow> string) \<Rightarrow> string \<Rightarrow> unit result" where
  "validate_label lower label =
     (if trim label \<noteq> label \<or> label = [] then
        Inl (Validation (''invalid label `'' @ label
          @ ''`: a label cannot be blank or carry leading/trailing whitespace''))
      else if CHR '','' \<in> set label then
        Inl (Validation (''invalid label `'' @ label @ ''`: a label cannot contain a comma '' @ em_dash
          @ '' `,` separates labels, it cannot be part of one''))
      else if label \<noteq> lower label then
        Inl (Validation (''invalid label `'' @ label @ ''`: labels must be lowercase''))
      else Inr ())"

definition validate_event_for_append ::
  "(string \<Rightarrow> string) \<Rightarrow> (string list \<Rightarrow> string) \<Rightarrow> StoryEvent \<Rightarrow> unit result" where
  "validate_event_for_append lower debug event =
     (case event of
        StoryLabelsSet _ labels \<Rightarrow>
          result_bind (for_each (validate_label lower) labels) (\<lambda>_.
            if labels \<noteq> normalize_labels lower labels
            then Inl (Validation (''invalid label set '' @ debug labels
              @ '': labels must be lowercase, sorted, and unique''))
            else Inr ())
      | _ \<Rightarrow> Inr ())"

text \<open>What the label code relies on of \<open>str::to_lowercase\<close>.\<close>

locale label_lowercase =
  fixes lower :: "string \<Rightarrow> string"
  assumes lower_idem: "lower (lower s) = lower s"
    and lower_no_comma: "CHR '','' \<notin> set s \<Longrightarrow> CHR '','' \<notin> set (lower s)"
    and lower_trimmed: "trim (lower (trim s)) = lower (trim s)"
begin

lemma normal_label:
  assumes "l \<in> set (normalize_labels lower raw)"
  shows "l \<noteq> []" and "CHR '','' \<notin> set l" and "trim l = l" and "lower l = l"
proof -
  obtain v s where l: "l = lower (trim s)" "s \<in> set (split_on (CHR '','') v)" "l \<noteq> []"
    using assms by (auto simp: normalize_labels_def)
  have "CHR '','' \<notin> set s" using l(2)
    by (induction v arbitrary: s) (auto split: if_splits list.splits)
  then have "CHR '','' \<notin> set (trim s)" using set_trim by blast
  then show "l \<noteq> []" "CHR '','' \<notin> set l" "trim l = l" "lower l = l"
    using l lower_no_comma lower_trimmed lower_idem by simp_all
qed

lemma normalize_fixed:
  assumes "\<And>l. l \<in> set labels \<Longrightarrow> l \<noteq> [] \<and> CHR '','' \<notin> set l \<and> trim l = l \<and> lower l = l"
  shows "normalize_labels lower labels = bset_collect labels"
proof -
  have "split_on (CHR '','') l = [l]" if "l \<in> set labels" for l
  proof -
    have "CHR '','' \<notin> set l" using assms that by blast
    then show ?thesis by (induction l) auto
  qed
  then have "concat (map (\<lambda>value. map (\<lambda>s. lower (trim s)) (split_on (CHR '','') value)) labels) = labels"
    using assms by (induction labels) simp_all
  then show ?thesis using assms by (simp add: normalize_labels_def filter_id_conv)
qed

lemma normalize_idem: "normalize_labels lower (normalize_labels lower raw) = normalize_labels lower raw"
proof -
  have "bset_ok (normalize_labels lower raw)" by (simp add: normalize_labels_def)
  then show ?thesis
    using normalize_fixed [of "normalize_labels lower raw"] normal_label [of _ raw] bset.collect_elems
    by (simp add: bset_collect_def)
qed

lemma normalized_accepted:
  "validate_event_for_append lower debug (StoryLabelsSet at (normalize_labels lower raw)) = Inr ()"
proof -
  have "for_each (validate_label lower) (normalize_labels lower raw) = Inr ()"
    using normal_label [of _ raw] by (simp add: for_each_ok validate_label_def)
  then show ?thesis by (simp add: validate_event_for_append_def normalize_idem)
qed

end

lemma ascii_lower_fixed: "\<not> is_ascii_alphabetic p \<Longrightarrow> p = ascii_lower c \<longleftrightarrow> p = c"
proof (cases "is_ascii_uppercase c")
  case True
  assume p: "\<not> is_ascii_alphabetic p"
  have "65 \<le> (of_char c :: nat)" "of_char c \<le> (90::nat)" using True
    by (simp_all add: is_ascii_uppercase_def less_eq_char_def)
  then have "is_ascii_lowercase (ascii_lower c)" using True
    by (simp add: ascii_lower_def is_ascii_lowercase_def less_eq_char_def)
  then show ?thesis using p True by (auto simp: is_ascii_alphabetic_def)
qed (simp add: ascii_lower_def)

lemma strip_prefix_lower:
  "list_all (\<lambda>c. \<not> is_ascii_alphabetic c) w \<Longrightarrow>
   strip_prefix w (to_ascii_lowercase s) = map_option to_ascii_lowercase (strip_prefix w s)"
  by (induction w s rule: strip_prefix.induct) (simp_all add: to_ascii_lowercase_def ascii_lower_fixed)

lemma strip_one_lower:
  assumes "\<forall>w \<in> set ws. list_all (\<lambda>c. \<not> is_ascii_alphabetic c) w"
  shows "strip_one ws (to_ascii_lowercase s) = map_option to_ascii_lowercase (strip_one ws s)"
  using assms by (induction ws) (auto simp: strip_one_def strip_prefix_lower split: option.splits)

lemma trim_with_lower:
  assumes "\<forall>w \<in> set ws. list_all (\<lambda>c. \<not> is_ascii_alphabetic c) w"
  shows "trim_with ws (to_ascii_lowercase s) = to_ascii_lowercase (trim_with ws s)"
  using assms
proof (induction ws s rule: trim_with.induct)
  case (1 ws s)
  show ?case
  proof (cases "strip_one ws s")
    case None
    then show ?thesis using strip_one_lower [OF "1.prems", of s] by (simp add: trim_with_fix)
  next
    case (Some r)
    then show ?thesis using strip_one_lower [OF "1.prems", of s] "1.IH" [OF Some "1.prems"]
      by (simp add: trim_with.simps [of ws s] trim_with.simps [of ws "to_ascii_lowercase s"])
  qed
qed

lemma white_space_no_letter: "list_all (list_all (\<lambda>c. \<not> is_ascii_alphabetic c)) white_space"
  by (simp add: white_space_def is_ascii_alphabetic_def is_ascii_lowercase_def is_ascii_uppercase_def
    less_eq_char_def)

lemma trim_ascii_lower: "trim (to_ascii_lowercase s) = to_ascii_lowercase (trim s)"
proof -
  have ws: "\<forall>w \<in> set white_space. list_all (\<lambda>c. \<not> is_ascii_alphabetic c) w"
    using white_space_no_letter by (simp add: list_all_iff)
  then have "\<forall>w \<in> set (map rev white_space). list_all (\<lambda>c. \<not> is_ascii_alphabetic c) w"
    by (simp add: list_all_iff)
  from trim_with_lower [OF ws] trim_with_lower [OF this] show ?thesis
    by (simp add: trim_def trim_start_def trim_end_def to_ascii_lowercase_def rev_map)
qed

text \<open>The ASCII lower-casing of the standard library obeys the laws.\<close>

interpretation ascii_labels: label_lowercase to_ascii_lowercase
proof
  fix s :: string
  show "to_ascii_lowercase (to_ascii_lowercase s) = to_ascii_lowercase s" by simp
  show "CHR '','' \<notin> set (to_ascii_lowercase s)" if "CHR '','' \<notin> set s"
  proof -
    have "\<not> is_ascii_alphabetic (CHR '','')"
      by (simp add: is_ascii_alphabetic_def is_ascii_lowercase_def is_ascii_uppercase_def less_eq_char_def)
    then have "CHR '','' \<noteq> ascii_lower c" if "c \<in> set s" for c
      using that \<open>CHR '','' \<notin> set s\<close> ascii_lower_fixed [of "CHR '',''" c] by auto
    then show ?thesis by (auto simp: to_ascii_lowercase_def)
  qed
  show "trim (to_ascii_lowercase (trim s)) = to_ascii_lowercase (trim s)"
    by (simp add: trim_ascii_lower trim_idem)
qed

text \<open>
  Whatever labels a caller gives, the normalised set is fixed under normalisation, holds only
  lower-case, trimmed, non-blank labels without a comma, and the append guard accepts the event that
  records it.
\<close>

theorem normalized_labels_admitted:
  assumes "label_lowercase lower"
  shows "normalize_labels lower (normalize_labels lower raw) = normalize_labels lower raw
    \<and> (\<forall>l. l \<in> set (normalize_labels lower raw) \<longrightarrow> validate_label lower l = Inr ())
    \<and> validate_event_for_append lower debug (StoryLabelsSet at (normalize_labels lower raw)) = Inr ()"
proof -
  note laws = label_lowercase.normal_label [OF assms] label_lowercase.normalize_idem [OF assms]
    label_lowercase.normalized_accepted [OF assms]
  have "validate_label lower l = Inr ()" if "l \<in> set (normalize_labels lower raw)" for l
    using laws(1-4) [OF that] by (simp add: validate_label_def)
  then show ?thesis using laws(5,6) by blast
qed

theorem normalized_labels_admitted_witness:
  "validate_event_for_append to_ascii_lowercase (\<lambda>_. [])
     (StoryLabelsSet ''t'' (normalize_labels to_ascii_lowercase [''Web, sse'', '' WEB''])) = Inr ()
   \<and> normalize_labels to_ascii_lowercase [''Web, sse'', '' WEB''] = [''sse'', ''web'']"
proof
  show "validate_event_for_append to_ascii_lowercase (\<lambda>_. [])
     (StoryLabelsSet ''t'' (normalize_labels to_ascii_lowercase [''Web, sse'', '' WEB''])) = Inr ()"
    using normalized_labels_admitted [OF ascii_labels.label_lowercase_axioms] by blast
qed code_simp

end
