(* ===== verification/Story_Transition.thy ===== *)
theory Story_Transition
  imports Fold_Facts Story_Readiness
begin

text \<open>
  The admission of state changes (\<^verbatim>\<open>src/src/domain/transition.rs\<close>): a story with an open dependency may
  not advance.  History is folded as it is; only the proposed events are judged, each against the fold
  before it.  The theorems give the exact acceptance condition of a move, of a batch of events and of the
  state a story is filed in, and the safety statement behind them: no accepted batch that leaves the
  relations alone takes a blocked story to the completion state.
\<close>

section \<open>The guards\<close>

definition open_blockers :: "StorySnapshot \<Rightarrow> story_map \<Rightarrow> string list" where
  "open_blockers story index =
     map other_id (filter (\<lambda>r. relation r = ''blocked-by''
       \<and> (case index_story index (other_id r) of
            Some other \<Rightarrow> snap_superstate other = Open | None \<Rightarrow> False)) (snap_relationships story))"

text \<open>
  \<open>position_of\<close> is the closure \<open>position\<close> of the source: where the catalog lists a slug, or the given
  refusal.
\<close>

definition position_of :: "StateDef list \<Rightarrow> string \<Rightarrow> string \<Rightarrow> nat result" where
  "position_of states refusal slug =
     (case position (\<lambda>s. sd_slug s = slug) states of Some n \<Rightarrow> Inr n | None \<Rightarrow> Inl (Validation refusal))"

definition transition_source :: "StorySnapshot \<Rightarrow> string option \<Rightarrow> string" where
  "transition_source story pipeline =
     (if snap_state story = ''blocked''
      then (case pipeline of Some slug \<Rightarrow> slug | None \<Rightarrow> snap_state story)
      else snap_state story)"

definition validate_transition ::
  "StorySnapshot \<Rightarrow> string \<Rightarrow> string option \<Rightarrow> StateDef list \<Rightarrow> story_map \<Rightarrow> unit result" where
  "validate_transition story target pipeline states index =
     (if target = snap_state story \<or> target = DROPPED_STATE_SLUG \<or> target = ''blocked'' then Inr ()
      else
        (let blockers = open_blockers story index in
         if blockers = [] then Inr ()
         else
           (let source = transition_source story pipeline;
                uncomparable = (\<lambda>slug. ''cannot compare state `'' @ slug @ ''` for story `'' @ snap_id story
                  @ ''`; repair the state catalog with `story doctor --fix`'');
                refusal = Validation (''story `'' @ snap_id story @ ''` cannot advance from `''
                  @ snap_state story @ ''` to `'' @ target @ ''` while blocked by '' @ join '', '' blockers
                  @ ''; move to `dropped` to abandon it'') in
            if target = COMPLETION_STATE_SLUG then Inl refusal
            else result_bind (position_of states (uncomparable target) target) (\<lambda>t.
              result_bind (position_of states (uncomparable source) source) (\<lambda>s.
                if t > s then Inl refusal else Inr ())))))"

definition pipeline_position :: "StateDef list \<Rightarrow> catalog_map \<Rightarrow> StoryEvent list \<Rightarrow> string option" where
  "pipeline_position states catalog events =
     (case find_map (\<lambda>event.
        (case event of
           StoryCreated _ _ state \<Rightarrow> if state \<noteq> ''blocked'' then Some (historical_slug state catalog) else None
         | StoryStateChanged _ state \<Rightarrow> if state \<noteq> ''blocked'' then Some (historical_slug state catalog) else None
         | StoryClosedAndArchived _ state \<Rightarrow>
             if state \<noteq> ''blocked'' then Some (historical_slug state catalog) else None
         | _ \<Rightarrow> None)) (rev events) of
        Some slug \<Rightarrow> Some slug
      | None \<Rightarrow> map_option sd_slug (find (\<lambda>s. sd_slug s \<noteq> ''blocked'' \<and> sd_super s = Open) states))"

definition catalog_of :: "StateDef list \<Rightarrow> catalog_map" where
  "catalog_of states = btm_of_list (map (\<lambda>s. (sd_slug s, s)) states)"

text \<open>One turn of the loop, and the loop over the proposed events.\<close>

definition validate_next ::
  "string \<Rightarrow> StateDef list \<Rightarrow> story_map \<Rightarrow> StoryEvent list \<Rightarrow> StoryEvent \<Rightarrow> unit result" where
  "validate_next i states index events event =
     (let catalog = catalog_of states in
      result_bind (if events = [] then Inr None
                   else result_bind (fold_story i events catalog) (\<lambda>s. Inr (Some s))) (\<lambda>before.
      let pipeline = pipeline_position states catalog events in
      result_bind (fold_story i (events @ [event]) catalog) (\<lambda>after.
      (case before of
         Some before \<Rightarrow> validate_transition before (snap_state after) pipeline states index
       | None \<Rightarrow> Inr ()))))"

fun validate_append ::
  "string \<Rightarrow> StoryEvent list \<Rightarrow> StoryEvent list \<Rightarrow> StateDef list \<Rightarrow> story_map \<Rightarrow> unit result" where
  "validate_append i events [] states index = Inr ()"
| "validate_append i events (event # proposed) states index =
     result_bind (validate_next i states index events event)
       (\<lambda>_. validate_append i (events @ [event]) proposed states index)"

definition validate_blocked_creation ::
  "string \<Rightarrow> StateDef list \<Rightarrow> string list \<Rightarrow> string list \<Rightarrow> unit result" where
  "validate_blocked_creation state states blockers opens =
     (if blockers = [] then Inr ()
      else (case default_open_state states of
        None \<Rightarrow> Inl (Validation ''project has no OPEN-mapped default state'')
      | Some dflt \<Rightarrow>
          if state = ''blocked'' then
            Inl (Validation (''a story filed with blockers cannot open in `blocked`: that state is a separate hold ''
              @ ''that stays after '' @ join '', '' blockers
              @ '' close, so the story would never become ready again. File it in `'' @ sd_slug dflt
              @ ''`; its blocked-by edges already keep it from being claimed''))
          else if opens = [] then Inr ()
          else
            (let uncomparable = (\<lambda>slug. ''cannot compare state `'' @ slug
                @ ''`; repair the state catalog with `story doctor --fix`'') in
             result_bind (position_of states (uncomparable state) state) (\<lambda>p.
             result_bind (position_of states (uncomparable (sd_slug dflt)) (sd_slug dflt)) (\<lambda>d.
               if p > d then
                 Inl (Validation (''a story cannot be filed in `'' @ state @ ''` while it is blocked by ''
                   @ join '', '' opens @ ''; file it in `'' @ sd_slug dflt
                   @ ''` and move it once its blockers close''))
               else Inr ())))))"

section \<open>What the guards accept\<close>

text \<open>\<open>not_later states a b\<close>: the catalog lists both slugs and \<open>a\<close> no later than \<open>b\<close>.\<close>

definition not_later :: "StateDef list \<Rightarrow> string \<Rightarrow> string \<Rightarrow> bool" where
  "not_later states a b \<longleftrightarrow>
     (case (position (\<lambda>s. sd_slug s = a) states, position (\<lambda>s. sd_slug s = b) states) of
        (Some m, Some n) \<Rightarrow> m \<le> n | _ \<Rightarrow> False)"

lemma position_bind_ok:
  "result_bind (position_of states r a) (\<lambda>m. result_bind (position_of states q b) (\<lambda>n.
     if m > n then Inl e else Inr ())) = Inr () \<longleftrightarrow> not_later states a b"
  by (auto simp: position_of_def not_later_def split: option.splits)

lemma transition_accepts:
  "validate_transition story target pipeline states index = Inr () \<longleftrightarrow>
     target = snap_state story \<or> target = ''dropped'' \<or> target = ''blocked''
     \<or> open_blockers story index = []
     \<or> (target \<noteq> ''done'' \<and> not_later states target (transition_source story pipeline))"
  unfolding validate_transition_def Let_def
  by (simp add: position_bind_ok DROPPED_STATE_SLUG_def COMPLETION_STATE_SLUG_def)

lemma validate_next_ok:
  "validate_next i states index events event = Inr () \<longleftrightarrow>
     (\<exists>after. fold_story i (events @ [event]) (catalog_of states) = Inr after
       \<and> (events = [] \<or> (\<exists>before. fold_story i events (catalog_of states) = Inr before
            \<and> validate_transition before (snap_state after)
                (pipeline_position states (catalog_of states) events) states index = Inr ())))"
  by (auto simp: validate_next_def result_bind_eq_Inr Let_def split: option.splits)

lemma validate_append_splits:
  "validate_append i events proposed states index = Inr () \<longleftrightarrow>
     (\<forall>pre e post. proposed = pre @ e # post \<longrightarrow> validate_next i states index (events @ pre) e = Inr ())"
proof (induction proposed arbitrary: events)
  case (Cons x xs)
  have "(\<forall>pre e post. x # xs = pre @ e # post \<longrightarrow> validate_next i states index (events @ pre) e = Inr ())
    \<longleftrightarrow> validate_next i states index events x = Inr ()
      \<and> (\<forall>pre e post. xs = pre @ e # post \<longrightarrow> validate_next i states index ((events @ [x]) @ pre) e = Inr ())"
    by (auto simp: Cons_eq_append_conv)
  then show ?case using Cons.IH [of "events @ [x]"] by (auto simp: result_bind_eq_Inr)
qed simp

text \<open>
  A move of a story is accepted exactly when it changes nothing, abandons the story, parks it in
  \<open>blocked\<close>, has no open dependency against it, or goes to a catalogued state other than \<open>done\<close> that the
  catalog lists no later than the story's position, which for a parked story is its last pipeline state.
\<close>

theorem validate_transition_iff:
  "validate_transition story target pipeline states index = Inr () \<longleftrightarrow>
     target = snap_state story \<or> target = ''dropped'' \<or> target = ''blocked''
     \<or> open_blockers story index = []
     \<or> (target \<noteq> ''done'' \<and> not_later states target (transition_source story pipeline))"
  by (rule transition_accepts)

text \<open>
  C24. a batch is accepted exactly when, at every event of it, the history so far and the history with the
  event both fold and the move between the two snapshots is one the transition guard accepts; the first
  event of an empty history is only required to fold.
\<close>

theorem validate_append_iff:
  "validate_append i history proposed states index = Inr () \<longleftrightarrow>
     (\<forall>pre e post. proposed = pre @ e # post \<longrightarrow>
        (\<exists>after. fold_story i (history @ pre @ [e]) (catalog_of states) = Inr after
          \<and> (history @ pre = [] \<or> (\<exists>before. fold_story i (history @ pre) (catalog_of states) = Inr before
               \<and> validate_transition before (snap_state after)
                   (pipeline_position states (catalog_of states) (history @ pre)) states index = Inr ()))))"
  unfolding validate_append_splits validate_next_ok by simp

section \<open>A blocked story does not complete\<close>

definition changes_relations :: "StoryEvent \<Rightarrow> bool" where
  "changes_relations e \<longleftrightarrow>
     (case e of StoryRelationshipAdded _ _ _ \<Rightarrow> True | StoryRelationshipRemoved _ _ _ \<Rightarrow> True | _ \<Rightarrow> False)"

lemma keeps_relations: "\<not> changes_relations e \<Longrightarrow> f_relationships (apply_event states f e) = f_relationships f"
  by (cases e) (simp_all add: changes_relations_def fold_handler_defs Let_def split: option.split)

lemma open_blockers_cong:
  "snap_relationships t = snap_relationships s \<Longrightarrow> open_blockers t index = open_blockers s index"
  by (simp add: open_blockers_def)

lemma next_keeps_incomplete:
  assumes "validate_next i states index events e = Inr ()" and "\<not> changes_relations e"
    and "fold_story i events (catalog_of states) = Inr s" and "events \<noteq> []"
    and "open_blockers s index \<noteq> []" and "snap_state s \<noteq> ''done''"
  obtains t where "fold_story i (events @ [e]) (catalog_of states) = Inr t"
    and "open_blockers t index = open_blockers s index" and "snap_state t \<noteq> ''done''"
proof -
  obtain t where t: "fold_story i (events @ [e]) (catalog_of states) = Inr t"
    and v: "validate_transition s (snap_state t)
      (pipeline_position states (catalog_of states) events) states index = Inr ()"
    using assms(1,3,4) unfolding validate_next_ok by auto
  have "snap_relationships t = snap_relationships s"
    using fold_story_fields(9) [OF t] fold_story_fields(9) [OF assms(3)] keeps_relations [OF assms(2)]
    by (simp add: replay_append)
  moreover have "snap_state t \<noteq> ''done''"
    using v assms(5,6) unfolding transition_accepts by auto
  ultimately show thesis using that t open_blockers_cong by blast
qed

lemma append_keeps_incomplete:
  assumes "validate_append i events proposed states index = Inr ()"
    and "list_all (\<lambda>e. \<not> changes_relations e) proposed"
    and "fold_story i events (catalog_of states) = Inr s" and "events \<noteq> []"
    and "open_blockers s index \<noteq> []" and "snap_state s \<noteq> ''done''"
  shows "\<exists>t. fold_story i (events @ proposed) (catalog_of states) = Inr t
    \<and> open_blockers t index = open_blockers s index \<and> snap_state t \<noteq> ''done''"
  using assms
proof (induction proposed arbitrary: events s)
  case (Cons e rest)
  have e: "validate_next i states index events e = Inr ()" "\<not> changes_relations e"
    and rest: "validate_append i (events @ [e]) rest states index = Inr ()"
    using Cons.prems(1,2) by (auto simp: result_bind_eq_Inr)
  obtain t where t: "fold_story i (events @ [e]) (catalog_of states) = Inr t"
    and same: "open_blockers t index = open_blockers s index" "snap_state t \<noteq> ''done''"
    using next_keeps_incomplete [OF e Cons.prems(3-6)] by blast
  show ?case using Cons.IH [OF rest _ t] same Cons.prems(2,5) by auto
qed auto

text \<open>
  C8. no accepted batch that leaves the relations alone completes a story that has an open dependency:
  the story still folds afterwards, has the same open dependencies and is not in \<open>done\<close>.
\<close>

theorem blocked_story_not_completed:
  assumes "validate_append i history proposed states index = Inr ()"
    and "list_all (\<lambda>e. \<not> changes_relations e) proposed"
    and "fold_story i history (catalog_of states) = Inr s"
    and "open_blockers s index \<noteq> []" and "snap_state s \<noteq> ''done''"
  shows "\<exists>t. fold_story i (history @ proposed) (catalog_of states) = Inr t
    \<and> open_blockers t index = open_blockers s index \<and> snap_state t \<noteq> ''done''"
proof -
  have "history \<noteq> []" using assms(3) by (auto simp: fold_story_def replay_def fold_init_def finish_fold_def require_def)
  then show ?thesis using append_keeps_incomplete assms by blast
qed

section \<open>Filing a story with dependencies\<close>

text \<open>
  A story filed with dependencies is admitted exactly when the catalog has a default open state, the
  state is not \<open>blocked\<close>, and, while a dependency is open, the catalog lists the state no later than the
  default.
\<close>

theorem validate_blocked_creation_iff:
  "validate_blocked_creation state states blockers opens = Inr () \<longleftrightarrow>
     blockers = [] \<or> (\<exists>d. default_open_state states = Some d \<and> state \<noteq> ''blocked''
       \<and> (opens = [] \<or> not_later states state (sd_slug d)))"
  unfolding validate_blocked_creation_def Let_def position_bind_ok [symmetric]
  by (auto simp: position_bind_ok split: option.splits)

section \<open>A blocked story, evaluated\<close>

definition sample_states :: "StateDef list" where
  "sample_states =
     [sample_state ''todo'' Open, sample_state ''in-progress'' Open, sample_state ''verifying'' Open,
      sample_state ''blocked'' Open, sample_state ''done'' Closed, sample_state ''dropped'' Closed]"

definition sample_blocked_log :: "StoryEvent list" where
  "sample_blocked_log =
     [StoryCreated ''t1'' ''Ship it'' ''in-progress'', StoryRelationshipAdded ''t2'' ''SH-2'' ''blocked-by'']"

lemma sample_append:
  "validate_append ''SH-1'' sample_blocked_log
     [StoryStateChanged ''t3'' ''blocked'', StoryStateChanged ''t4'' ''in-progress'', StoryStateChanged ''t5'' ''todo'']
     sample_states sample_backlog = Inr ()"
  "\<not> is_ok (validate_append ''SH-1'' sample_blocked_log
     [StoryStateChanged ''t3'' ''blocked'', StoryStateChanged ''t4'' ''verifying''] sample_states sample_backlog)"
  by code_simp+

definition sample_retreat :: "StoryEvent list" where
  "sample_retreat = [StoryStateChanged ''t3'' ''blocked'', StoryStateChanged ''t4'' ''in-progress'',
     StoryStateChanged ''t5'' ''todo'']"

definition sample_blocked_snapshot :: StorySnapshot where
  "sample_blocked_snapshot =
     (bare_story ''SH-1'' [StoryRelation ''blocked-by'' ''SH-2''])
       \<lparr>snap_title := ''Ship it'', snap_created_at := ''t1'', snap_updated_at := ''t2'', snap_state := ''in-progress''\<rparr>"

lemma sample_blocked_fold:
  "fold_story ''SH-1'' sample_blocked_log (catalog_of sample_states) = Inr sample_blocked_snapshot"
  by code_simp

lemma sample_open_blocker: "open_blockers sample_blocked_snapshot sample_backlog = [''SH-2'']"
  by code_simp

theorem validate_append_iff_witness:
  "\<exists>before after. fold_story ''SH-1'' sample_blocked_log (catalog_of sample_states) = Inr before
     \<and> fold_story ''SH-1'' (sample_blocked_log @ [StoryStateChanged ''t3'' ''blocked'']) (catalog_of sample_states)
         = Inr after
     \<and> validate_transition before (snap_state after)
         (pipeline_position sample_states (catalog_of sample_states) sample_blocked_log) sample_states sample_backlog
         = Inr ()"
proof -
  have "validate_append ''SH-1'' sample_blocked_log sample_retreat sample_states sample_backlog = Inr ()"
    using sample_append(1) by (simp add: sample_retreat_def)
  moreover have "sample_retreat = [] @ StoryStateChanged ''t3'' ''blocked''
      # [StoryStateChanged ''t4'' ''in-progress'', StoryStateChanged ''t5'' ''todo'']"
    by (simp add: sample_retreat_def)
  moreover have "sample_blocked_log \<noteq> []" by (simp add: sample_blocked_log_def)
  ultimately show ?thesis unfolding validate_append_iff by (metis append_Nil append_Nil2)
qed

theorem blocked_story_not_completed_witness:
  "\<exists>t. fold_story ''SH-1'' (sample_blocked_log @ sample_retreat) (catalog_of sample_states) = Inr t
     \<and> open_blockers t sample_backlog = [''SH-2''] \<and> snap_state t \<noteq> ''done''"
proof -
  have "validate_append ''SH-1'' sample_blocked_log sample_retreat sample_states sample_backlog = Inr ()"
    using sample_append(1) by (simp add: sample_retreat_def)
  moreover have "list_all (\<lambda>e. \<not> changes_relations e) sample_retreat" by code_simp
  moreover have "snap_state sample_blocked_snapshot \<noteq> ''done''" by code_simp
  ultimately show ?thesis
    using blocked_story_not_completed [OF _ _ sample_blocked_fold, of sample_retreat sample_backlog]
    by (simp add: sample_open_blocker)
qed

text \<open>
  The order rule compares with the position of the state the story is in, also when that is
  \<open>dropped\<close>.  A story with an open dependency may not go from \<open>in-progress\<close> to \<open>verifying\<close> directly or through
  \<open>blocked\<close>, but a batch through \<open>dropped\<close>, which the catalog lists last, is accepted.
\<close>

theorem dropped_detour:
  "\<not> is_ok (validate_append ''SH-1'' sample_blocked_log
       [StoryStateChanged ''t3'' ''verifying''] sample_states sample_backlog)
   \<and> \<not> is_ok (validate_append ''SH-1'' sample_blocked_log
       [StoryStateChanged ''t3'' ''blocked'', StoryStateChanged ''t4'' ''verifying''] sample_states sample_backlog)
   \<and> is_ok (validate_append ''SH-1'' sample_blocked_log
       [StoryStateChanged ''t3'' ''dropped'', StoryStateChanged ''t4'' ''verifying''] sample_states sample_backlog)"
  by code_simp

end
