(* ===== verification/Dependency_Graph.thy ===== *)
theory Dependency_Graph
  imports Story_Hierarchy
begin

text \<open>
  The dependency graph of the open stories (\<^verbatim>\<open>src/src/domain.rs\<close>, lines 3565 to 3729): its construction
  from the blocks and blocked-by edges, the memoised longest chain, the transitive set of blocked
  stories and the independent groups.  The theorems: the graph holds exactly the claimed dependencies,
  the critical path of an acyclic graph is a longest chain, the blocked chain is the transitive closure,
  and the groups are the connected components.
\<close>

record DependencyGraph =
  predecessors :: "string adjacency"
  successors :: "string adjacency"
  nodes :: "string list"

definition open_stories :: "story_map \<Rightarrow> story_map" where
  "open_stories stories = filter (\<lambda>(i, s). snap_superstate s = Open) stories"

definition add_dependency :: "string \<Rightarrow> string \<Rightarrow> DependencyGraph \<Rightarrow> DependencyGraph" where
  "add_dependency before after g =
     g\<lparr>predecessors := link after before (predecessors g), successors := link before after (successors g)\<rparr>"

text \<open>The dependency (first, then) a relation of an open story claims, between open stories.\<close>

definition claimed_dependency :: "story_map \<Rightarrow> string \<Rightarrow> StoryRelation \<Rightarrow> (string \<times> string) option" where
  "claimed_dependency open_map i r =
     (if \<not> btm_contains open_map (other_id r) then None
      else if relation r = ''blocked-by'' then Some (other_id r, i)
      else if relation r = ''blocks'' then Some (i, other_id r)
      else None)"

definition add_node :: "string \<Rightarrow> DependencyGraph \<Rightarrow> DependencyGraph" where
  "add_node i g =
     g\<lparr>nodes := bset_insert i (nodes g), predecessors := btm_entry i [] id (predecessors g),
       successors := btm_entry i [] id (successors g)\<rparr>"

definition add_dependencies :: "story_map \<Rightarrow> string \<times> StorySnapshot \<Rightarrow> DependencyGraph \<Rightarrow> DependencyGraph" where
  "add_dependencies open_map entry g =
     fold (\<lambda>r g. case claimed_dependency open_map (fst entry) r of
             None \<Rightarrow> g | Some (before, after) \<Rightarrow> add_dependency before after g)
       (snap_relationships (snd entry)) g"

definition from_open_stories :: "story_map \<Rightarrow> DependencyGraph" where
  "from_open_stories stories =
     (let open_map = open_stories stories in
      fold (add_dependencies open_map) open_map
        (fold add_node (btm_keys open_map) \<lparr>predecessors = [], successors = [], nodes = []\<rparr>))"

section \<open>The longest chain\<close>

record ChainState =
  ch_memo :: "(string, string list) btree_map"
  ch_visiting :: "string list"

function longest :: "string adjacency \<Rightarrow> string \<Rightarrow> ChainState \<Rightarrow> string list \<times> ChainState"
  and longest_among :: "string adjacency \<Rightarrow> string list \<Rightarrow> string list \<Rightarrow> ChainState \<Rightarrow> string list \<times> ChainState" where
  "longest succs node st =
     (case btm_get (ch_memo st) node of
        Some cached \<Rightarrow> (cached, st)
      | None \<Rightarrow>
          if node \<in> set (ch_visiting st) then ([node], st)
          else (let (best, st') = longest_among succs (neighbours succs node) []
                      (st\<lparr>ch_visiting := bset_insert node (ch_visiting st)\<rparr>);
                    result = node # best
                in (result, st'\<lparr>ch_visiting := bset_remove node (ch_visiting st'),
                                ch_memo := btm_insert node result (ch_memo st')\<rparr>)))"
| "longest_among succs [] best st = (best, st)"
| "longest_among succs (succ # rest) best st =
     (let (path, st') = longest succs succ st in
      longest_among succs rest (if length best < length path then path else best) st')"
  by pat_completeness auto

lemma longest_restores_dom:
  "longest_longest_among_dom (Inl (m, node, st)) \<Longrightarrow> ch_visiting (snd (longest m node st)) = ch_visiting st"
  "longest_longest_among_dom (Inr (m, ns, best, st)) \<Longrightarrow>
     ch_visiting (snd (longest_among m ns best st)) = ch_visiting st"
proof (induction m node st and m ns best st rule: longest_longest_among.pinduct)
  case (1 m node st)
  then show ?case
    by (auto simp: longest.psimps bset_remove_def bset_insert_def insort_insert_key_def Let_def
      split: option.splits prod.splits)
next
  case (2 m best st)
  then show ?case by (simp add: longest_among.psimps)
next
  case (3 m succ rest best st)
  then show ?case by (auto simp: longest_among.psimps split: prod.splits)
qed

termination longest
proof (relation "inv_image (finite_psubset <*lex*> less_than)
    (\<lambda>x. case x of Inl (m, node, st) \<Rightarrow> (insert node (targets [m]) - set (ch_visiting st), 0)
        | Inr (m, ns, best, st) \<Rightarrow> ((targets [m] \<union> set ns) - set (ch_visiting st), Suc (length ns)))", goal_cases)
  case 1
  show ?case by auto
next
  case (2 m node st)
  then show ?case using adj_targets [of "[m]" node] by (auto simp: finite_psubset_def)
next
  case (3 m succ rest best st)
  have "insert succ (targets [m]) - set (ch_visiting st) \<subseteq> (targets [m] \<union> set (succ # rest)) - set (ch_visiting st)"
    by auto
  then show ?case using psubset_or_eq by auto
next
  case (4 m succ rest best st x path st')
  then have "ch_visiting st' = ch_visiting st"
    using longest_restores_dom(1) [of m succ st] by (metis snd_conv)
  then have "(targets [m] \<union> set rest) - set (ch_visiting st') \<subseteq> (targets [m] \<union> set (succ # rest)) - set (ch_visiting st)"
    by auto
  then show ?case using psubset_or_eq by auto
qed

declare longest.simps [simp del]

text \<open>\<open>Iterator::max_by_key\<close> keeps the last of equal maxima.\<close>

definition max_by_length :: "'a list list \<Rightarrow> 'a list option" where
  "max_by_length paths =
     fold (\<lambda>p best. case best of
         None \<Rightarrow> Some p | Some b \<Rightarrow> if length b \<le> length p then Some p else Some b) paths None"

definition chain_step :: "DependencyGraph \<Rightarrow> string \<Rightarrow> ChainState \<Rightarrow> ChainState" where
  "chain_step g node st =
     (let (path, st') = longest (successors g) node st in
      st'\<lparr>ch_memo := btm_insert node path (ch_memo st')\<rparr>)"

definition critical_path :: "DependencyGraph \<Rightarrow> string list" where
  "critical_path g =
     (case max_by_length (btm_values (ch_memo (fold (chain_step g) (nodes g) \<lparr>ch_memo = [], ch_visiting = []\<rparr>))) of
        None \<Rightarrow> [] | Some path \<Rightarrow> path)"

section \<open>Blocked chains and groups\<close>

definition blocked_chain :: "DependencyGraph \<Rightarrow> string \<Rightarrow> string list" where
  "blocked_chain g i = bset_remove i (dfs_walk [successors g] (\<lambda>_. False) [i] [])"

definition group_step ::
  "DependencyGraph \<Rightarrow> string \<Rightarrow> string list \<times> string list list \<Rightarrow> string list \<times> string list list" where
  "group_step g node acc =
     (let (visited, groups) = acc in
      if node \<in> set visited then acc
      else (let group = dfs_walk [predecessors g, successors g] (\<lambda>_. False) [node] [] in
            (fold bset_insert group visited, groups @ [group])))"

definition parallel_groups :: "DependencyGraph \<Rightarrow> string list list" where
  "parallel_groups g = snd (fold (group_step g) (nodes g) ([], []))"

section \<open>The graph holds exactly the claimed dependencies\<close>

definition dependency_arcs :: "story_map \<Rightarrow> (string \<times> string) set" where
  "dependency_arcs stories =
     {(before, after). \<exists>entry \<in> set (open_stories stories). \<exists>r \<in> set (snap_relationships (snd entry)).
        claimed_dependency (open_stories stories) (fst entry) r = Some (before, after)}"

definition entry_arcs :: "story_map \<Rightarrow> string \<times> StorySnapshot \<Rightarrow> (string \<times> string) set" where
  "entry_arcs open_map entry =
     (\<Union>r \<in> set (snap_relationships (snd entry)). set_option (claimed_dependency open_map (fst entry) r))"

lemma fold_keeps:
  assumes "\<And>x g. h (f x g) = h g"
  shows "h (fold f xs g) = h g"
  by (induction xs arbitrary: g) (simp_all add: assms)

lemma arcs_entry_id: "arcs (btm_entry i [] id m) = arcs m"
  by (auto simp: arcs_def neighbours_def split: option.splits if_splits)

lemma add_dependencies_arcs:
  "arcs (successors (add_dependencies open_map entry g)) = arcs (successors g) \<union> entry_arcs open_map entry"
  "arcs (predecessors (add_dependencies open_map entry g)) = arcs (predecessors g) \<union> (entry_arcs open_map entry)\<inverse>"
  "nodes (add_dependencies open_map entry g) = nodes g"
proof -
  let ?f = "\<lambda>r g. case claimed_dependency open_map (fst entry) r of
      None \<Rightarrow> g | Some (before, after) \<Rightarrow> add_dependency before after g"
  have "arcs (successors (?f r g)) = arcs (successors g) \<union> set_option (claimed_dependency open_map (fst entry) r)"
    for r g by (auto simp: add_dependency_def arcs_link split: option.split)
  from fold_Un [where h = "\<lambda>g. arcs (successors g)" and f = ?f, OF this]
  show "arcs (successors (add_dependencies open_map entry g)) = arcs (successors g) \<union> entry_arcs open_map entry"
    by (simp add: add_dependencies_def entry_arcs_def)
  have "arcs (predecessors (?f r g)) =
      arcs (predecessors g) \<union> (set_option (claimed_dependency open_map (fst entry) r))\<inverse>"
    for r g by (auto simp: add_dependency_def arcs_link split: option.split)
  from fold_Un [where h = "\<lambda>g. arcs (predecessors g)" and f = ?f, OF this]
  show "arcs (predecessors (add_dependencies open_map entry g)) = arcs (predecessors g) \<union> (entry_arcs open_map entry)\<inverse>"
    by (simp add: add_dependencies_def entry_arcs_def converse_UNION)
  show "nodes (add_dependencies open_map entry g) = nodes g"
    unfolding add_dependencies_def
    by (rule fold_keeps) (simp add: add_dependency_def split: option.split prod.split)
qed

lemma add_nodes:
  "arcs (successors (fold add_node ids g)) = arcs (successors g)"
  "arcs (predecessors (fold add_node ids g)) = arcs (predecessors g)"
  "nodes (fold add_node ids g) = fold bset_insert ids (nodes g)"
  by (rule fold_keeps, simp add: add_node_def arcs_entry_id)+
    (induction ids arbitrary: g, simp_all add: add_node_def)

lemma from_open_stories_arcs:
  "arcs (successors (from_open_stories stories)) = dependency_arcs stories"
  "arcs (predecessors (from_open_stories stories)) = (dependency_arcs stories)\<inverse>"
  "nodes (from_open_stories stories) = bset_collect (btm_keys (open_stories stories))"
proof -
  let ?o = "open_stories stories"
  let ?start = "fold add_node (btm_keys ?o) \<lparr>predecessors = [], successors = [], nodes = []\<rparr>"
  have union: "(\<Union>e \<in> set ?o. entry_arcs ?o e) = dependency_arcs stories"
    unfolding dependency_arcs_def entry_arcs_def by blast
  have empty: "arcs (successors ?start) = {}" "arcs (predecessors ?start) = {}"
    by (simp_all add: add_nodes, simp_all add: arcs_def neighbours_def)
  note down = fold_Un [where h = "\<lambda>g. arcs (successors g)" and f = "add_dependencies ?o",
    OF add_dependencies_arcs(1)]
  note up = fold_Un [where h = "\<lambda>g. arcs (predecessors g)" and f = "add_dependencies ?o",
    OF add_dependencies_arcs(2)]
  show "arcs (successors (from_open_stories stories)) = dependency_arcs stories"
    unfolding from_open_stories_def Let_def down empty union by simp
  show "arcs (predecessors (from_open_stories stories)) = (dependency_arcs stories)\<inverse>"
    unfolding from_open_stories_def Let_def up empty converse_UNION [symmetric] union by simp
  show "nodes (from_open_stories stories) = bset_collect (btm_keys ?o)"
    unfolding from_open_stories_def Let_def
    by (subst fold_keeps [where h = nodes]) (simp_all add: add_dependencies_arcs(3) add_nodes(3) bset_collect_def)
qed

interpretation dependency_down:
  adjacency_index "[successors (from_open_stories stories)]" "dependency_arcs stories" for stories
  by unfold_locales (simp add: from_open_stories_arcs(1) [symmetric] arcs_def)

interpretation dependency_both:
  adjacency_index "[predecessors (from_open_stories stories), successors (from_open_stories stories)]"
    "dependency_arcs stories \<union> (dependency_arcs stories)\<inverse>" for stories
proof unfold_locales
  fix x y
  have "y \<in> set (neighbours (successors (from_open_stories stories)) x) \<longleftrightarrow> (x, y) \<in> dependency_arcs stories"
    by (simp add: from_open_stories_arcs(1) [symmetric] arcs_def)
  moreover have "y \<in> set (neighbours (predecessors (from_open_stories stories)) x) \<longleftrightarrow> (x, y) \<in> (dependency_arcs stories)\<inverse>"
    by (simp only: from_open_stories_arcs(2) [symmetric]) (simp add: arcs_def)
  ultimately show "y \<in> set (adj [predecessors (from_open_stories stories), successors (from_open_stories stories)] x)
      \<longleftrightarrow> (x, y) \<in> dependency_arcs stories \<union> (dependency_arcs stories)\<inverse>"
    by (auto simp: adj_def)
qed

text \<open>
  The blocked chain of a story is everything that waits on it, directly or through others: the
  image under the transitive closure of the claimed dependencies, without the story itself.
\<close>

theorem blocked_chain_closure:
  "set (blocked_chain (from_open_stories stories) i) = (dependency_arcs stories)\<^sup>+ `` {i} - {i}"
proof -
  let ?walk = "dfs_walk [successors (from_open_stories stories)] (\<lambda>_. False) [i] []"
  have "bset_ok ?walk" by (rule bset_ok_dfs_walk) (simp add: bset_ok_def)
  then have "set (bset_remove i ?walk) = set ?walk - {i}" by (rule bset.set_del)
  also have "\<dots> = (dependency_arcs stories)\<^sup>* `` {i} - {i}"
    using dependency_down.walk_image [of stories "[i]"] by simp
  also have "\<dots> = (dependency_arcs stories)\<^sup>+ `` {i} - {i}"
    by (auto simp: rtrancl_eq_or_trancl)
  finally show ?thesis by (simp add: blocked_chain_def)
qed

section \<open>Groups are connected components\<close>

definition connected :: "story_map \<Rightarrow> (string \<times> string) set" where
  "connected stories = (dependency_arcs stories \<union> (dependency_arcs stories)\<inverse>)\<^sup>*"

lemma equiv_connected: "equiv UNIV (connected stories)"
  unfolding connected_def
  by (rule equivI) (auto intro: refl_rtrancl trans_rtrancl sym_rtrancl simp: sym_Un_converse)

lemma group_walk:
  "set (dfs_walk [predecessors (from_open_stories stories), successors (from_open_stories stories)] (\<lambda>_. False) [i] [])
     = connected stories `` {i}"
  using dependency_both.walk_image [of stories "[i]"] by (simp add: connected_def)

definition groups_inv :: "(string \<times> string) set \<Rightarrow> string set \<Rightarrow> string list \<times> string list list \<Rightarrow> bool" where
  "groups_inv S N acc \<longleftrightarrow>
     set (fst acc) = S `` N \<and> set (map set (snd acc)) = N // S \<and> distinct (map set (snd acc))"

lemma group_step_inv:
  assumes "groups_inv (connected stories) N acc"
  shows "groups_inv (connected stories) (insert i N) (group_step (from_open_stories stories) i acc)"
proof -
  let ?S = "connected stories"
  obtain visited groups where acc: "acc = (visited, groups)" by fastforce
  have inv: "set visited = ?S `` N" "set (map set groups) = N // ?S" "distinct (map set groups)"
    using assms acc by (simp_all add: groups_inv_def)
  show ?thesis
  proof (cases "i \<in> set visited")
    case True
    then obtain n where "n \<in> N" "(n, i) \<in> ?S" using inv(1) by blast
    then have "?S `` {i} = ?S `` {n}" using equiv_class_eq_iff [OF equiv_connected] by blast
    then have "?S `` insert i N = ?S `` N" and "insert i N // ?S = N // ?S"
      using \<open>n \<in> N\<close> by (auto simp: quotient_def)
    then show ?thesis using True inv acc by (simp add: group_step_def groups_inv_def)
  next
    case False
    have "?S `` {i} \<notin> N // ?S"
    proof
      assume "?S `` {i} \<in> N // ?S"
      then obtain n where "n \<in> N" "?S `` {i} = ?S `` {n}" by (auto simp: quotient_def)
      then have "(n, i) \<in> ?S" using equiv_class_eq_iff [OF equiv_connected, of n i] by simp
      then show False using False inv(1) \<open>n \<in> N\<close> by blast
    qed
    then show ?thesis using False inv acc
      by (auto simp: group_step_def groups_inv_def group_walk set_fold_bset_insert quotient_def Let_def
        simp del: dfs_walk.simps)
  qed
qed

text \<open>
  Parallel groups are the connected components of the open stories: each open story is in exactly
  one group, two are in the same group exactly when a chain of dependencies, in either direction,
  links them, and no group is listed twice.
\<close>

theorem parallel_groups_components:
  "set (map set (parallel_groups (from_open_stories stories))) = set (btm_keys (open_stories stories)) // connected stories
    \<and> distinct (map set (parallel_groups (from_open_stories stories)))"
proof -
  have "groups_inv (connected stories) (N \<union> set ids) (fold (group_step (from_open_stories stories)) ids acc)"
    if "groups_inv (connected stories) N acc" for ids N acc
    using that
  proof (induction ids arbitrary: N acc)
    case (Cons i ids)
    from Cons.IH [OF group_step_inv [OF Cons.prems, of i]] show ?case by simp
  qed simp
  from this [of "{}" "([], [])" "nodes (from_open_stories stories)"]
  show ?thesis
    by (simp add: groups_inv_def parallel_groups_def from_open_stories_arcs(3) quotient_def)
qed

section \<open>The critical path is a longest chain\<close>

definition chain_from :: "(string \<times> string) set \<Rightarrow> string \<Rightarrow> string list \<Rightarrow> bool" where
  "chain_from E n p \<longleftrightarrow> p \<noteq> [] \<and> hd p = n \<and> successively (\<lambda>x y. (x, y) \<in> E) p"

definition longest_from :: "(string \<times> string) set \<Rightarrow> string \<Rightarrow> string list \<Rightarrow> bool" where
  "longest_from E n p \<longleftrightarrow> chain_from E n p \<and> (\<forall>q. chain_from E n q \<longrightarrow> length q \<le> length p)"

definition memo_longest :: "(string \<times> string) set \<Rightarrow> ChainState \<Rightarrow> bool" where
  "memo_longest E st \<longleftrightarrow> btm_ok (ch_memo st) \<and> (\<forall>n p. btm_get (ch_memo st) n = Some p \<longrightarrow> longest_from E n p)"

lemma chain_from_Cons:
  "chain_from E n (a # p) \<longleftrightarrow> a = n \<and> (p = [] \<or> (\<exists>b. (n, b) \<in> E \<and> chain_from E b p))"
  by (cases p) (auto simp: chain_from_def)

text \<open>A longest chain from a node is the node and a longest chain from the best of its successors.\<close>

lemma longest_from_Cons:
  assumes "best = [] \<or> (\<exists>b. (n, b) \<in> E \<and> chain_from E b best)"
    and "\<And>b q. (n, b) \<in> E \<Longrightarrow> chain_from E b q \<Longrightarrow> length q \<le> length best"
  shows "longest_from E n (n # best)"
  unfolding longest_from_def
proof (intro conjI allI impI)
  show "chain_from E n (n # best)" using assms(1) by (auto simp: chain_from_Cons)
  fix q
  assume "chain_from E n q"
  then show "length q \<le> length (n # best)"
    using assms(2) by (cases q) (auto simp: chain_from_Cons)
qed

definition among_post :: "(string \<times> string) set \<Rightarrow> string list \<Rightarrow> string list \<Rightarrow> string list \<Rightarrow> bool" where
  "among_post E ns best r \<longleftrightarrow>
     (r = best \<or> (\<exists>b \<in> set ns. chain_from E b r)) \<and> length best \<le> length r
     \<and> (\<forall>b \<in> set ns. \<forall>q. chain_from E b q \<longrightarrow> length q \<le> length r)"

lemma longest_restores:
  "ch_visiting (snd (longest m node st)) = ch_visiting st"
  "ch_visiting (snd (longest_among m ns best st)) = ch_visiting st"
proof (induction m node st and m ns best st rule: longest_longest_among.induct)
  case (1 m node st)
  then show ?case
    by (auto simp: longest.simps [of m node] bset_remove_def bset_insert_def insort_insert_key_def Let_def
      split: option.splits prod.splits)
qed (auto simp: Let_def split: prod.splits)

lemma longest_correct:
  "acyclic (arcs m) \<Longrightarrow> memo_longest (arcs m) st \<Longrightarrow> \<forall>v \<in> set (ch_visiting st). (v, node) \<in> (arcs m)\<^sup>+ \<Longrightarrow>
     longest_from (arcs m) node (fst (longest m node st)) \<and> memo_longest (arcs m) (snd (longest m node st))"
  "acyclic (arcs m) \<Longrightarrow> memo_longest (arcs m) st \<Longrightarrow>
     \<forall>n \<in> set ns. \<forall>v \<in> set (ch_visiting st). (v, n) \<in> (arcs m)\<^sup>+ \<Longrightarrow>
     among_post (arcs m) ns best (fst (longest_among m ns best st))
     \<and> memo_longest (arcs m) (snd (longest_among m ns best st))"
proof (induction m node st and m ns best st rule: longest_longest_among.induct)
  case (1 m node st)
  show ?case
  proof (cases "btm_get (ch_memo st) node")
    case (Some cached)
    then show ?thesis using "1.prems"(2) by (simp add: longest.simps [of m node] memo_longest_def)
  next
    case None
    have fresh: "node \<notin> set (ch_visiting st)" using "1.prems"(1,3) by (auto simp: acyclic_def)
    let ?st = "st\<lparr>ch_visiting := bset_insert node (ch_visiting st)\<rparr>"
    obtain best st' where among: "longest_among m (neighbours m node) [] ?st = (best, st')" by fastforce
    have "\<forall>n \<in> set (neighbours m node). \<forall>v \<in> set (ch_visiting ?st). (v, n) \<in> (arcs m)\<^sup>+"
      using "1.prems"(3) by (auto simp: arcs_def intro: trancl_into_trancl)
    then have post: "among_post (arcs m) (neighbours m node) [] best" "memo_longest (arcs m) st'"
      using "1.IH" [OF None fresh] "1.prems"(1,2) among by (auto simp: memo_longest_def)
    have "longest_from (arcs m) node (node # best)"
      using post(1) by (intro longest_from_Cons) (auto simp: among_post_def arcs_def)
    then show ?thesis using None fresh among post(2)
      by (simp add: longest.simps [of m node] memo_longest_def btm_ok_insert Let_def)
  qed
next
  case (2 m best st)
  then show ?case by (simp add: among_post_def)
next
  case (3 m succ rest best st)
  obtain path st' where path: "longest m succ st = (path, st')" by fastforce
  have l: "longest_from (arcs m) succ path" "memo_longest (arcs m) st'"
    using "3.IH"(1) "3.prems" path by auto
  have "ch_visiting st' = ch_visiting st" using longest_restores(1) [of m succ st] path by simp
  then show ?case
    using "3.IH"(2) [OF path [symmetric] refl] "3.prems" l path
    by (auto simp: among_post_def longest_from_def Let_def split: if_splits intro: order_trans)
qed

lemma max_by_length_fold:
  "fold (\<lambda>p best. case best of None \<Rightarrow> Some p | Some b \<Rightarrow> if length b \<le> length p then Some p else Some b) ps (Some b)
     = Some r \<Longrightarrow> r \<in> insert b (set ps) \<and> (\<forall>q \<in> insert b (set ps). length q \<le> length r)"
  by (induction ps arbitrary: b) (fastforce split: if_splits)+

lemma max_by_length_total:
  "\<exists>r. fold (\<lambda>p best. case best of None \<Rightarrow> Some p | Some b \<Rightarrow> if length b \<le> length p then Some p else Some b) ps (Some b) = Some r"
  by (induction ps arbitrary: b) auto

lemma max_by_length_spec:
  "case max_by_length ps of None \<Rightarrow> ps = [] | Some r \<Rightarrow> r \<in> set ps \<and> (\<forall>q \<in> set ps. length q \<le> length r)"
proof (cases ps)
  case (Cons b bs)
  then show ?thesis
    using max_by_length_total [of bs b] max_by_length_fold [of bs b] by (auto simp: max_by_length_def)
qed (simp add: max_by_length_def)

lemma longest_keys:
  "set (btm_keys (ch_memo st)) \<subseteq> set (btm_keys (ch_memo (snd (longest m node st))))"
  "set (btm_keys (ch_memo st)) \<subseteq> set (btm_keys (ch_memo (snd (longest_among m ns best st))))"
proof (induction m node st and m ns best st rule: longest_longest_among.induct)
  case (1 m node st)
  then show ?case by (auto simp: longest.simps [of m node] Let_def split: option.splits prod.splits)
next
  case (3 m succ rest best st)
  obtain path st' where "longest m succ st = (path, st')" by fastforce
  then show ?case using 3 by fastforce
qed simp

lemma chain_steps:
  assumes "acyclic (arcs (successors g))"
  shows "memo_longest (arcs (successors g)) st \<Longrightarrow> ch_visiting st = [] \<Longrightarrow>
    memo_longest (arcs (successors g)) (fold (chain_step g) ids st)
    \<and> set ids \<union> set (btm_keys (ch_memo st)) \<subseteq> set (btm_keys (ch_memo (fold (chain_step g) ids st)))"
proof (induction ids arbitrary: st)
  case (Cons i ids)
  obtain path st' where path: "longest (successors g) i st = (path, st')" by fastforce
  have "longest_from (arcs (successors g)) i path" "memo_longest (arcs (successors g)) st'" "ch_visiting st' = []"
    using longest_correct(1) [OF assms Cons.prems(1), of i] longest_restores(1) [of "successors g" i st] path Cons.prems(2)
    by auto
  then have step: "memo_longest (arcs (successors g)) (chain_step g i st)" "ch_visiting (chain_step g i st) = []"
    by (simp_all add: chain_step_def path memo_longest_def btm_ok_insert)
  have "insert i (set (btm_keys (ch_memo st))) \<subseteq> set (btm_keys (ch_memo (chain_step g i st)))"
    using longest_keys(1) [of st "successors g" i] path by (auto simp: chain_step_def)
  then show ?case using Cons.IH [OF step] by auto
qed simp

lemma memo_values:
  assumes "memo_longest E st" and "p \<in> set (btm_values (ch_memo st))"
  shows "\<exists>n. longest_from E n p"
proof -
  from assms(2) obtain n where "(n, p) \<in> set (ch_memo st)" by (auto simp: btm_values_def)
  then have "btm_get (ch_memo st) n = Some p" using assms(1) by (simp add: memo_longest_def btm_get_mem)
  then show ?thesis using assms(1) by (auto simp: memo_longest_def)
qed

lemma memo_key:
  assumes "memo_longest E st" and "n \<in> set (btm_keys (ch_memo st))"
  shows "\<exists>p \<in> set (btm_values (ch_memo st)). longest_from E n p"
proof -
  from assms(2) obtain p where p: "(n, p) \<in> set (ch_memo st)" by (auto simp: btm_keys_def)
  then have "btm_get (ch_memo st) n = Some p" using assms(1) by (simp add: memo_longest_def btm_get_mem)
  then show ?thesis using assms(1) p by (force simp: memo_longest_def btm_values_def)
qed

text \<open>
  C37. The critical path of an acyclic dependency graph is a longest chain: each of its stories waits on
  the one before it, no chain of open stories is longer, and it is empty only when no story is open.
\<close>

theorem critical_path_longest:
  assumes "acyclic (dependency_arcs stories)"
  shows "successively (\<lambda>x y. (x, y) \<in> dependency_arcs stories) (critical_path (from_open_stories stories))
    \<and> (\<forall>q. q \<noteq> [] \<longrightarrow> hd q \<in> set (btm_keys (open_stories stories)) \<longrightarrow>
         successively (\<lambda>x y. (x, y) \<in> dependency_arcs stories) q \<longrightarrow>
         length q \<le> length (critical_path (from_open_stories stories)))
    \<and> (critical_path (from_open_stories stories) = [] \<longleftrightarrow> open_stories stories = [])"
proof -
  let ?g = "from_open_stories stories"
  let ?E = "dependency_arcs stories"
  let ?st = "fold (chain_step ?g) (nodes ?g) \<lparr>ch_memo = [], ch_visiting = []\<rparr>"
  have E: "arcs (successors ?g) = ?E" by (rule from_open_stories_arcs(1))
  have memo: "memo_longest ?E ?st" and keys: "set (btm_keys (open_stories stories)) \<subseteq> set (btm_keys (ch_memo ?st))"
    using chain_steps [of ?g "\<lparr>ch_memo = [], ch_visiting = []\<rparr>" "nodes ?g"] assms
    by (auto simp: E memo_longest_def btm.ok_empty from_open_stories_arcs(3))
  let ?p = "critical_path ?g"
  have spec: "if btm_values (ch_memo ?st) = [] then ?p = []
      else ?p \<in> set (btm_values (ch_memo ?st)) \<and> (\<forall>q \<in> set (btm_values (ch_memo ?st)). length q \<le> length ?p)"
    using max_by_length_spec [of "btm_values (ch_memo ?st)"]
    by (auto simp: critical_path_def split: option.splits)
  then have "successively (\<lambda>x y. (x, y) \<in> ?E) ?p"
    using memo_values [OF memo] by (auto simp: longest_from_def chain_from_def split: if_splits)
  moreover have longest: "length q \<le> length ?p"
    if q: "q \<noteq> []" "hd q \<in> set (btm_keys (open_stories stories))" "successively (\<lambda>x y. (x, y) \<in> ?E) q" for q
  proof -
    obtain p where "p \<in> set (btm_values (ch_memo ?st))" "longest_from ?E (hd q) p"
      using memo_key [OF memo] q(2) keys by blast
    then show ?thesis using spec q(1,3)
      by (auto simp: longest_from_def chain_from_def split: if_splits intro: order_trans)
  qed
  moreover have "?p = [] \<longleftrightarrow> open_stories stories = []"
  proof
    assume "open_stories stories = []"
    then show "?p = []"
      by (simp add: critical_path_def from_open_stories_arcs(3) bset_collect_def btm_keys_def btm_values_def max_by_length_def)
  next
    assume "?p = []"
    then show "open_stories stories = []"
      using longest [of "[fst (hd (open_stories stories))]"] by (cases "open_stories stories") (auto simp: btm_keys_def)
  qed
  ultimately show ?thesis by blast
qed

section \<open>A plan, evaluated\<close>

definition sample_plan :: story_map where
  "sample_plan = keyed_stories
     [bare_story ''SH-1'' [StoryRelation ''blocks'' ''SH-2''], bare_story ''SH-2'' [StoryRelation ''blocked-by'' ''SH-1''],
      bare_story ''SH-3'' [StoryRelation ''blocked-by'' ''SH-2''], bare_story ''SH-4'' []]"

lemma sample_plan_acyclic: "acyclic (dependency_arcs sample_plan)"
proof -
  have "cycle_nodes (successors (from_open_stories sample_plan)) = []" by code_simp
  then show ?thesis by (simp add: acyclic_no_cycle_nodes from_open_stories_arcs(1))
qed

theorem critical_path_longest_witness:
  "critical_path (from_open_stories sample_plan) = [''SH-1'', ''SH-2'', ''SH-3'']
    \<and> successively (\<lambda>x y. (x, y) \<in> dependency_arcs sample_plan) [''SH-1'', ''SH-2'', ''SH-3'']"
proof -
  have "critical_path (from_open_stories sample_plan) = [''SH-1'', ''SH-2'', ''SH-3'']" by code_simp
  then show ?thesis using critical_path_longest [OF sample_plan_acyclic] by simp
qed

end
