(* ===== verification/Epic_States.thy ===== *)
theory Epic_States
  imports Story_Readiness
begin

text \<open>
  The projection of epic states (\<^verbatim>\<open>src/src/domain.rs\<close>, lines 2698 to 2842 and 2963 to 3000): an epic's
  effective state is computed from its children, recursively and with a memo, and whether the open
  children are all blocked is decided by the intervention walk with a resolver that computes the
  effective state of every blocker it meets.  The sets of nodes in progress are arguments of the
  recursion: every call of the source removes what it inserted.  The memos are threaded.
\<close>

section \<open>The recursion\<close>

type_synonym epic_memo = "(string, string \<times> SuperState) btree_map"

type_synonym walk_memo = "(string, bool) btree_map"

type_synonym epic_child = "StorySnapshot \<times> string \<times> SuperState"

definition child_ids :: "StorySnapshot \<Rightarrow> string list" where
  "child_ids story = map other_id (filter (\<lambda>r. relation r = ''parent-of'') (snap_relationships story))"

definition child_state :: "epic_child \<Rightarrow> string" where
  "child_state c = fst (snd c)"

definition child_super :: "epic_child \<Rightarrow> SuperState" where
  "child_super c = snd (snd c)"

definition closed_aggregate :: "epic_child list \<Rightarrow> string" where
  "closed_aggregate children =
     (let first = child_state (hd children) in
      if first \<noteq> COMPLETION_STATE_SLUG \<and> list_all (\<lambda>c. child_state c = first) children
      then first else COMPLETION_STATE_SLUG)"

definition open_aggregate :: "StorySnapshot \<Rightarrow> StateDef list \<Rightarrow> epic_child list \<Rightarrow> bool \<Rightarrow> string" where
  "open_aggregate story states incomplete all_blocked =
     (if incomplete \<noteq> [] \<and> all_blocked then ''blocked''
      else if list_ex (\<lambda>c. child_state c = ''in-progress'' \<or> child_state c = ''verifying''
          \<or> list_ex (\<lambda>d. sd_slug d = child_state c \<and> sd_role d = Some STATE_ROLE_ACTIVE) states) incomplete
        then ''in-progress''
      else (case default_open_state states of Some d \<Rightarrow> sd_slug d | None \<Rightarrow> snap_state story))"

definition superstate_of :: "StateDef list \<Rightarrow> string \<Rightarrow> SuperState" where
  "superstate_of states state =
     (case find (\<lambda>d. sd_slug d = state) states of
        Some d \<Rightarrow> sd_super d
      | None \<Rightarrow> if state = COMPLETION_STATE_SLUG then Closed else Open)"

definition with_superstate :: "StateDef list \<Rightarrow> string \<Rightarrow> string \<times> SuperState" where
  "with_superstate states state = (state, superstate_of states state)"

definition remember :: "string \<Rightarrow> string \<times> SuperState \<Rightarrow> epic_memo \<Rightarrow> (string \<times> SuperState) option \<times> epic_memo" where
  "remember i answer memo = (Some answer, btm_insert i answer memo)"

text \<open>
  \<open>epic_walk\<close> and \<open>epic_walk_any\<close> are \<open>walk_needs_intervention\<close> with the closure \<open>resolve\<close> of
  \<open>blocked_for_epic\<close>, which runs \<open>computed_epic_state\<close> on the blocker.
\<close>

function computed_epic_state ::
    "story_map \<Rightarrow> StateDef list \<Rightarrow> string \<Rightarrow> string list \<Rightarrow> epic_memo \<Rightarrow> (string \<times> SuperState) option \<times> epic_memo"
  and epic_children ::
    "story_map \<Rightarrow> StateDef list \<Rightarrow> string list \<Rightarrow> string list \<Rightarrow> epic_memo \<Rightarrow> epic_child list \<times> epic_memo"
  and all_blocked_for_epic ::
    "story_map \<Rightarrow> StateDef list \<Rightarrow> epic_child list \<Rightarrow> string list \<Rightarrow> epic_memo \<Rightarrow> bool \<times> epic_memo"
  and epic_walk ::
    "story_map \<Rightarrow> StateDef list \<Rightarrow> BlockFacts \<Rightarrow> string list \<Rightarrow> string list \<Rightarrow> walk_memo \<Rightarrow> epic_memo
      \<Rightarrow> bool \<times> walk_memo \<times> epic_memo"
  and epic_walk_any ::
    "story_map \<Rightarrow> StateDef list \<Rightarrow> string list \<Rightarrow> string list \<Rightarrow> string list \<Rightarrow> walk_memo \<Rightarrow> epic_memo
      \<Rightarrow> bool \<times> walk_memo \<times> epic_memo" where
  "computed_epic_state m states i visiting memo =
     (case btm_get memo i of
        Some answer \<Rightarrow> (Some answer, memo)
      | None \<Rightarrow>
          (case btm_get m i of
             None \<Rightarrow> (None, memo)
           | Some story \<Rightarrow>
               if i \<in> set visiting then (Some (snap_state story, snap_superstate story), memo)
               else if \<not> is_epic story then remember i (snap_state story, snap_superstate story) memo
               else if child_ids story = [] then remember i (snap_state story, snap_superstate story) memo
               else
                 (let (children, memo) = epic_children m states (child_ids story) (bset_insert i visiting) memo in
                  if children \<noteq> [] \<and> list_all (\<lambda>c. child_super c = Closed) children
                  then remember i (with_superstate states (closed_aggregate children)) memo
                  else
                    (let incomplete = filter (\<lambda>c. child_super c = Open) children;
                         (blocked, memo) = all_blocked_for_epic m states incomplete (bset_insert i visiting) memo
                     in remember i (with_superstate states (open_aggregate story states incomplete blocked)) memo))))"
| "epic_children m states [] visiting memo = ([], memo)"
| "epic_children m states (i # rest) visiting memo =
     (case btm_get m i of
        None \<Rightarrow> epic_children m states rest visiting memo
      | Some child \<Rightarrow>
          (case computed_epic_state m states i visiting memo of
             (None, memo) \<Rightarrow> epic_children m states rest visiting memo
           | (Some answer, memo) \<Rightarrow>
               (let (children, memo) = epic_children m states rest visiting memo
                in ((child, answer) # children, memo))))"
| "all_blocked_for_epic m states [] visiting memo = (True, memo)"
| "all_blocked_for_epic m states (c # rest) visiting memo =
     (if snap_draft (fst c) then (False, memo)
      else
        (let (blocked, _, memo) =
           epic_walk m states (with_effective (fst c) (child_state c) Open) visiting [] [] memo in
         if blocked then all_blocked_for_epic m states rest visiting memo else (False, memo)))"
| "epic_walk m states facts visiting walking wmemo memo =
     (case btm_get wmemo (bf_id facts) of
        Some cached \<Rightarrow> (cached, wmemo, memo)
      | None \<Rightarrow>
          if bf_superstate facts \<noteq> Open then (False, wmemo, memo)
          else if intervention_signal facts then (True, btm_insert (bf_id facts) True wmemo, memo)
          else if bf_id facts \<in> set walking then (True, wmemo, memo)
          else
            (let (answer, wmemo, memo) =
               epic_walk_any m states (bf_blockers facts) visiting (bset_insert (bf_id facts) walking) wmemo memo
             in (answer, btm_insert (bf_id facts) answer wmemo, memo)))"
| "epic_walk_any m states [] visiting walking wmemo memo = (False, wmemo, memo)"
| "epic_walk_any m states (i # rest) visiting walking wmemo memo =
     (case btm_get m i of
        None \<Rightarrow> epic_walk_any m states rest visiting walking wmemo memo
      | Some blocker \<Rightarrow>
          (case computed_epic_state m states i visiting memo of
             (None, memo) \<Rightarrow> epic_walk_any m states rest visiting walking wmemo memo
           | (Some (state, superstate), memo) \<Rightarrow>
               (let (blocked, wmemo, memo) =
                  epic_walk m states (with_effective blocker state superstate) visiting walking wmemo memo in
                if blocked then (True, wmemo, memo)
                else epic_walk_any m states rest visiting walking wmemo memo)))"
  by pat_completeness auto

text \<open>
  The recursion ends: a nested computation has one more story in progress, and inside one level the walk
  has one more story on its path at every step.
\<close>

definition unvisited :: "story_map \<Rightarrow> string list \<Rightarrow> nat" where
  "unvisited m visiting = card (set (btm_keys m) - set visiting)"

definition unwalked :: "story_map \<Rightarrow> string set \<Rightarrow> string list \<Rightarrow> nat" where
  "unwalked m ids walking = card ((index_ids m \<union> ids) - set walking)"

lemma finite_ids [simp]: "finite (index_ids m)"
  by (simp add: index_ids_def)

lemma unvisited_insert:
  assumes "btm_get m i = Some s" and "i \<notin> set visiting"
  shows "unvisited m (bset_insert i visiting) < unvisited m visiting"
  unfolding unvisited_def using assms btm_keys_get [of i m] by (intro psubset_card_mono) auto

lemma unwalked_insert:
  "i \<notin> set walking \<Longrightarrow> unwalked m {} (bset_insert i walking) < unwalked m {i} walking"
  unfolding unwalked_def by (intro psubset_card_mono) auto

lemma unwalked_empty: "unwalked m {i} [] \<le> Suc (card (index_ids m))"
  by (simp add: unwalked_def card_insert_if)

lemma unwalked_known: "btm_get m i = Some s \<Longrightarrow> unwalked m {snap_id s} walking = unwalked m {} walking"
  using index_story_id [of m i s] by (simp add: unwalked_def index_story_def insert_absorb)

lemma bf_id_with_effective [simp]: "bf_id (with_effective s state super) = snap_id s"
  by (simp add: with_effective_def)

termination computed_epic_state
proof (relation "inv_image (less_than <*lex*> less_than <*lex*> less_than)
    (\<lambda>x. case x of
        Inl (Inl (m, states, i, visiting, memo)) \<Rightarrow> (unvisited m visiting, 0, 0)
      | Inl (Inr (m, states, ids, visiting, memo)) \<Rightarrow> (unvisited m visiting, 1, length ids)
      | Inr (Inl (m, states, cs, visiting, memo)) \<Rightarrow> (unvisited m visiting, 4 + card (index_ids m), length cs)
      | Inr (Inr (Inl (m, states, facts, visiting, walking, wmemo, memo))) \<Rightarrow>
          (unvisited m visiting, 2 + unwalked m {bf_id facts} walking, 0)
      | Inr (Inr (Inr (m, states, ids, visiting, walking, wmemo, memo))) \<Rightarrow>
          (unvisited m visiting, 2 + unwalked m {} walking, Suc (length ids)))")
qed (use unwalked_empty in \<open>auto simp: unvisited_insert unwalked_insert unwalked_known less_Suc_eq_le Suc_le_eq\<close>)

text \<open>The pass over all stories, and the projection of the answers into the map.\<close>

definition project_epic :: "string \<times> string \<times> SuperState \<Rightarrow> story_map \<Rightarrow> story_map" where
  "project_epic entry stories =
     (case entry of (i, state, superstate) \<Rightarrow>
        (case btm_get stories i of
           None \<Rightarrow> stories
         | Some story \<Rightarrow>
             if \<not> is_epic story then stories
             else btm_insert i (story\<lparr>snap_state := state, snap_superstate := superstate, snap_state_computed := True,
                    snap_hidden_at := (if superstate = Open then None else snap_hidden_at story)\<rparr>) stories))"

definition epic_memo_of :: "story_map \<Rightarrow> StateDef list \<Rightarrow> epic_memo" where
  "epic_memo_of stories states =
     fold (\<lambda>i memo. snd (computed_epic_state stories states i [] memo)) (btm_keys stories) []"

definition apply_computed_epic_states :: "story_map \<Rightarrow> StateDef list \<Rightarrow> story_map" where
  "apply_computed_epic_states stories states = fold project_epic (epic_memo_of stories states) stories"

declare computed_epic_state.simps [simp del] epic_walk.simps [simp del]

section \<open>What the projection may change\<close>

text \<open>A story and its projection agree on everything but an epic's state.\<close>

definition epic_view :: "StorySnapshot \<Rightarrow> StorySnapshot" where
  "epic_view s =
     (if is_epic s then s\<lparr>snap_state := [], snap_superstate := Open, snap_state_computed := True, snap_hidden_at := None\<rparr>
      else s)"

lemma project_epic_view:
  "map_option epic_view (btm_get (project_epic e stories) k) = map_option epic_view (btm_get stories k)"
  by (auto simp: project_epic_def epic_view_def is_epic_def split: prod.splits option.splits)

lemma project_epic_ok: "btm_ok stories \<Longrightarrow> btm_ok (project_epic e stories)"
  by (auto simp: project_epic_def btm_ok_insert split: prod.splits option.splits)

lemma fold_project_view:
  "map_option epic_view (btm_get (fold project_epic es stories) k) = map_option epic_view (btm_get stories k)"
  by (induction es arbitrary: stories) (simp_all add: project_epic_view)

lemma fold_project_ok: "btm_ok stories \<Longrightarrow> btm_ok (fold project_epic es stories)"
  by (induction es arbitrary: stories) (simp_all add: project_epic_ok)

lemma projection_view:
  "map_option epic_view (btm_get (apply_computed_epic_states stories states) k) = map_option epic_view (btm_get stories k)"
  by (simp add: apply_computed_epic_states_def fold_project_view)

text \<open>
  The projection changes nothing but the state of epics: the map keeps its ids, a story that is
  not an epic is the story it was, and an epic keeps every field but its state, superstate, the
  computed-state latch and the time it was hidden.
\<close>

theorem projection_frame:
  "btm_get (apply_computed_epic_states stories states) k = None \<and> btm_get stories k = None
   \<or> (\<exists>s t. btm_get stories k = Some s \<and> btm_get (apply_computed_epic_states stories states) k = Some t
        \<and> epic_view t = epic_view s \<and> is_epic t = is_epic s \<and> snap_relationships t = snap_relationships s)"
proof (cases "btm_get stories k")
  case None
  then show ?thesis using projection_view [of stories states k] by simp
next
  case (Some s)
  then obtain t where t: "btm_get (apply_computed_epic_states stories states) k = Some t" "epic_view t = epic_view s"
    using projection_view [of stories states k] by (cases "btm_get (apply_computed_epic_states stories states) k") auto
  have "snap_story_type (epic_view u) = snap_story_type u"
    and "snap_relationships (epic_view u) = snap_relationships u" for u
    by (simp_all add: epic_view_def)
  then have "is_epic t = is_epic s" "snap_relationships t = snap_relationships s"
    using t(2) unfolding is_epic_def by metis+
  with t Some show ?thesis by blast
qed

end
