(* ===== verification/Epic_Fixpoint.thy ===== *)
theory Epic_Fixpoint
  imports Epic_States
begin

text \<open>
  What the projection of epic states computes.  Where no story can reach itself through the children of
  epics and through blockers, every call of the recursion gives the answer a computation from scratch
  gives, whatever the memo holds and whatever is in progress; hence the projected map is a fixed point
  of the aggregation rule, with the intervention walk evaluated on the projected map itself.  Without
  that hypothesis the memo can keep answers of the guard, which the last theorem shows by evaluation.
\<close>

section \<open>What the recursion computes\<close>

text \<open>
  The stories a computation may look at: the children of an epic, and the blockers of a story.  Where
  this relation has no cycle, the guards on nodes in progress never answer, and the memo can only hold
  what a computation from scratch would give.
\<close>

definition looks_at :: "story_map \<Rightarrow> (string \<times> string) set" where
  "looks_at m = {(i, j). \<exists>s. btm_get m i = Some s \<and> btm_get m j \<noteq> None
     \<and> (is_epic s \<and> j \<in> set (child_ids s) \<or> j \<in> set (bf_blockers (block_facts_of s)))}"

definition below :: "story_map \<Rightarrow> string \<Rightarrow> string set" where
  "below m i = {j. (i, j) \<in> (looks_at m)\<^sup>*}"

definition scratch :: "story_map \<Rightarrow> StateDef list \<Rightarrow> string \<Rightarrow> string \<times> SuperState" where
  "scratch m states i = the (fst (computed_epic_state m states i [] []))"

abbreviation facts_at :: "story_map \<Rightarrow> StateDef list \<Rightarrow> string \<Rightarrow> StorySnapshot \<Rightarrow> BlockFacts" where
  "facts_at m states i s \<equiv> with_effective s (fst (scratch m states i)) (snd (scratch m states i))"

inductive held :: "story_map \<Rightarrow> StateDef list \<Rightarrow> string \<Rightarrow> bool" for m states where
  signal: "btm_get m i = Some s \<Longrightarrow> snd (scratch m states i) = Open \<Longrightarrow>
     intervention_signal (facts_at m states i s) \<Longrightarrow> held m states i"
| waits: "btm_get m i = Some s \<Longrightarrow> snd (scratch m states i) = Open \<Longrightarrow>
     j \<in> set (bf_blockers (block_facts_of s)) \<Longrightarrow> held m states j \<Longrightarrow> held m states i"

definition memo_exact :: "story_map \<Rightarrow> StateDef list \<Rightarrow> epic_memo \<Rightarrow> bool" where
  "memo_exact m states memo \<longleftrightarrow> (\<forall>k a. btm_get memo k = Some a \<longrightarrow> btm_get m k \<noteq> None \<and> a = scratch m states k)"

definition walk_exact :: "story_map \<Rightarrow> StateDef list \<Rightarrow> walk_memo \<Rightarrow> bool" where
  "walk_exact m states wmemo \<longleftrightarrow> (\<forall>k b. btm_get wmemo k = Some b \<longrightarrow> b = held m states k)"

lemma memo_exact_insert:
  "memo_exact m states memo \<Longrightarrow> btm_get m i \<noteq> None \<Longrightarrow> memo_exact m states (btm_insert i (scratch m states i) memo)"
  unfolding memo_exact_def by (metis btm_get_insert option.inject)

text \<open>The call on one story gives the answer from scratch, and a memo that is still exact.\<close>

definition exact_at :: "story_map \<Rightarrow> StateDef list \<Rightarrow> string \<Rightarrow> bool" where
  "exact_at m states i \<longleftrightarrow> (\<forall>visiting memo. memo_exact m states memo \<longrightarrow> set visiting \<inter> below m i = {} \<longrightarrow>
     fst (computed_epic_state m states i visiting memo)
        = (if btm_get m i = None then None else Some (scratch m states i))
     \<and> memo_exact m states (snd (computed_epic_state m states i visiting memo)))"

definition exact_children :: "story_map \<Rightarrow> StateDef list \<Rightarrow> StorySnapshot \<Rightarrow> epic_child list" where
  "exact_children m states s =
     List.map_filter (\<lambda>j. map_option (\<lambda>c. (c, scratch m states j)) (btm_get m j)) (child_ids s)"

lemma held_blockers [simp]: "bf_blockers (with_effective s state super) = bf_blockers (block_facts_of s)"
  by (simp add: with_effective_def block_facts_of_def)

lemma held_iff:
  assumes "btm_get m i = Some s"
  shows "held m states i \<longleftrightarrow> snd (scratch m states i) = Open
    \<and> (intervention_signal (facts_at m states i s)
       \<or> (\<exists>j \<in> set (bf_blockers (block_facts_of s)). held m states j))"
  using assms by (subst held.simps) auto

lemma held_known: "held m states i \<Longrightarrow> btm_get m i \<noteq> None"
  by (induction rule: held.induct) auto

lemma children_exact:
  assumes "\<And>j. j \<in> set ids \<Longrightarrow> btm_get m j \<noteq> None \<Longrightarrow> exact_at m states j \<and> set visiting \<inter> below m j = {}"
    and "memo_exact m states memo"
  shows "fst (epic_children m states ids visiting memo)
      = List.map_filter (\<lambda>j. map_option (\<lambda>c. (c, scratch m states j)) (btm_get m j)) ids
    \<and> memo_exact m states (snd (epic_children m states ids visiting memo))"
  using assms
proof (induction ids arbitrary: memo)
  case (Cons i ids)
  show ?case
  proof (cases "btm_get m i")
    case None
    then show ?thesis using Cons by (simp add: List.map_filter_def)
  next
    case (Some c)
    obtain a memo1 where run: "computed_epic_state m states i visiting memo = (a, memo1)" by fastforce
    have "a = Some (scratch m states i)" "memo_exact m states memo1"
      using Cons.prems(1) [of i] Cons.prems(2) Some run unfolding exact_at_def by fastforce+
    moreover obtain cs memo2 where rest: "epic_children m states ids visiting memo1 = (cs, memo2)" by fastforce
    moreover have "fst (epic_children m states ids visiting memo1)
        = List.map_filter (\<lambda>j. map_option (\<lambda>c. (c, scratch m states j)) (btm_get m j)) ids
      \<and> memo_exact m states (snd (epic_children m states ids visiting memo1))"
      using Cons.IH [of memo1] Cons.prems(1) \<open>memo_exact m states memo1\<close> by simp
    ultimately show ?thesis using Some run by (simp add: List.map_filter_def)
  qed
qed (simp add: List.map_filter_def)

lemma below_refl [simp]: "i \<in> below m i"
  by (simp add: below_def)

lemma below_mono: "(i, j) \<in> (looks_at m)\<^sup>* \<Longrightarrow> below m j \<subseteq> below m i"
  by (auto simp: below_def)

lemma not_below_again:
  assumes "acyclic (looks_at m)" and "(i, j) \<in> looks_at m"
  shows "i \<notin> below m j"
  using assms by (auto simp: below_def acyclic_def dest: rtrancl_into_trancl2)

lemma below_fresh:
  assumes "acyclic (looks_at m)" and "(i, j) \<in> looks_at m" and "set xs \<inter> below m i = {}"
  shows "set (bset_insert i xs) \<inter> below m j = {}"
  using assms not_below_again [OF assms(1,2)] below_mono [of i j m] by auto

text \<open>The walk of one level, given that the stories it resolves are computed exactly.\<close>

definition walk_right :: "story_map \<Rightarrow> StateDef list \<Rightarrow> bool \<Rightarrow> bool \<times> walk_memo \<times> epic_memo \<Rightarrow> bool" where
  "walk_right m states answer r \<longleftrightarrow>
     fst r = answer \<and> walk_exact m states (fst (snd r)) \<and> memo_exact m states (snd (snd r))"

lemma walk_any_exact:
  assumes "\<And>j s wmemo memo. j \<in> set ids \<Longrightarrow> btm_get m j = Some s \<Longrightarrow> walk_exact m states wmemo \<Longrightarrow>
      memo_exact m states memo \<Longrightarrow>
      walk_right m states (held m states j) (epic_walk m states (facts_at m states j s) visiting walking wmemo memo)"
    and "\<And>j. j \<in> set ids \<Longrightarrow> btm_get m j \<noteq> None \<Longrightarrow> exact_at m states j \<and> set visiting \<inter> below m j = {}"
    and "walk_exact m states wmemo" and "memo_exact m states memo"
  shows "walk_right m states (\<exists>j \<in> set ids. held m states j)
    (epic_walk_any m states ids visiting walking wmemo memo)"
  using assms
proof (induction ids arbitrary: wmemo memo)
  case (Cons i ids)
  have rest: "walk_right m states (\<exists>j \<in> set ids. held m states j)
      (epic_walk_any m states ids visiting walking wm me)"
    if "walk_exact m states wm" "memo_exact m states me" for wm me
    using Cons.IH [OF _ _ that] Cons.prems(1,2) by simp
  show ?case
  proof (cases "btm_get m i")
    case None
    then have "\<not> held m states i" using held_known by blast
    then show ?thesis using None rest [OF Cons.prems(3,4)] by simp
  next
    case (Some s)
    obtain a memo1 where run: "computed_epic_state m states i visiting memo = (a, memo1)" by fastforce
    have a: "a = Some (scratch m states i)" and m1: "memo_exact m states memo1"
      using Cons.prems(2) [of i] Cons.prems(4) Some run unfolding exact_at_def by fastforce+
    obtain b wm2 memo2 where w: "epic_walk m states (facts_at m states i s) visiting walking wmemo memo1 = (b, wm2, memo2)"
      by (metis prod_cases3)
    have "b = held m states i" "walk_exact m states wm2" "memo_exact m states memo2"
      using Cons.prems(1) [OF _ Some Cons.prems(3) m1] w by (auto simp: walk_right_def)
    then show ?thesis using rest [of wm2 memo2] Some run a w
      by (cases "scratch m states i") (auto simp: walk_right_def)
  qed
qed (simp add: walk_right_def)

lemma walk_exact_insert:
  "walk_exact m states wmemo \<Longrightarrow> walk_exact m states (btm_insert i (held m states i) wmemo)"
  by (simp add: walk_exact_def)

lemma walk_story_exact:
  assumes keyed: "keyed_index m" and acyc: "acyclic (looks_at m)"
    and level: "\<And>j. (i, j) \<in> (looks_at m)\<^sup>+ \<Longrightarrow> exact_at m states j \<and> set visiting \<inter> below m j = {}"
    and "btm_get m i = Some s" and "set walking \<inter> below m i = {}"
    and "walk_exact m states wmemo" and "memo_exact m states memo"
  shows "walk_right m states (held m states i) (epic_walk m states (facts_at m states i s) visiting walking wmemo memo)"
  using level assms(4-)
proof -
  have "wf ((looks_at m)\<inverse>)"
  proof (rule finite_acyclic_wf_converse [OF _ acyc])
    have "looks_at m \<subseteq> set (btm_keys m) \<times> set (btm_keys m)"
      by (auto simp: looks_at_def btm_keys_get)
    then show "finite (looks_at m)" by (rule finite_subset) simp
  qed
  then show ?thesis using level assms(4-)
  proof (induction i arbitrary: s walking wmemo memo rule: wf_induct_rule)
    case (less i)
    have i: "snap_id s = i"
      using keyed_index_id [OF keyed, of i s] less.prems(2) by (simp add: index_story_def)
    note iff = held_iff [OF less.prems(2), of states]
    have arc: "(i, j) \<in> looks_at m" if "j \<in> set (bf_blockers (block_facts_of s))" "btm_get m j \<noteq> None" for j
      using that less.prems(2) by (auto simp: looks_at_def)
    obtain b wm2 me2 where run: "epic_walk_any m states (bf_blockers (block_facts_of s)) visiting
        (bset_insert i walking) wmemo memo = (b, wm2, me2)" by (metis prod_cases3)
    have "walk_right m states (\<exists>j \<in> set (bf_blockers (block_facts_of s)). held m states j)
        (epic_walk_any m states (bf_blockers (block_facts_of s)) visiting (bset_insert i walking) wmemo memo)"
    proof (rule walk_any_exact [OF _ _ less.prems(4,5)])
      fix j t wm me
      assume j: "j \<in> set (bf_blockers (block_facts_of s))" "btm_get m j = Some t"
        and ok: "walk_exact m states wm" "memo_exact m states me"
      have ij: "(i, j) \<in> looks_at m" using arc j by simp
      show "walk_right m states (held m states j)
          (epic_walk m states (facts_at m states j t) visiting (bset_insert i walking) wm me)"
      proof (rule less.IH [OF _ _ j(2) below_fresh [OF acyc ij less.prems(3)] ok])
        show "(j, i) \<in> (looks_at m)\<inverse>" using ij by simp
        show "exact_at m states k \<and> set visiting \<inter> below m k = {}" if "(j, k) \<in> (looks_at m)\<^sup>+" for k
          using less.prems(1) ij that by (meson trancl_into_trancl2)
      qed
    next
      fix j
      assume "j \<in> set (bf_blockers (block_facts_of s))" "btm_get m j \<noteq> None"
      then show "exact_at m states j \<and> set visiting \<inter> below m j = {}" using less.prems(1) arc by blast
    qed
    then have any: "b = (\<exists>j \<in> set (bf_blockers (block_facts_of s)). held m states j)"
      "walk_exact m states wm2" "memo_exact m states me2"
      by (simp_all add: run walk_right_def)
    have fresh: "i \<notin> set walking" using less.prems(3) below_refl by blast
    have super: "bf_superstate (facts_at m states i s) = snd (scratch m states i)"
      by (simp add: with_effective_def)
    show ?case
    proof (cases "btm_get wmemo i")
      case None
      show ?thesis
      proof (cases "snd (scratch m states i) = Open \<and> \<not> intervention_signal (facts_at m states i s)")
        case True
        then have live: "snd (scratch m states i) = Open" "\<not> intervention_signal (facts_at m states i s)" by auto
        then have "held m states i = b" using iff any(1) by blast
        then show ?thesis using None live super fresh any walk_exact_insert [OF any(2), of i]
          by (subst epic_walk.simps) (simp add: i run walk_right_def)
      next
        case False
        then have "held m states i \<longleftrightarrow> snd (scratch m states i) = Open" using iff by blast
        then show ?thesis
          using None False super less.prems(4,5) walk_exact_insert [OF less.prems(4), of i]
          by (subst epic_walk.simps) (auto simp: i walk_right_def)
      qed
    next
      case (Some c)
      then have "c = held m states i" using less.prems(4) by (simp add: walk_exact_def)
      then show ?thesis using Some less.prems(4,5) by (subst epic_walk.simps) (simp add: i walk_right_def)
    qed
  qed
qed

lemma all_blocked_exact:
  assumes "\<And>c memo. c \<in> set cs \<Longrightarrow> memo_exact m states memo \<Longrightarrow>
      walk_right m states (h (fst c)) (epic_walk m states (with_effective (fst c) (child_state c) Open) visiting [] [] memo)"
    and "memo_exact m states memo"
  shows "fst (all_blocked_for_epic m states cs visiting memo)
      = list_all (\<lambda>c. \<not> snap_draft (fst c) \<and> h (fst c)) cs
    \<and> memo_exact m states (snd (all_blocked_for_epic m states cs visiting memo))"
  using assms
proof (induction cs arbitrary: memo)
  case (Cons c cs)
  obtain b wm2 me2 where run:
    "epic_walk m states (with_effective (fst c) (child_state c) Open) visiting [] [] memo = (b, wm2, me2)"
    by (metis prod_cases3)
  have "b = h (fst c)" "memo_exact m states me2"
    using Cons.prems(1) [of c memo] Cons.prems(2) run by (auto simp: walk_right_def)
  moreover have "fst (all_blocked_for_epic m states cs visiting me2)
      = list_all (\<lambda>c. \<not> snap_draft (fst c) \<and> h (fst c)) cs
    \<and> memo_exact m states (snd (all_blocked_for_epic m states cs visiting me2))"
    using Cons.IH [of me2] Cons.prems(1) \<open>memo_exact m states me2\<close> by simp
  ultimately show ?case using run Cons.prems(2) by simp
qed simp

text \<open>The equation an epic's effective state satisfies, over the effective states of its children.\<close>

definition epic_equation :: "story_map \<Rightarrow> StateDef list \<Rightarrow> string \<Rightarrow> StorySnapshot \<Rightarrow> string \<times> SuperState" where
  "epic_equation m states i s =
     (if \<not> is_epic s \<or> child_ids s = [] then (snap_state s, snap_superstate s)
      else
        (let children = exact_children m states s; incomplete = filter (\<lambda>c. child_super c = Open) children in
         with_superstate states
           (if children \<noteq> [] \<and> incomplete = [] then closed_aggregate children
            else open_aggregate s states incomplete
              (list_all (\<lambda>c. \<not> snap_draft (fst c) \<and> held m states (snap_id (fst c))) incomplete))))"

lemma super_cases: "filter (\<lambda>c. child_super c = Open) cs = [] \<longleftrightarrow> list_all (\<lambda>c. child_super c = Closed) cs"
  by (induction cs) (auto, metis SuperState.exhaust)

lemma exact_children_mem:
  assumes "c \<in> set (exact_children m states s)"
  obtains j where "j \<in> set (child_ids s)" "btm_get m j = Some (fst c)" "snd c = scratch m states j"
  using assms by (auto simp: exact_children_def List.map_filter_def)

lemma state_step:
  assumes keyed: "keyed_index m" and acyc: "acyclic (looks_at m)"
    and level: "\<And>j. (i, j) \<in> (looks_at m)\<^sup>+ \<Longrightarrow> exact_at m states j"
    and s: "btm_get m i = Some s" and memo: "memo_exact m states memo" "btm_get memo i = None"
    and fresh: "set visiting \<inter> below m i = {}"
  shows "fst (computed_epic_state m states i visiting memo) = Some (epic_equation m states i s)
    \<and> (\<exists>memo'. memo_exact m states memo'
         \<and> snd (computed_epic_state m states i visiting memo) = btm_insert i (epic_equation m states i s) memo')"
proof (cases "is_epic s \<and> child_ids s \<noteq> []")
  case False
  moreover have "i \<notin> set visiting" using fresh below_refl by blast
  ultimately show ?thesis using memo s
    by (subst (1 2) computed_epic_state.simps) (auto simp: remember_def epic_equation_def)
next
  case True
  have notin: "i \<notin> set visiting" using fresh below_refl by blast
  have arc: "(i, j) \<in> looks_at m" if "j \<in> set (child_ids s)" "btm_get m j \<noteq> None" for j
    using that True s by (auto simp: looks_at_def)
  have disj: "set (bset_insert i visiting) \<inter> below m j = {}" if path: "(i, j) \<in> (looks_at m)\<^sup>+" for j
  proof -
    obtain k where "(i, k) \<in> looks_at m" "(k, j) \<in> (looks_at m)\<^sup>*" using tranclD [OF path] by blast
    then show ?thesis using below_fresh [OF acyc _ fresh] below_mono [of k j m] by blast
  qed
  obtain children memo1 where
    kids: "epic_children m states (child_ids s) (bset_insert i visiting) memo = (children, memo1)" by fastforce
  have cs: "children = exact_children m states s" and memo1: "memo_exact m states memo1"
    using children_exact [of "child_ids s" m states "bset_insert i visiting" memo] level disj arc memo(1) kids
    by (auto simp: exact_children_def r_into_trancl)
  let ?inc = "filter (\<lambda>c. child_super c = Open) children"
  obtain blocked memo2 where
    blk: "all_blocked_for_epic m states ?inc (bset_insert i visiting) memo1 = (blocked, memo2)" by fastforce
  have "fst (all_blocked_for_epic m states ?inc (bset_insert i visiting) memo1)
      = list_all (\<lambda>c. \<not> snap_draft (fst c) \<and> held m states (snap_id (fst c))) ?inc
    \<and> memo_exact m states (snd (all_blocked_for_epic m states ?inc (bset_insert i visiting) memo1))"
  proof (rule all_blocked_exact [OF _ memo1])
    fix c me
    assume c: "c \<in> set ?inc" and me: "memo_exact m states me"
    then obtain j where j: "j \<in> set (child_ids s)" "btm_get m j = Some (fst c)" "snd c = scratch m states j"
      using exact_children_mem [of c m states s] cs by auto
    have ij: "(i, j) \<in> looks_at m" using arc j by simp
    have "snap_id (fst c) = j" using keyed_index_id [OF keyed] j(2) by (simp add: index_story_def)
    moreover have "with_effective (fst c) (child_state c) Open = facts_at m states j (fst c)"
      using c j(3) by (simp add: child_state_def child_super_def)
    moreover have "exact_at m states k \<and> set (bset_insert i visiting) \<inter> below m k = {}" if "(j, k) \<in> (looks_at m)\<^sup>+" for k
      using trancl_into_trancl2 [OF ij that] level disj by blast
    ultimately show "walk_right m states (held m states (snap_id (fst c)))
        (epic_walk m states (with_effective (fst c) (child_state c) Open) (bset_insert i visiting) [] [] me)"
      using walk_story_exact [OF keyed acyc _ j(2) _ _ me] by (simp add: walk_exact_def)
  qed
  then have "blocked = list_all (\<lambda>c. \<not> snap_draft (fst c) \<and> held m states (snap_id (fst c))) ?inc"
    and "memo_exact m states memo2" by (simp_all add: blk)
  then show ?thesis
    using True memo(2) s notin memo1 super_cases [of children]
    by (subst (1 2) computed_epic_state.simps)
      (auto simp: kids blk cs [symmetric] epic_equation_def Let_def remember_def)
qed

lemma memo_exact_Nil [simp]: "memo_exact m states []"
  by (simp add: memo_exact_def)

lemma scratch_exact:
  assumes keyed: "keyed_index m" and acyc: "acyclic (looks_at m)"
  shows "exact_at m states i \<and> (\<forall>s. btm_get m i = Some s \<longrightarrow> scratch m states i = epic_equation m states i s)"
proof -
  have "wf (((looks_at m)\<inverse>)\<^sup>+)"
    by (intro wf_trancl finite_acyclic_wf_converse [OF _ acyc] finite_subset [of "looks_at m" "set (btm_keys m) \<times> set (btm_keys m)"])
      (auto simp: looks_at_def btm_keys_get)
  then show ?thesis
  proof (induction i rule: wf_induct_rule)
    case (less i)
    have level: "exact_at m states j" if "(i, j) \<in> (looks_at m)\<^sup>+" for j
      using less that by (simp add: trancl_converse)
    show ?case
    proof (cases "btm_get m i")
      case None
      then have "computed_epic_state m states i visiting memo = (None, memo)" if "memo_exact m states memo" for visiting memo
      proof -
        have "btm_get memo i = None" using that None unfolding memo_exact_def by (metis not_None_eq)
        then show ?thesis using None by (subst computed_epic_state.simps) simp
      qed
      then show ?thesis using None by (simp add: exact_at_def)
    next
      case (Some s)
      note step = state_step [OF keyed acyc level Some]
      have eq: "scratch m states i = epic_equation m states i s"
        using step [of "[]" "[]"] by (simp add: scratch_def)
      have "exact_at m states i"
        unfolding exact_at_def
      proof (intro allI impI)
        fix visiting memo
        assume memo: "memo_exact m states memo" and fresh: "set visiting \<inter> below m i = {}"
        show "fst (computed_epic_state m states i visiting memo) = (if btm_get m i = None then None else Some (scratch m states i))
          \<and> memo_exact m states (snd (computed_epic_state m states i visiting memo))"
        proof (cases "btm_get memo i")
          case None
          then show ?thesis using step [OF _ memo None fresh] Some eq memo_exact_insert [of m states _ i] by auto
        next
          case (Some a)
          then have "a = scratch m states i" using memo unfolding memo_exact_def by blast
          then show ?thesis using memo \<open>btm_get m i = Some s\<close> Some
            by (subst (1 2) computed_epic_state.simps) simp
        qed
      qed
      then show ?thesis using eq Some by simp
    qed
  qed
qed

section \<open>The projected map\<close>

text \<open>The memo only grows, and stays an ordered map.\<close>

definition memo_grows :: "epic_memo \<Rightarrow> epic_memo \<Rightarrow> bool" where
  "memo_grows memo memo' \<longleftrightarrow> set (btm_keys memo) \<subseteq> set (btm_keys memo') \<and> (btm_ok memo \<longrightarrow> btm_ok memo')"

lemma memo_grows_refl [simp]: "memo_grows memo memo"
  by (simp add: memo_grows_def)

lemma memo_grows_trans: "memo_grows a b \<Longrightarrow> memo_grows b c \<Longrightarrow> memo_grows a c"
  by (auto simp: memo_grows_def)

lemma memo_grows_insert: "memo_grows a b \<Longrightarrow> memo_grows a (btm_insert i v b)"
  by (auto simp: memo_grows_def btm_ok_insert)

lemma memo_grows_then: "memo_grows a b \<Longrightarrow> memo_grows b c \<Longrightarrow> memo_grows a (btm_insert i v c)"
  by (rule memo_grows_insert) (rule memo_grows_trans)

lemma computation_grows:
  "memo_grows memo (snd (computed_epic_state m states i visiting memo))"
  "memo_grows memo (snd (epic_children m states ids visiting memo))"
  "memo_grows memo (snd (all_blocked_for_epic m states cs visiting memo))"
  "memo_grows memo (snd (snd (epic_walk m states facts visiting walking wmemo memo)))"
  "memo_grows memo (snd (snd (epic_walk_any m states ids visiting walking wmemo memo)))"
proof (induction m states i visiting memo and m states ids visiting memo and m states cs visiting memo
    and m states facts visiting walking wmemo memo and m states ids visiting walking wmemo memo
    rule: computed_epic_state_epic_children_all_blocked_for_epic_epic_walk_epic_walk_any.induct)
  case (1 m states i visiting memo)
  show ?case
  proof (cases "btm_get memo i = None \<and> i \<notin> set visiting \<and> (\<exists>s. btm_get m i = Some s \<and> is_epic s \<and> child_ids s \<noteq> [])")
    case False
    then show ?thesis
      by (subst computed_epic_state.simps) (auto simp: remember_def memo_grows_insert split: option.split)
  next
    case True
    then obtain s where s: "btm_get m i = Some s" "is_epic s" "child_ids s \<noteq> []" by blast
    let ?kids = "epic_children m states (child_ids s) (bset_insert i visiting) memo"
    let ?inc = "filter (\<lambda>c. child_super c = Open) (fst ?kids)"
    have kids: "memo_grows memo (snd ?kids)" using 1 True s by auto
    have "memo_grows (snd ?kids) (snd (all_blocked_for_epic m states ?inc (bset_insert i visiting) (snd ?kids)))"
      if "\<not> (fst ?kids \<noteq> [] \<and> list_all (\<lambda>c. child_super c = Closed) (fst ?kids))"
      using 1 True s that by (metis prod.collapse)
    then show ?thesis using True s kids
      by (subst computed_epic_state.simps)
        (auto simp: remember_def Let_def split: prod.split intro: memo_grows_insert memo_grows_then)
  qed
next
  case (3 m states i rest visiting memo)
  then show ?case by (auto split: option.splits prod.splits intro: memo_grows_trans)
next
  case (5 m states c rest visiting memo)
  then show ?case by (auto split: prod.splits intro: memo_grows_trans)
next
  case (6 m states facts visiting walking wmemo memo)
  then show ?case by (subst epic_walk.simps) (auto split: option.splits prod.splits)
next
  case (8 m states i rest visiting walking wmemo memo)
  show ?case
  proof (cases "btm_get m i")
    case None
    then show ?thesis using 8(1) by simp
  next
    case (Some blocker)
    obtain a memo1 where run: "computed_epic_state m states i visiting memo = (a, memo1)" by (cases "computed_epic_state m states i visiting memo")
    have one: "memo_grows memo memo1" using 8(2) [OF Some] run by simp
    show ?thesis
    proof (cases a)
      case None
      then show ?thesis using 8(3) [OF Some run [symmetric] None] one Some run memo_grows_trans by simp
    next
      case (Some ans)
      obtain state super where ans: "ans = (state, super)" by (cases ans)
      obtain b wm2 memo2 where w:
        "epic_walk m states (with_effective blocker state super) visiting walking wmemo memo1 = (b, wm2, memo2)"
        by (metis prod_cases3)
      have two: "memo_grows memo1 memo2"
        using 8(4) [OF \<open>btm_get m i = Some blocker\<close> run [symmetric] Some ans [symmetric]] w by simp
      have "memo_grows memo2 (snd (snd (epic_walk_any m states rest visiting walking wm2 memo2)))" if "\<not> b"
        using 8(5) [OF \<open>btm_get m i = Some blocker\<close> run [symmetric] Some ans [symmetric] w [symmetric] refl] that by simp
      then show ?thesis using one two w run Some ans \<open>btm_get m i = Some blocker\<close>
        by (auto intro: memo_grows_trans)
    qed
  qed
qed simp_all

lemma computed_in_memo:
  assumes "keyed_index m" and "acyclic (looks_at m)" and "btm_get m i = Some s" and "memo_exact m states memo"
  shows "i \<in> set (btm_keys (snd (computed_epic_state m states i [] memo)))"
proof (cases "btm_get memo i")
  case None
  then show ?thesis
    using state_step [OF assms(1,2) _ assms(3,4) None, of "[]"] scratch_exact [OF assms(1,2)] by auto
next
  case (Some a)
  then have "i \<in> set (btm_keys memo)" by (simp add: btm_keys_get)
  then show ?thesis using computation_grows(1) [of memo m states i "[]"] unfolding memo_grows_def by blast
qed

lemma memo_pass:
  assumes "keyed_index m" and "acyclic (looks_at m)" and "memo_exact m states memo" and "btm_ok memo"
    and "set ids \<subseteq> set (btm_keys m)"
  shows "memo_exact m states (fold (\<lambda>i memo. snd (computed_epic_state m states i [] memo)) ids memo)
    \<and> btm_ok (fold (\<lambda>i memo. snd (computed_epic_state m states i [] memo)) ids memo)
    \<and> set ids \<union> set (btm_keys memo) \<subseteq> set (btm_keys (fold (\<lambda>i memo. snd (computed_epic_state m states i [] memo)) ids memo))"
  using assms(3-)
proof (induction ids arbitrary: memo)
  case (Cons i ids)
  let ?memo = "snd (computed_epic_state m states i [] memo)"
  obtain s where s: "btm_get m i = Some s" using Cons.prems(3) by (auto simp: btm_keys_get)
  have "memo_exact m states ?memo" using scratch_exact [OF assms(1,2)] Cons.prems(1) by (simp add: exact_at_def)
  moreover have "btm_ok ?memo" "set (btm_keys memo) \<subseteq> set (btm_keys ?memo)"
    using computation_grows(1) [of memo m states i "[]"] Cons.prems(2) by (auto simp: memo_grows_def)
  ultimately show ?case
    using Cons.IH [of ?memo] Cons.prems(3) computed_in_memo [OF assms(1,2) s Cons.prems(1)] by auto
qed simp

lemma epic_memo_exact:
  assumes "keyed_index m" and "acyclic (looks_at m)"
  shows "btm_get (epic_memo_of m states) i = (if btm_get m i = None then None else Some (scratch m states i))"
    and "btm_ok (epic_memo_of m states)"
proof -
  have pass: "memo_exact m states (epic_memo_of m states)" "btm_ok (epic_memo_of m states)"
    "set (btm_keys m) \<subseteq> set (btm_keys (epic_memo_of m states))"
    using memo_pass [OF assms memo_exact_Nil, of "btm_keys m" states]
    by (simp_all add: epic_memo_of_def btm.ok_empty)
  show "btm_ok (epic_memo_of m states)" by (rule pass(2))
  show "btm_get (epic_memo_of m states) i = (if btm_get m i = None then None else Some (scratch m states i))"
  proof (cases "btm_get (epic_memo_of m states) i")
    case None
    then show ?thesis using pass(3) by (auto simp: btm_keys_get subset_iff)
  next
    case (Some a)
    then show ?thesis using pass(1) unfolding memo_exact_def by fastforce
  qed
qed

definition projected :: "StorySnapshot \<Rightarrow> string \<times> SuperState \<Rightarrow> StorySnapshot" where
  "projected s a =
     (if is_epic s then s\<lparr>snap_state := fst a, snap_superstate := snd a, snap_state_computed := True,
        snap_hidden_at := (if snd a = Open then None else snap_hidden_at s)\<rparr> else s)"

lemma fold_project_get:
  "distinct (map fst es) \<Longrightarrow> btm_get (fold project_epic es m) i =
     (case map_of es i of None \<Rightarrow> btm_get m i | Some a \<Rightarrow> map_option (\<lambda>s. projected s a) (btm_get m i))"
proof (induction es arbitrary: m)
  case (Cons e es)
  obtain k a where e: "e = (k, a)" by (cases e)
  have "btm_get (project_epic e m) i = (if i = k then map_option (\<lambda>s. projected s a) (btm_get m i) else btm_get m i)"
    by (cases a) (auto simp: e project_epic_def projected_def split: option.splits)
  moreover have "map_of es k = None" using Cons.prems by (auto simp: e map_of_eq_None_iff)
  ultimately show ?case using Cons by (auto simp: e split: option.splits)
qed simp

lemma projected_map:
  assumes "keyed_index m" and "acyclic (looks_at m)"
  shows "btm_get (apply_computed_epic_states m states) i = map_option (\<lambda>s. projected s (scratch m states i)) (btm_get m i)"
proof -
  have "distinct (map fst (epic_memo_of m states))"
    using epic_memo_exact(2) [OF assms, of states] by (simp add: btm_ok_def strict_sorted_iff)
  then show ?thesis
    using epic_memo_exact(1) [OF assms, of states i]
    by (simp add: apply_computed_epic_states_def fold_project_get btm_get_def [symmetric] split: option.split)
qed

lemma projected_simps [simp]:
  "snap_id (projected s a) = snap_id s" "snap_draft (projected s a) = snap_draft s"
  "snap_relationships (projected s a) = snap_relationships s"
  by (simp_all add: projected_def)

lemma projected_keyed:
  assumes "keyed_index m" and "acyclic (looks_at m)"
  shows "keyed_index (apply_computed_epic_states m states)"
proof -
  have ok: "btm_ok (apply_computed_epic_states m states)"
    using assms(1) by (simp add: apply_computed_epic_states_def fold_project_ok keyed_index_def)
  moreover have "snap_id t = k" if "(k, t) \<in> set (apply_computed_epic_states m states)" for k t
    using that btm_get_mem [OF ok, of k t] projected_map [OF assms, of states k] keyed_index_id [OF assms(1), of k]
    by (auto simp: index_story_def)
  ultimately show ?thesis by (auto simp: keyed_index_def list_all_iff)
qed

text \<open>The state of a projected story is the one computed from scratch.\<close>

lemma scratch_plain:
  assumes "keyed_index m" and "acyclic (looks_at m)" and "btm_get m i = Some s"
  shows "snap_state (projected s (scratch m states i)) = fst (scratch m states i)"
    and "snap_superstate (projected s (scratch m states i)) = snd (scratch m states i)"
  using scratch_exact [OF assms(1,2), of states i] assms(3)
  by (simp_all add: projected_def epic_equation_def)

lemma projected_facts:
  assumes "keyed_index m" and "acyclic (looks_at m)" and "btm_get m i = Some s"
  shows "block_facts_of (projected s (scratch m states i)) = facts_at m states i s"
proof -
  have "snap_awaiting (projected s a) = snap_awaiting s" for a by (simp add: projected_def)
  then show ?thesis using scratch_plain [OF assms, of states] by (simp add: block_facts_of_def with_effective_def)
qed

lemma stuck_projected:
  assumes keyed: "keyed_index m" and acyc: "acyclic (looks_at m)"
  shows "stuck (apply_computed_epic_states m states) i \<longleftrightarrow> held m states i"
proof -
  let ?F = "apply_computed_epic_states m states"
  have "wf ((looks_at m)\<inverse>)"
    by (intro finite_acyclic_wf_converse [OF _ acyc] finite_subset [of "looks_at m" "set (btm_keys m) \<times> set (btm_keys m)"])
      (auto simp: looks_at_def btm_keys_get)
  then show ?thesis
  proof (induction i rule: wf_induct_rule)
    case (less i)
    show ?case
    proof (cases "btm_get m i")
      case None
      then have "index_story ?F i = None" using projected_map [OF keyed acyc] by (simp add: index_story_def)
      then show ?thesis using None stuck_absent held_known by blast
    next
      case (Some s)
      let ?t = "projected s (scratch m states i)"
      have t: "index_story ?F i = Some ?t" using Some projected_map [OF keyed acyc] by (simp add: index_story_def)
      have facts: "block_facts_of ?t = facts_at m states i s" by (rule projected_facts [OF keyed acyc Some])
      have "stuck ?F j \<longleftrightarrow> held m states j" if "j \<in> set (bf_blockers (block_facts_of s))" for j
      proof (cases "btm_get m j")
        case None
        then have "index_story ?F j = None" using projected_map [OF keyed acyc] by (simp add: index_story_def)
        then show ?thesis using None stuck_absent held_known by blast
      next
        case (Some u)
        then have "(i, j) \<in> looks_at m" using that \<open>btm_get m i = Some s\<close> by (auto simp: looks_at_def)
        then show ?thesis using less.IH by simp
      qed
      moreover have "snap_superstate ?t = snd (scratch m states i)"
        by (rule scratch_plain [OF keyed acyc Some])
      ultimately show ?thesis
        unfolding stuck_iff [OF t] held_iff [OF Some] facts by simp
    qed
  qed
qed

text \<open>How an epic's state follows from the projected stories: the rule of the comments, on the result.\<close>

definition epic_rule :: "story_map \<Rightarrow> StateDef list \<Rightarrow> StorySnapshot \<Rightarrow> string \<times> SuperState" where
  "epic_rule stories states epic =
     (let children = live_children epic stories;
          triple = (\<lambda>c. (c, snap_state c, snap_superstate c));
          incomplete = filter (\<lambda>c. snap_superstate c = Open) children
      in with_superstate states
           (if children \<noteq> [] \<and> incomplete = [] then closed_aggregate (map triple children)
            else open_aggregate epic states (map triple incomplete)
              (list_all (\<lambda>c. \<not> snap_draft c \<and> needs_intervention c stories) incomplete)))"

lemma closed_aggregate_cong:
  assumes "map child_state cs = map child_state ds"
  shows "closed_aggregate cs = closed_aggregate ds"
proof -
  have all: "list_all (\<lambda>c. child_state c = f) es \<longleftrightarrow> set (map child_state es) \<subseteq> {f}" for f es
    by (auto simp: list_all_iff)
  have hd: "child_state (hd cs) = child_state (hd ds)"
    using assms by (metis hd_map map_is_Nil_conv)
  show ?thesis unfolding closed_aggregate_def Let_def all hd assms by (rule refl)
qed

lemma open_aggregate_cong:
  assumes "map child_state cs = map child_state ds"
  shows "open_aggregate s states cs b = open_aggregate s states ds b"
proof -
  have ex: "list_ex (\<lambda>c. p (child_state c)) es \<longleftrightarrow> (\<exists>x \<in> set (map child_state es). p x)" for p es
    by (auto simp: list_ex_iff)
  have nil: "es = [] \<longleftrightarrow> map child_state es = []" for es by simp
  show ?thesis unfolding open_aggregate_def
    by (simp only: ex [of "\<lambda>x. x = ''in-progress'' \<or> x = ''verifying'' \<or>
        list_ex (\<lambda>d. sd_slug d = x \<and> sd_role d = Some STATE_ROLE_ACTIVE) states"] nil [of cs] nil [of ds] assms)
qed

lemma live_children_projected:
  assumes "keyed_index m" and "acyclic (looks_at m)"
  shows "live_children s (apply_computed_epic_states m states)
    = map (\<lambda>c. projected (fst c) (snd c)) (exact_children m states s)"
proof -
  have "List.map_filter (btm_get (apply_computed_epic_states m states)) ids
      = map (\<lambda>c. projected (fst c) (snd c))
          (List.map_filter (\<lambda>j. map_option (\<lambda>c. (c, scratch m states j)) (btm_get m j)) ids)" for ids
    by (induction ids) (auto simp: List.map_filter_def projected_map [OF assms])
  moreover have "live_children s stories = List.map_filter (btm_get stories) (child_ids s)" for stories
    by (simp add: live_children_def child_ids_def List.map_filter_def filter_map comp_def)
  ultimately show ?thesis by (simp add: exact_children_def)
qed

lemma exact_child:
  assumes "keyed_index m" and "acyclic (looks_at m)" and "c \<in> set (exact_children m states s)"
  shows "snap_state (projected (fst c) (snd c)) = child_state c"
    and "snap_superstate (projected (fst c) (snd c)) = child_super c"
    and "needs_intervention (projected (fst c) (snd c)) (apply_computed_epic_states m states)
      = held m states (snap_id (fst c))"
proof -
  obtain j where j: "btm_get m j = Some (fst c)" "snd c = scratch m states j"
    using exact_children_mem [OF assms(3)] by blast
  show "snap_state (projected (fst c) (snd c)) = child_state c" "snap_superstate (projected (fst c) (snd c)) = child_super c"
    using scratch_plain [OF assms(1,2) j(1), of states] j(2) by (simp_all add: child_state_def child_super_def)
  have "index_story (apply_computed_epic_states m states) j = Some (projected (fst c) (snd c))"
    using projected_map [OF assms(1,2), of states j] j by (simp add: index_story_def)
  then show "needs_intervention (projected (fst c) (snd c)) (apply_computed_epic_states m states)
      = held m states (snap_id (fst c))"
    using needs_intervention_stuck [OF projected_keyed [OF assms(1,2)]] stuck_projected [OF assms(1,2)]
      keyed_index_id [OF assms(1), of j] j(1)
    by (simp add: index_story_def)
qed

text \<open>
  C17. The projection is a fixed point of its rule: where no story can reach itself through children of
  epics and blockers, an epic with children has, in the projected map, exactly the state and superstate
  that follow from its projected children: closed if there are children and all are closed, blocked if
  every open child is published and needs a person by the intervention walk over the projected map, in
  progress if an open child is being worked on, otherwise the default open state.  The memo and the
  guards on nodes in progress leave no trace in the result.
\<close>

theorem epic_projection_fixpoint:
  assumes "keyed_index m" and "acyclic (looks_at m)"
    and "btm_get m i = Some s" and "is_epic s" and "has_children s"
  shows "\<exists>t. btm_get (apply_computed_epic_states m states) i = Some t
    \<and> (snap_state t, snap_superstate t) = epic_rule (apply_computed_epic_states m states) states s"
proof -
  let ?F = "apply_computed_epic_states m states" and ?cs = "exact_children m states s"
  let ?t = "projected s (scratch m states i)" and ?p = "\<lambda>c. projected (fst c) (snd c)"
  note child = exact_child [OF assms(1,2), of _ states s]
  have inc: "filter (\<lambda>c. snap_superstate c = Open) (map ?p ?cs) = map ?p (filter (\<lambda>c. child_super c = Open) ?cs)"
    using child(2) by (simp add: filter_map comp_def cong: filter_cong)
  have states_of: "map child_state (map (\<lambda>c. (c, snap_state c, snap_superstate c)) (map ?p cs)) = map child_state cs"
    if "set cs \<subseteq> set ?cs" for cs using that child(1) by (auto simp: child_state_def)
  have "list_all (\<lambda>c. \<not> snap_draft c \<and> needs_intervention c ?F) (map ?p (filter (\<lambda>c. child_super c = Open) ?cs))
      = list_all (\<lambda>c. \<not> snap_draft (fst c) \<and> held m states (snap_id (fst c))) (filter (\<lambda>c. child_super c = Open) ?cs)"
    using child(3) by (simp add: list_all_iff)
  moreover have "child_ids s \<noteq> []"
    using assms(5) by (auto simp: has_children_def child_ids_def list_ex_iff filter_empty_conv)
  moreover have "closed_aggregate (map (\<lambda>c. (c, snap_state c, snap_superstate c)) (map ?p ?cs)) = closed_aggregate ?cs"
    by (rule closed_aggregate_cong [OF states_of]) simp
  moreover have "open_aggregate s states (map (\<lambda>c. (c, snap_state c, snap_superstate c))
        (map ?p (filter (\<lambda>c. child_super c = Open) ?cs))) b
      = open_aggregate s states (filter (\<lambda>c. child_super c = Open) ?cs) b" for b
    by (rule open_aggregate_cong [OF states_of]) simp
  ultimately have "epic_rule ?F states s = epic_equation m states i s"
    unfolding epic_rule_def epic_equation_def live_children_projected [OF assms(1,2)] inc Let_def
    using assms(4) by (simp only: map_is_Nil_conv simp_thms if_True if_False)
  moreover have "(snap_state ?t, snap_superstate ?t) = epic_equation m states i s"
    using scratch_plain [OF assms(1-3), of states] scratch_exact [OF assms(1,2), of states i] assms(3) by simp
  moreover have "btm_get ?F i = Some ?t" using projected_map [OF assms(1,2)] assms(3) by simp
  ultimately show ?thesis by (intro exI conjI) auto
qed

section \<open>Epics, evaluated\<close>

definition epic_story :: "string \<Rightarrow> StoryRelation list \<Rightarrow> StorySnapshot" where
  "epic_story i rels = (bare_story i rels)\<lparr>snap_story_type := Some EPIC_TYPE_SLUG\<rparr>"

definition epic_catalog :: "StateDef list" where
  "epic_catalog =
     [\<lparr>sd_slug = ''todo'', sd_super = Open, sd_role = None, sd_description = None\<rparr>,
      \<lparr>sd_slug = ''in-progress'', sd_super = Open, sd_role = Some STATE_ROLE_ACTIVE, sd_description = None\<rparr>,
      \<lparr>sd_slug = ''blocked'', sd_super = Open, sd_role = None, sd_description = None\<rparr>,
      \<lparr>sd_slug = ''done'', sd_super = Closed, sd_role = None, sd_description = None\<rparr>]"

text \<open>\<open>SH-1\<close> has a child that waits on \<open>SH-4\<close>, which awaits a person.\<close>

definition sample_epic :: story_map where
  "sample_epic = keyed_stories
     [epic_story ''SH-1'' [StoryRelation ''parent-of'' ''SH-2'', StoryRelation ''parent-of'' ''SH-3''],
      bare_story ''SH-2'' [StoryRelation ''blocked-by'' ''SH-4''],
      (bare_story ''SH-3'' [])\<lparr>snap_state := ''done'', snap_superstate := Closed\<rparr>,
      (bare_story ''SH-4'' [])\<lparr>snap_awaiting := Some ''review''\<rparr>]"

definition looks_forward :: "story_map \<Rightarrow> bool" where
  "looks_forward m \<longleftrightarrow>
     list_all (\<lambda>(i, s). list_all (\<lambda>j. i < j) (child_ids s @ bf_blockers (block_facts_of s))) m"

lemma looks_forward_acyclic: "looks_forward m \<Longrightarrow> acyclic (looks_at m)"
proof -
  assume forward: "looks_forward m"
  have "looks_at m \<subseteq> {(i, j). i < j}"
  proof (clarsimp simp: looks_at_def)
    fix i j s
    assume "btm_get m i = Some s"
      and mem: "is_epic s \<and> j \<in> set (child_ids s) \<or> j \<in> set (bf_blockers (block_facts_of s))"
    then have "(i, s) \<in> set m" by (simp add: btm_get_def map_of_SomeD)
    then show "i < j" using forward mem by (auto simp: looks_forward_def list_all_iff)
  qed
  moreover have "trans {(i :: string, j). i < j}" by (auto intro: transI)
  then have "acyclic {(i :: string, j). i < j}" by (simp add: acyclic_def trancl_id)
  ultimately show ?thesis using acyclic_subset by blast
qed

theorem epic_projection_fixpoint_witness:
  "\<exists>t. btm_get (apply_computed_epic_states sample_epic epic_catalog) ''SH-1'' = Some t \<and> snap_state t = ''blocked''
    \<and> (snap_state t, snap_superstate t) = epic_rule (apply_computed_epic_states sample_epic epic_catalog) epic_catalog
        (epic_story ''SH-1'' [StoryRelation ''parent-of'' ''SH-2'', StoryRelation ''parent-of'' ''SH-3''])"
proof -
  let ?s = "epic_story ''SH-1'' [StoryRelation ''parent-of'' ''SH-2'', StoryRelation ''parent-of'' ''SH-3'']"
  have "looks_forward sample_epic" by code_simp
  then have acyc: "acyclic (looks_at sample_epic)" by (rule looks_forward_acyclic)
  have facts: "keyed_index sample_epic" "btm_get sample_epic ''SH-1'' = Some ?s" "is_epic ?s" "has_children ?s"
    "map_option snap_state (btm_get (apply_computed_epic_states sample_epic epic_catalog) ''SH-1'') = Some ''blocked''"
    by code_simp+
  show ?thesis
    using epic_projection_fixpoint [OF facts(1) acyc facts(2-4), of epic_catalog] facts(5) by auto
qed


end
