(* ===== verification/Story_Store.thy ===== *)
theory Story_Store
  imports Story_Ids Story_Admission Story_Transition Epic_States
begin

text \<open>
  The store of one project and the write path every service uses (\<^verbatim>\<open>src/src/store/sqlite/write.rs\<close>,
  \<^verbatim>\<open>src/src/store/sqlite/read.rs\<close>, \<^verbatim>\<open>src/src/store/types.rs\<close>, \<^verbatim>\<open>src/src/service/mod.rs\<close>): the event logs, the rows of
  the read model and the table of relations with its constraints and mirror triggers
  (\<^verbatim>\<open>schema/0001_initial.sql\<close>).  Timestamps, provenance, labels, commit links and pull-request links of
  the tables are not modelled, and neither are the tables of the engine; what they can refuse is a
  parameter, the record \<open>Guards\<close>.  A transaction is a function from the store to a result with the new
  store; an error rolls it back.
\<close>

section \<open>State\<close>

datatype StoredPayload = Known StoryEvent | Unknown string

datatype ExpectedSeq = AnySeq | Exact int

record StoryRow =
  row_no :: int
  row_head_seq :: int
  row_archived :: bool
  row_snapshot :: StorySnapshot

record Store =
  st_project :: int
  st_slug :: string
  st_prefix :: string
  st_states :: "StateDef list"
  st_types :: "TypeDef list"
  st_next_no :: int
  st_automations :: bool
  st_deriving :: bool
  st_events :: "(int, StoredPayload list) btree_map"
  st_stories :: "(int, StoryRow) btree_map"
  st_relations :: "(int \<times> string \<times> int) list"

text \<open>
  What the code outside the model decides: the refusals of the tables an append also writes, of a story
  reset, of an engine reset, of an uncertified completion, of the derivation of block deliveries, of a
  claim and of a deletion a durable record stands against; whether a story is certified for its stay in
  verification, and which stories a reset still owns; whether automatic work is being disabled; the cleanup
  lease of the working directory; the comment and the outcome of publishing a pending repair; the Unicode lower-casing and the debug rendering of the label guard; the JSON parser of
  the patch of a story; and the error a constraint of the schema raises for an action.
\<close>

datatype JsonValue = JNull | JString string | JArray "JsonValue list" | JObject "(string \<times> JsonValue) list" | JOther

record Guards =
  guard_append :: "int \<Rightarrow> StoryEvent list \<Rightarrow> unit result"
  guard_story_reset :: "int \<Rightarrow> unit result"
  guard_engine_reset :: "int \<Rightarrow> unit result"
  guard_completion :: "int \<Rightarrow> StoryEvent list \<Rightarrow> unit result"
  guard_derivation :: "Store \<Rightarrow> Store \<Rightarrow> unit result"
  guard_reserved :: "int \<Rightarrow> unit result"
  guard_deletion :: "int \<Rightarrow> unit result"
  guard_certified :: "int \<Rightarrow> StoryRow \<Rightarrow> bool result"
  guard_resets :: "int \<Rightarrow> bool result"
  guard_disabling :: bool
  guard_lease :: "StoryCleanupLease option result"
  guard_flush :: "string \<Rightarrow> string option \<times> unit result"
  guard_json :: "string \<Rightarrow> string + JsonValue"
  guard_lower :: "string \<Rightarrow> string"
  guard_debug :: "string list \<Rightarrow> string"
  guard_constraint :: "string \<Rightarrow> AppError"

section \<open>Reading\<close>

definition stored_events :: "Store \<Rightarrow> int \<Rightarrow> StoredPayload list" where
  "stored_events s no = (case btm_get (st_events s) no of Some es \<Rightarrow> es | None \<Rightarrow> [])"

definition partition_known :: "StoredPayload list \<Rightarrow> StoryEvent list \<times> string list" where
  "partition_known events =
     (List.map_filter (\<lambda>p. case p of Known e \<Rightarrow> Some e | Unknown _ \<Rightarrow> None) events,
      List.map_filter (\<lambda>p. case p of Known _ \<Rightarrow> None | Unknown kind \<Rightarrow> Some kind) events)"

abbreviation known_events :: "Store \<Rightarrow> int \<Rightarrow> StoryEvent list" where
  "known_events s no \<equiv> fst (partition_known (stored_events s no))"

text \<open>Sequence numbers of a story are consecutive from 1, so the largest is the length of its log.\<close>

definition head_seq :: "Store \<Rightarrow> int \<Rightarrow> int" where
  "head_seq s no = int (length (stored_events s no))"

definition story_row :: "Store \<Rightarrow> int \<Rightarrow> StoryRow option" where
  "story_row s no = btm_get (st_stories s) no"

definition relations_from :: "Store \<Rightarrow> int \<Rightarrow> (string \<times> int) list" where
  "relations_from s no = map snd (filter (\<lambda>(a, _). a = no) (st_relations s))"

definition relations_to :: "Store \<Rightarrow> int \<Rightarrow> (int \<times> string) list" where
  "relations_to s no = map (\<lambda>(a, rel, _). (a, rel)) (filter (\<lambda>(_, _, b). b = no) (st_relations s))"

definition app_error_of :: "StoreError \<Rightarrow> AppError" where
  "app_error_of e = (case e of StoreValidation m \<Rightarrow> Validation m)"

definition parse_story_id :: "string \<Rightarrow> string \<Rightarrow> int result" where
  "parse_story_id pre i = (case parse_id pre i of Inr n \<Rightarrow> Inr n | Inl e \<Rightarrow> Inl (app_error_of e))"

definition story_rows :: "Store \<Rightarrow> story_map" where
  "story_rows s = btm_of_list (map (\<lambda>r. (snap_id (row_snapshot r), row_snapshot r)) (btm_values (st_stories s)))"

definition store_story_map :: "Store \<Rightarrow> story_map" where
  "store_story_map s =
     (if st_automations s then apply_computed_epic_states (story_rows s) (st_states s) else story_rows s)"

section \<open>The relation table\<close>

definition claimed_by_other_end :: "Store \<Rightarrow> int \<Rightarrow> string \<Rightarrow> int \<Rightarrow> bool" where
  "claimed_by_other_end s story rel other =
     (case inverse_relation rel of
        None \<Rightarrow> False
      | Some inv_rel \<Rightarrow>
          (case story_row s other of
             None \<Rightarrow> False
           | Some row \<Rightarrow> list_ex (\<lambda>claim. relation claim = inv_rel
               \<and> parse_id (st_prefix s) (other_id claim) = Inr story) (snap_relationships (row_snapshot row))))"

text \<open>\<open>DELETE\<close> and \<open>INSERT\<close> of one edge, each followed by its mirror trigger.\<close>

definition delete_edge :: "int \<Rightarrow> string \<Rightarrow> int \<Rightarrow> Store \<Rightarrow> Store" where
  "delete_edge story rel other s =
     s\<lparr>st_relations := (let rest = bset_remove (story, rel, other) (st_relations s) in
        (case inverse_relation rel of Some inv_rel \<Rightarrow> bset_remove (other, inv_rel, story) rest | None \<Rightarrow> rest))\<rparr>"

definition insert_edge :: "Guards \<Rightarrow> int \<Rightarrow> string \<Rightarrow> int \<Rightarrow> Store \<Rightarrow> Store result" where
  "insert_edge g story rel other s =
     (case inverse_relation rel of
        None \<Rightarrow> Inl (guard_constraint g ''adding a relation'')
      | Some inv_rel \<Rightarrow>
          if story = other \<or> story_row s story = None \<or> story_row s other = None
             \<or> (story, rel, other) \<in> set (st_relations s) \<or> (other, inv_rel, story) \<in> set (st_relations s)
          then Inl (guard_constraint g ''adding a relation'')
          else Inr (s\<lparr>st_relations :=
            bset_insert (other, inv_rel, story) (bset_insert (story, rel, other) (st_relations s))\<rparr>))"

fun insert_edges :: "Guards \<Rightarrow> int \<Rightarrow> (string \<times> int) list \<Rightarrow> Store \<Rightarrow> Store result" where
  "insert_edges g story [] s = Inr s"
| "insert_edges g story ((rel, other) # rest) s = result_bind (insert_edge g story rel other s) (insert_edges g story rest)"

fun desired_edges :: "string \<Rightarrow> StoryRelation list \<Rightarrow> (string \<times> int) list result" where
  "desired_edges pre [] = Inr []"
| "desired_edges pre (r # rest) =
     result_bind (parse_story_id pre (other_id r)) (\<lambda>other.
     result_bind (desired_edges pre rest) (\<lambda>edges. Inr ((relation r, other) # edges)))"

definition put_relations :: "Guards \<Rightarrow> int \<Rightarrow> StorySnapshot \<Rightarrow> Store \<Rightarrow> Store result" where
  "put_relations g story snapshot s =
     result_bind (desired_edges (st_prefix s) (snap_relationships snapshot)) (\<lambda>claims.
     let desired = bset_collect claims;
         existing = relations_from s story;
         stale = filter (\<lambda>(rel, other). \<not> claimed_by_other_end s story rel other)
           (filter (\<lambda>e. e \<notin> set desired) existing);
         added = filter (\<lambda>e. e \<notin> set existing) desired
     in insert_edges g story added (fold (\<lambda>(rel, other). delete_edge story rel other) stale s))"

section \<open>Writing\<close>

definition append_events :: "Guards \<Rightarrow> int \<Rightarrow> ExpectedSeq \<Rightarrow> StoryEvent list \<Rightarrow> Store \<Rightarrow> (int \<times> Store) result" where
  "append_events g no expected events s =
     result_bind (guard_append g no events) (\<lambda>_.
     let head = head_seq s no in
     (case expected of
        Exact required \<Rightarrow>
          if required \<noteq> head then Inl (StateConflict (''seq '' @ int_str required) (''seq '' @ int_str head))
          else Inr (head + int (length events),
            s\<lparr>st_events := btm_insert no (stored_events s no @ map Known events) (st_events s)\<rparr>)
      | AnySeq \<Rightarrow> Inr (head + int (length events),
          s\<lparr>st_events := btm_insert no (stored_events s no @ map Known events) (st_events s)\<rparr>)))"

text \<open>
  The counter only grows; the integer column cannot hold the successor of the largest number, so that the
  next read of it fails.
\<close>

definition allocate_story_no :: "Guards \<Rightarrow> Store \<Rightarrow> (int \<times> Store) result" where
  "allocate_story_no g s =
     (if st_next_no s + 1 < 2 ^ 63 then Inr (st_next_no s, s\<lparr>st_next_no := st_next_no s + 1\<rparr>)
      else Inl (guard_constraint g ''allocating a story number''))"

definition purge_story :: "int \<Rightarrow> Store \<Rightarrow> (int \<times> Store) result" where
  "purge_story no s =
     (case story_row s no of
        None \<Rightarrow> Inl (NotFound (''purging a story that does not exist ('' @ int_str (st_project s) @ '', story '' @ int_str no @ '')''))
      | Some _ \<Rightarrow>
          Inr (int (length (stored_events s no)),
            s\<lparr>st_relations := filter (\<lambda>(a, _, b). a \<noteq> no \<and> b \<noteq> no) (st_relations s),
              st_stories := filter (\<lambda>(a, _). a \<noteq> no) (st_stories s),
              st_events := filter (\<lambda>(a, _). a \<noteq> no) (st_events s)\<rparr>))"

definition put_story :: "Guards \<Rightarrow> StorySnapshot \<Rightarrow> int \<Rightarrow> Store \<Rightarrow> Store result" where
  "put_story g snapshot head s =
     result_bind (parse_story_id (st_prefix s) (snap_id snapshot)) (\<lambda>story.
       put_relations g story snapshot
         (s\<lparr>st_stories := btm_insert story
            \<lparr>row_no = story, row_head_seq = head, row_archived = (snap_closed_at snapshot \<noteq> None),
             row_snapshot = snapshot\<rparr> (st_stories s)\<rparr>))"

definition underived :: "int \<Rightarrow> string \<Rightarrow> Store \<Rightarrow> AppError" where
  "underived no what s =
     Storage (to_id no (st_prefix s) @ '' (project '' @ int_str (st_project s) @ ''): '' @ what
       @ '' can change effective blocking, but this write runs outside block-edge derivation, so no Resume or ''
       @ ''Interrupt would be recorded for the stories it blocks or unblocks. Open the transaction through ''
       @ ''Ctx::write_stories, or wrap it in service::block_delivery::derive_block_edges (SH-772).'')"

definition refuse_underived_block_change :: "int \<Rightarrow> StoryEvent list \<Rightarrow> Store \<Rightarrow> unit result" where
  "refuse_underived_block_change no events s =
     (if st_deriving s then Inr ()
      else
        (let relevant = map event_kind (filter may_change_effective_block events) in
         if relevant = [] then Inr () else Inl (underived no (join '', '' relevant) s)))"

definition moves_state :: "StoryEvent \<Rightarrow> bool" where
  "moves_state e \<longleftrightarrow>
     (case e of StoryStateChanged _ _ \<Rightarrow> True | StoryClosedAndArchived _ _ \<Rightarrow> True | StoryDeleted _ _ \<Rightarrow> True
      | StoryAwaitingSet _ _ \<Rightarrow> True | StoryStateCleared _ \<Rightarrow> True | _ \<Rightarrow> False)"

definition append_and_fold_maintenance ::
  "Guards \<Rightarrow> int \<Rightarrow> ExpectedSeq \<Rightarrow> StoryEvent list \<Rightarrow> Store \<Rightarrow> (StorySnapshot \<times> Store) result" where
  "append_and_fold_maintenance g no expected events s =
     result_bind (for_each (validate_event_for_append (guard_lower g) (guard_debug g)) events) (\<lambda>_.
     result_bind (refuse_underived_block_change no events s) (\<lambda>_.
     result_bind (if list_ex moves_state events then guard_engine_reset g no else Inr ()) (\<lambda>_.
     result_bind (guard_completion g no events) (\<lambda>_.
     result_bind (append_events g no expected events s) (\<lambda>(head, s).
     result_bind (fold_story (to_id no (st_prefix s)) (known_events s no) (catalog_of (st_states s))) (\<lambda>snapshot.
     result_bind (put_story g snapshot head s) (\<lambda>s. Inr (snapshot, s))))))))"

definition is_state_changed :: "StoryEvent \<Rightarrow> bool" where
  "is_state_changed e \<longleftrightarrow> (case e of StoryStateChanged _ _ \<Rightarrow> True | _ \<Rightarrow> False)"

definition append_and_fold ::
  "Guards \<Rightarrow> int \<Rightarrow> ExpectedSeq \<Rightarrow> StoryEvent list \<Rightarrow> Store \<Rightarrow> (StorySnapshot \<times> Store) result" where
  "append_and_fold g no expected events s =
     result_bind (if list_ex is_state_changed events then guard_story_reset g no else Inr ()) (\<lambda>_.
     result_bind (if st_automations s
        then validate_append (to_id no (st_prefix s)) (known_events s no) events (st_states s) (store_story_map s)
        else Inr ()) (\<lambda>_.
     append_and_fold_maintenance g no expected events s))"

definition refold_story :: "Guards \<Rightarrow> int \<Rightarrow> Store \<Rightarrow> (StorySnapshot \<times> Store) result" where
  "refold_story g no s =
     (if \<not> st_deriving s then Inl (underived no ''a refold'' s)
      else
        result_bind (fold_story (to_id no (st_prefix s)) (known_events s no) (catalog_of (st_states s))) (\<lambda>snapshot.
        result_bind (put_story g snapshot (head_seq s no) s) (\<lambda>s. Inr (snapshot, s))))"

text \<open>The transaction: the work runs with derivation on, and any error leaves the store as it was.\<close>

definition write_stories :: "Guards \<Rightarrow> (Store \<Rightarrow> ('a \<times> Store) result) \<Rightarrow> Store \<Rightarrow> 'a result \<times> Store" where
  "write_stories g f s =
     (case (if st_deriving s then Inl (Integrity (integrity_of_string (''block-edge derivation is already ''
              @ ''running in this transaction; a nested derivation would record the same transition twice'')))
            else result_bind (f (s\<lparr>st_deriving := True\<rparr>)) (\<lambda>(x, s').
              let s' = s'\<lparr>st_deriving := False\<rparr> in
              result_bind (if st_automations s then guard_derivation g s s' else Inr ()) (\<lambda>_. Inr (x, s')))) of
        Inl e \<Rightarrow> (Inl e, s)
      | Inr (x, s') \<Rightarrow> (Inr x, s'))"

section \<open>Resolving a story\<close>

definition closed_story_refusal :: "string \<Rightarrow> string" where
  "closed_story_refusal i =
     ''story `'' @ i @ ''` is closed; reopen it with `story reopen '' @ i @ ''` to change it '' @ em_dash
     @ '' a comment needs no reopen''"

definition resolve_story :: "string \<Rightarrow> Store \<Rightarrow> (int \<times> StoryRow) result" where
  "resolve_story i s =
     (let missing = NotFound (''story `'' @ i @ ''` not found'') in
      case parse_id (st_prefix s) i of
        Inl _ \<Rightarrow> Inl missing
      | Inr no \<Rightarrow> (case story_row s no of None \<Rightarrow> Inl missing | Some row \<Rightarrow> Inr (no, row)))"

definition resolve_open_story :: "string \<Rightarrow> Store \<Rightarrow> (int \<times> StoryRow) result" where
  "resolve_open_story i s =
     result_bind (resolve_story i s) (\<lambda>(no, row).
       if row_archived row then Inl (Validation (closed_story_refusal i)) else Inr (no, row))"

end
