(* ===== verification/Store_Invariant.thy ===== *)
theory Store_Invariant
  imports Story_Store
begin

text \<open>
  What every write through the store's one write path keeps.  The read model: each row is the fold of its
  story's log, at the log's head.  The relation table: exactly the edges some row claims, in both
  directions, between stories that exist.  The claims of the rows are a set of edges over story numbers;
  an append changes those of its own story as the relation events say.
\<close>

section \<open>Claims and their mirror\<close>

definition valid_no :: "int \<Rightarrow> bool" where
  "valid_no n \<longleftrightarrow> 1 \<le> n \<and> n < 2 ^ 63"

definition row_relations :: "Store \<Rightarrow> int \<Rightarrow> StoryRelation list" where
  "row_relations s a = (case story_row s a of None \<Rightarrow> [] | Some row \<Rightarrow> snap_relationships (row_snapshot row))"

definition claims :: "Store \<Rightarrow> (int \<times> string \<times> int) set" where
  "claims s = {(a, rel, b). StoryRelation rel (to_id b (st_prefix s)) \<in> set (row_relations s a) \<and> valid_no b}"

definition mirror :: "int \<times> string \<times> int \<Rightarrow> int \<times> string \<times> int" where
  "mirror e = (case e of (a, rel, b) \<Rightarrow> (b, the (inverse_relation rel), a))"

definition named :: "int \<times> string \<times> int \<Rightarrow> bool" where
  "named e \<longleftrightarrow> inverse_relation (fst (snd e)) \<noteq> None"

lemma inverse_relation_back: "inverse_relation rel = Some back \<Longrightarrow> inverse_relation back = Some rel"
  by (auto simp: inverse_relation_def split: if_splits)

lemma mirror_simp [simp]: "mirror (a, rel, b) = (b, the (inverse_relation rel), a)"
  by (simp add: mirror_def)

lemma mirror_named: "named e \<Longrightarrow> named (mirror e)"
  and mirror_mirror: "named e \<Longrightarrow> mirror (mirror e) = e"
proof -
  assume "named e"
  then obtain a rel b opp where e: "e = (a, rel, b)" "inverse_relation rel = Some opp"
    by (cases e) (auto simp: named_def)
  then show "named (mirror e)" "mirror (mirror e) = e"
    using inverse_relation_back [of rel opp] by (simp_all add: named_def)
qed

lemma parse_id_valid: "parse_id pre i = Inr n \<longleftrightarrow> i = to_id n pre \<and> valid_no n"
  by (simp add: parse_id_text valid_no_def)

lemma parse_story_id_valid: "valid_no n \<Longrightarrow> parse_story_id pre (to_id n pre) = Inr n"
  using parse_id_valid [of pre "to_id n pre" n] by (simp add: parse_story_id_def)

lemma to_id_inject: "valid_no a \<Longrightarrow> to_id a pre = to_id b pre \<Longrightarrow> valid_no b \<Longrightarrow> a = b"
  using parse_id_valid [of pre "to_id a pre"] by (metis Inr_inject)

section \<open>The invariants\<close>

definition row_ok :: "Store \<Rightarrow> int \<Rightarrow> StoryRow \<Rightarrow> bool" where
  "row_ok s no row \<longleftrightarrow>
     valid_no no \<and> row_no row = no \<and> row_head_seq row = head_seq s no
     \<and> row_archived row = (snap_closed_at (row_snapshot row) \<noteq> None)
     \<and> fold_story (to_id no (st_prefix s)) (known_events s no) (catalog_of (st_states s)) = Inr (row_snapshot row)"

definition read_model_ok :: "Store \<Rightarrow> bool" where
  "read_model_ok s \<longleftrightarrow>
     btm_ok (st_stories s)
     \<and> (\<forall>no row. story_row s no = Some row \<longrightarrow> row_ok s no row)
     \<and> (\<forall>no. story_row s no = None \<longrightarrow> stored_events s no = [])"

definition edge_ok :: "Store \<Rightarrow> int \<times> string \<times> int \<Rightarrow> bool" where
  "edge_ok s e \<longleftrightarrow> named e \<and> fst e \<noteq> snd (snd e) \<and> story_row s (snd (snd e)) \<noteq> None"

definition graph_ok :: "Store \<Rightarrow> bool" where
  "graph_ok s \<longleftrightarrow>
     bset_ok (st_relations s)
     \<and> (\<forall>a r. r \<in> set (row_relations s a) \<longrightarrow> (\<exists>b. valid_no b \<and> other_id r = to_id b (st_prefix s)))
     \<and> (\<forall>e. e \<in> claims s \<longrightarrow> edge_ok s e)
     \<and> set (st_relations s) = claims s \<union> mirror ` claims s"

section \<open>The relation table\<close>

definition edge_pair :: "int \<Rightarrow> string \<times> int \<Rightarrow> (int \<times> string \<times> int) set" where
  "edge_pair story e = {(story, fst e, snd e), mirror (story, fst e, snd e)}"

lemma delete_edge_fields [simp]:
  "st_stories (delete_edge story rel other s) = st_stories s" "st_events (delete_edge story rel other s) = st_events s"
  "st_prefix (delete_edge story rel other s) = st_prefix s" "st_states (delete_edge story rel other s) = st_states s"
  "st_deriving (delete_edge story rel other s) = st_deriving s" "st_automations (delete_edge story rel other s) = st_automations s"
  by (simp_all add: delete_edge_def)

lemma delete_edges_fields:
  "st_stories (fold (\<lambda>(rel, other). delete_edge story rel other) es s) = st_stories s"
  "st_events (fold (\<lambda>(rel, other). delete_edge story rel other) es s) = st_events s"
  "st_prefix (fold (\<lambda>(rel, other). delete_edge story rel other) es s) = st_prefix s"
  "st_states (fold (\<lambda>(rel, other). delete_edge story rel other) es s) = st_states s"
  "st_deriving (fold (\<lambda>(rel, other). delete_edge story rel other) es s) = st_deriving s"
  "st_automations (fold (\<lambda>(rel, other). delete_edge story rel other) es s) = st_automations s"
  by (induction es arbitrary: s) auto

lemma delete_edges_only:
  "fold (\<lambda>(rel, other). delete_edge story rel other) es s\<lparr>st_relations := T\<rparr> = s\<lparr>st_relations := T\<rparr>"
  by (induction es arbitrary: s) (auto simp: delete_edge_def)

lemma delete_edges_table:
  assumes "bset_ok (st_relations s)" and "\<And>rel other. (rel, other) \<in> set es \<Longrightarrow> inverse_relation rel \<noteq> None"
  shows "bset_ok (st_relations (fold (\<lambda>(rel, other). delete_edge story rel other) es s))
    \<and> set (st_relations (fold (\<lambda>(rel, other). delete_edge story rel other) es s))
        = set (st_relations s) - (\<Union>e \<in> set es. edge_pair story e)"
  using assms
proof (induction es arbitrary: s)
  case (Cons e es)
  obtain rel other where e: "e = (rel, other)" by (cases e)
  obtain opp where opp: "inverse_relation rel = Some opp" using Cons.prems(2) [of rel other] by (auto simp: e)
  have "bset_ok (st_relations (delete_edge story rel other s))"
    and "set (st_relations (delete_edge story rel other s)) = set (st_relations s) - edge_pair story e"
    using Cons.prems(1) opp by (auto simp: delete_edge_def Let_def bset.ok_del bset.set_del edge_pair_def e)
  then show ?case using Cons.IH [of "delete_edge story rel other s"] Cons.prems(2) by (auto simp: e)
qed simp

lemma insert_edge_table:
  assumes "insert_edge g story rel other s = Inr s'" and "bset_ok (st_relations s)"
  shows "bset_ok (st_relations s')" and "set (st_relations s') = set (st_relations s) \<union> edge_pair story (rel, other)"
    and "\<exists>T. s' = s\<lparr>st_relations := T\<rparr>"
    and "inverse_relation rel \<noteq> None" and "story \<noteq> other" and "story_row s other \<noteq> None"
  using assms by (auto simp: insert_edge_def edge_pair_def bset.ok_add split: option.splits if_splits)

lemma insert_edges_table:
  assumes "insert_edges g story es s = Inr s'" and "bset_ok (st_relations s)"
  shows "bset_ok (st_relations s') \<and> set (st_relations s') = set (st_relations s) \<union> (\<Union>e \<in> set es. edge_pair story e)
    \<and> (\<exists>T. s' = s\<lparr>st_relations := T\<rparr>)
    \<and> (\<forall>e \<in> set es. inverse_relation (fst e) \<noteq> None \<and> story \<noteq> snd e \<and> story_row s (snd e) \<noteq> None)"
  using assms
proof (induction es arbitrary: s)
  case (Cons e es)
  obtain rel other where e: "e = (rel, other)" by (cases e)
  obtain t where t: "insert_edge g story rel other s = Inr t" and rest: "insert_edges g story es t = Inr s'"
    using Cons.prems(1) by (auto simp: e result_bind_eq_Inr)
  note one = insert_edge_table [OF t Cons.prems(2)]
  obtain T where T: "t = s\<lparr>st_relations := T\<rparr>" using one(3) by blast
  then have "story_row t x = story_row s x" for x by (simp add: story_row_def)
  then show ?case using Cons.IH [OF rest one(1)] one(2,4-6) T unfolding e by auto
next
  case Nil
  then have "\<exists>T. s' = s\<lparr>st_relations := T\<rparr>" by (intro exI [of _ "st_relations s"]) simp
  then show ?case using Nil by simp
qed

lemma desired_edges_ok:
  assumes "desired_edges pre rs = Inr es"
  shows "(\<forall>r \<in> set rs. \<exists>b. valid_no b \<and> other_id r = to_id b pre)
    \<and> set es = {(rel, b). StoryRelation rel (to_id b pre) \<in> set rs \<and> valid_no b}"
  using assms
proof (induction rs arbitrary: es)
  case (Cons r rs)
  obtain b fs where b: "parse_id pre (other_id r) = Inr b" and fs: "desired_edges pre rs = Inr fs"
    and es: "es = (relation r, b) # fs"
    using Cons.prems by (auto simp: result_bind_eq_Inr parse_story_id_def split: sum.splits)
  have r: "other_id r = to_id b pre" "valid_no b" using b by (simp_all add: parse_id_valid)
  have "StoryRelation rel (to_id c pre) = r \<longleftrightarrow> rel = relation r \<and> c = b" if "valid_no c" for rel c
    using r to_id_inject that by (cases r) auto
  then show ?case using Cons.IH [OF fs] r unfolding es by auto
qed simp

text \<open>
  The reconciliation of one story's edges, on sets: remove what the story no longer claims and the other
  end does not claim either, add what it newly claims, both with their mirror.
\<close>

definition reconciled ::
  "int \<Rightarrow> (int \<times> string \<times> int) set \<Rightarrow> (int \<times> string \<times> int) set \<Rightarrow> (int \<times> string \<times> int) set" where
  "reconciled story T C =
     (T - (\<Union>e \<in> {e. (story, e) \<in> T \<and> (story, e) \<notin> C \<and> mirror (story, e) \<notin> C}. edge_pair story e))
     \<union> (\<Union>e \<in> {e. (story, e) \<in> C \<and> (story, e) \<notin> T}. edge_pair story e)"

lemma edge_pair_iff: "x \<in> edge_pair story e \<longleftrightarrow> x = (story, e) \<or> x = mirror (story, e)"
  by (cases e) (auto simp: edge_pair_def)

lemma mirror_ends: "fst (mirror x) = snd (snd x)" "snd (snd (mirror x)) = fst x"
  by (simp_all add: mirror_def split: prod.split)

lemma mirror_inject: "named x \<Longrightarrow> named y \<Longrightarrow> mirror x = mirror y \<Longrightarrow> x = y"
  using mirror_mirror by metis

lemma mirror_closed:
  assumes "\<And>e. e \<in> C \<Longrightarrow> named e \<and> fst e \<noteq> snd (snd e)" and "y \<in> C \<union> mirror ` C"
  shows "named y" and "fst y \<noteq> snd (snd y)" and "mirror y \<in> C \<union> mirror ` C" and "mirror (mirror y) = y"
proof -
  consider (own) "y \<in> C" | (opp) z where "z \<in> C" "y = mirror z" using assms(2) by blast
  then have "named y \<and> fst y \<noteq> snd (snd y) \<and> mirror y \<in> C \<union> mirror ` C"
  proof cases
    case own
    then show ?thesis using assms(1) [OF own] by simp
  next
    case opp
    then show ?thesis using assms(1) [OF opp(1)] mirror_named mirror_mirror by (simp add: mirror_ends)
  qed
  then show "named y" and "fst y \<noteq> snd (snd y)" and "mirror y \<in> C \<union> mirror ` C" and "mirror (mirror y) = y"
    using mirror_mirror by simp_all
qed

lemma mirror_closed_back:
  assumes "\<And>e. e \<in> C \<Longrightarrow> named e \<and> fst e \<noteq> snd (snd e)" and "named y" and "mirror y \<in> C"
  shows "y \<in> C \<union> mirror ` C"
  using assms mirror_mirror [of y] by (metis UnI2 imageI)

lemma reconciled_mem:
  "x \<in> reconciled story T C \<longleftrightarrow>
     x \<in> T \<and> (\<forall>e. x = (story, e) \<or> x = mirror (story, e) \<longrightarrow>
                 (story, e) \<in> T \<longrightarrow> (story, e) \<in> C \<or> mirror (story, e) \<in> C)
     \<or> (\<exists>e. (story, e) \<in> C \<and> (story, e) \<notin> T \<and> (x = (story, e) \<or> x = mirror (story, e)))"
  by (auto simp: reconciled_def edge_pair_iff)

lemma reconciled_sub:
  assumes old: "\<And>e. e \<in> C0 \<Longrightarrow> named e \<and> fst e \<noteq> snd (snd e)"
    and new: "\<And>e. e \<in> C \<Longrightarrow> named e \<and> fst e \<noteq> snd (snd e)"
    and same: "\<And>e. fst e \<noteq> story \<Longrightarrow> e \<in> C0 \<longleftrightarrow> e \<in> C"
    and x: "x \<in> reconciled story (C0 \<union> mirror ` C0) C"
  shows "x \<in> C \<union> mirror ` C"
proof -
  let ?T = "C0 \<union> mirror ` C0"
  consider (kept) "x \<in> ?T" "\<And>e. x = (story, e) \<or> x = mirror (story, e) \<Longrightarrow>
                 (story, e) \<in> ?T \<Longrightarrow> (story, e) \<in> C \<or> mirror (story, e) \<in> C"
    | (added) e where "(story, e) \<in> C" "x = (story, e) \<or> x = mirror (story, e)"
    using x unfolding reconciled_mem by blast
  then show ?thesis
  proof cases
    case kept
    then obtain y where y: "y \<in> C0" "x = y \<or> x = mirror y" by blast
    have named: "named y" using old y(1) by blast
    have "y \<in> C \<union> mirror ` C"
    proof (cases "fst y = story")
      case True
      then have split: "y = (story, snd y)" by (cases y) simp
      have "x = (story, snd y) \<or> x = mirror (story, snd y)" using y(2) split by simp
      then have "y \<in> C \<or> mirror y \<in> C" using kept(2) [of "snd y"] y(1) split by (metis UnI1)
      then show ?thesis using mirror_closed_back [OF new named] by blast
    qed (use same y(1) in blast)
    then show ?thesis using y(2) mirror_closed(3) [OF new] by blast
  qed blast
qed

lemma reconciled_sup:
  assumes old: "\<And>e. e \<in> C0 \<Longrightarrow> named e \<and> fst e \<noteq> snd (snd e)"
    and new: "\<And>e. e \<in> C \<Longrightarrow> named e \<and> fst e \<noteq> snd (snd e)"
    and same: "\<And>e. fst e \<noteq> story \<Longrightarrow> e \<in> C0 \<longleftrightarrow> e \<in> C"
    and y: "y \<in> C" "x = y \<or> x = mirror y"
  shows "x \<in> reconciled story (C0 \<union> mirror ` C0) C"
proof (cases "y \<in> C0 \<union> mirror ` C0")
  case True
  let ?T = "C0 \<union> mirror ` C0"
  have "(story, e) \<in> C \<or> mirror (story, e) \<in> C"
    if e: "x = (story, e) \<or> x = mirror (story, e)" and T: "(story, e) \<in> ?T" for e
  proof -
    have "mirror (mirror (story, e)) = (story, e)" using mirror_closed(4) [OF old T] by simp
    moreover have "mirror (mirror y) = y" using new [OF y(1)] mirror_mirror by simp
    ultimately have "y = (story, e) \<or> y = mirror (story, e)" using e y(2) by metis
    then show ?thesis using y(1) by blast
  qed
  moreover have "x \<in> ?T" using y(2) True mirror_closed(3) [OF old True] by blast
  ultimately show ?thesis unfolding reconciled_mem by blast
next
  case False
  then have "fst y = story" using same y(1) by blast
  then have "y = (story, snd y)" by (cases y) simp
  then show ?thesis unfolding reconciled_mem using False y by metis
qed

lemma reconciled_claims:
  assumes "\<And>e. e \<in> C0 \<Longrightarrow> named e \<and> fst e \<noteq> snd (snd e)"
    and "\<And>e. e \<in> C \<Longrightarrow> named e \<and> fst e \<noteq> snd (snd e)"
    and "\<And>e. fst e \<noteq> story \<Longrightarrow> e \<in> C0 \<longleftrightarrow> e \<in> C"
  shows "reconciled story (C0 \<union> mirror ` C0) C = C \<union> mirror ` C"
  using reconciled_sub [OF assms] reconciled_sup [OF assms] by (intro equalityI subsetI) blast+

section \<open>What one append writes\<close>

definition same_project :: "Store \<Rightarrow> Store \<Rightarrow> bool" where
  "same_project s s' \<longleftrightarrow>
     st_project s' = st_project s \<and> st_slug s' = st_slug s \<and> st_prefix s' = st_prefix s \<and> st_states s' = st_states s
     \<and> st_types s' = st_types s \<and> st_next_no s' = st_next_no s
     \<and> st_automations s' = st_automations s \<and> st_deriving s' = st_deriving s"

fun rel_step :: "StoryRelation set \<Rightarrow> StoryEvent \<Rightarrow> StoryRelation set" where
  "rel_step R (StoryRelationshipAdded _ other rel) = insert (StoryRelation rel other) R"
| "rel_step R (StoryRelationshipRemoved _ other rel) = R - {StoryRelation rel other}"
| "rel_step R _ = R"

lemma relation_claimed:
  assumes "valid_no story" and "inverse_relation rel \<noteq> None"
  shows "claimed_by_other_end s story rel other \<longleftrightarrow> mirror (story, rel, other) \<in> claims s"
proof -
  obtain opp where opp: "inverse_relation rel = Some opp" using assms(2) by blast
  have "(\<exists>c \<in> set rs. relation c = opp \<and> parse_id pre (other_id c) = Inr story)
      \<longleftrightarrow> StoryRelation opp (to_id story pre) \<in> set rs" for rs pre
    using assms(1) by (auto simp: parse_id_valid StoryRelation.expand intro: bexI [of _ "StoryRelation opp (to_id story pre)"])
      (metis StoryRelation.collapse)
  then show ?thesis
    using assms(1) by (simp add: claimed_by_other_end_def opp claims_def row_relations_def list_ex_iff split: option.split)
qed

lemma put_relations_effect:
  assumes put: "put_relations g story snapshot s = Inr s'" and ok: "bset_ok (st_relations s)"
    and table: "\<And>e. e \<in> set (st_relations s) \<Longrightarrow> named e" and story: "valid_no story"
    and row: "row_relations s story = snap_relationships snapshot"
  obtains T where "s' = s\<lparr>st_relations := T\<rparr>" and "bset_ok T"
    and "set T = reconciled story (set (st_relations s)) (claims s)"
    and "\<And>r. r \<in> set (snap_relationships snapshot) \<Longrightarrow> \<exists>b. valid_no b \<and> other_id r = to_id b (st_prefix s)"
    and "\<And>e. (story, e) \<in> claims s \<Longrightarrow> (story, e) \<notin> set (st_relations s) \<Longrightarrow> edge_ok s (story, e)"
proof -
  obtain es where es: "desired_edges (st_prefix s) (snap_relationships snapshot) = Inr es"
    using put by (auto simp: put_relations_def result_bind_eq_Inr)
  let ?stale = "filter (\<lambda>(rel, other). \<not> claimed_by_other_end s story rel other)
      (filter (\<lambda>e. e \<notin> set (bset_collect es)) (relations_from s story))"
  let ?added = "filter (\<lambda>e. e \<notin> set (relations_from s story)) (bset_collect es)"
  let ?mid = "fold (\<lambda>(rel, other). delete_edge story rel other) ?stale s"
  have desired: "e \<in> set es \<longleftrightarrow> (story, e) \<in> claims s" for e
    using desired_edges_ok [OF es] row by (cases e) (simp add: claims_def)
  have existing: "e \<in> set (relations_from s story) \<longleftrightarrow> (story, e) \<in> set (st_relations s)" for e
    by (force simp: relations_from_def)
  have inv_known: "inverse_relation (fst e) \<noteq> None" if "(story, e) \<in> set (st_relations s)" for e
    using table [OF that] by (simp add: named_def)
  have stale: "set ?stale = {e. (story, e) \<in> set (st_relations s) \<and> (story, e) \<notin> claims s \<and> mirror (story, e) \<notin> claims s}"
    using relation_claimed [OF story] inv_known by (auto simp: existing desired)
  have added: "set ?added = {e. (story, e) \<in> claims s \<and> (story, e) \<notin> set (st_relations s)}"
    by (auto simp: existing desired)
  have "inverse_relation rel \<noteq> None" if "(rel, other) \<in> set ?stale" for rel other
    using that inv_known [of "(rel, other)"] by (simp add: existing)
  then have del: "bset_ok (st_relations ?mid)"
      "set (st_relations ?mid) = set (st_relations s) - (\<Union>e \<in> set ?stale. edge_pair story e)"
    using delete_edges_table [OF ok, of ?stale story] by blast+
  have "insert_edges g story ?added ?mid = Inr s'"
    using put by (simp add: put_relations_def es Let_def)
  note ins = insert_edges_table [OF this del(1)]
  obtain T where T: "s' = ?mid\<lparr>st_relations := T\<rparr>" using ins by blast
  show thesis
  proof
    show "s' = s\<lparr>st_relations := T\<rparr>" unfolding T by (rule delete_edges_only)
    show "bset_ok T" using ins T by simp
    show "set T = reconciled story (set (st_relations s)) (claims s)"
      using ins T del(2) unfolding reconciled_def stale [symmetric] added [symmetric] by simp
    show "\<exists>b. valid_no b \<and> other_id r = to_id b (st_prefix s)" if "r \<in> set (snap_relationships snapshot)" for r
      using desired_edges_ok [OF es] that by blast
    show "edge_ok s (story, e)" if "(story, e) \<in> claims s" "(story, e) \<notin> set (st_relations s)" for e
    proof -
      have "e \<in> set ?added" using added that by blast
      then have "inverse_relation (fst e) \<noteq> None \<and> story \<noteq> snd e \<and> story_row ?mid (snd e) \<noteq> None" using ins by blast
      then show ?thesis by (simp add: edge_ok_def named_def story_row_def delete_edges_fields)
    qed
  qed
qed

definition row_of :: "int \<Rightarrow> int \<Rightarrow> StorySnapshot \<Rightarrow> StoryRow" where
  "row_of no head snapshot =
     \<lparr>row_no = no, row_head_seq = head, row_archived = (snap_closed_at snapshot \<noteq> None), row_snapshot = snapshot\<rparr>"

definition with_row :: "int \<Rightarrow> StoryRow \<Rightarrow> Store \<Rightarrow> Store" where
  "with_row no row s = s\<lparr>st_stories := btm_insert no row (st_stories s)\<rparr>"

lemma with_row_simps [simp]:
  "st_relations (with_row no row s) = st_relations s" "st_prefix (with_row no row s) = st_prefix s"
  "st_events (with_row no row s) = st_events s" "st_states (with_row no row s) = st_states s"
  "story_row (with_row no row s) a = (if a = no then Some row else story_row s a)"
  "row_relations (with_row no row s) a = (if a = no then snap_relationships (row_snapshot row) else row_relations s a)"
  "row_snapshot (row_of no head snapshot) = snapshot"
  by (simp_all add: with_row_def story_row_def row_relations_def row_of_def)

lemma claims_with_row: "fst e \<noteq> no \<Longrightarrow> e \<in> claims (with_row no row s) \<longleftrightarrow> e \<in> claims s"
  by (cases e) (simp add: claims_def)

lemma claims_row: "(a, e) \<in> claims s \<Longrightarrow> story_row s a \<noteq> None"
  by (cases e; cases "story_row s a") (auto simp: claims_def row_relations_def)

lemma edge_ok_with_row: "edge_ok s e \<Longrightarrow> edge_ok (with_row no row s) e"
  by (simp add: edge_ok_def)

lemma table_edge_ok:
  assumes "graph_ok s" and "e \<in> set (st_relations s)"
  shows "edge_ok s e"
proof -
  have claims: "\<And>c. c \<in> claims s \<Longrightarrow> edge_ok s c" using assms(1) unfolding graph_ok_def by blast
  consider "e \<in> claims s" | c where "c \<in> claims s" "e = mirror c" using assms unfolding graph_ok_def by blast
  then show ?thesis
  proof cases
    case 2
    then have "edge_ok s c" and "story_row s (fst c) \<noteq> None"
      using claims claims_row [of "fst c" "snd c" s] by simp_all
    then show ?thesis using mirror_named by (auto simp: edge_ok_def 2(2) mirror_ends)
  qed (use claims in blast)
qed

lemma put_story_effect:
  assumes put: "put_story g snapshot head s = Inr s'" and graph: "graph_ok s"
    and story: "snap_id snapshot = to_id no (st_prefix s)" "valid_no no"
  obtains T where "s' = (with_row no (row_of no head snapshot) s)\<lparr>st_relations := T\<rparr>" and "graph_ok s'"
proof -
  let ?s = "with_row no (row_of no head snapshot) s"
  have table: "set (st_relations s) = claims s \<union> mirror ` claims s" and sorted: "bset_ok (st_relations s)"
    and old: "\<And>e. e \<in> claims s \<Longrightarrow> edge_ok s e"
    and targets: "\<And>a r. r \<in> set (row_relations s a) \<Longrightarrow> \<exists>b. valid_no b \<and> other_id r = to_id b (st_prefix s)"
    using graph unfolding graph_ok_def by blast+
  have "put_relations g no snapshot ?s = Inr s'"
    using put by (simp add: put_story_def parse_story_id_valid story with_row_def row_of_def)
  then obtain T where T: "s' = ?s\<lparr>st_relations := T\<rparr>" "bset_ok T"
      "set T = reconciled no (set (st_relations ?s)) (claims ?s)"
    and r: "\<And>r. r \<in> set (snap_relationships snapshot) \<Longrightarrow> \<exists>b. valid_no b \<and> other_id r = to_id b (st_prefix ?s)"
    and added: "\<And>e. (no, e) \<in> claims ?s \<Longrightarrow> (no, e) \<notin> set (st_relations ?s) \<Longrightarrow> edge_ok ?s (no, e)"
    using put_relations_effect [of g no snapshot ?s s'] sorted table_edge_ok [OF graph] story(2)
    by (auto simp: edge_ok_def)
  have new: "edge_ok ?s e" if e: "e \<in> claims ?s" for e
  proof (cases "fst e = no")
    case True
    then have split: "e = (no, snd e)" by (cases e) simp
    show ?thesis
    proof (cases "e \<in> set (st_relations s)")
      case True
      then show ?thesis using table_edge_ok [OF graph] edge_ok_with_row by blast
    next
      case False
      then show ?thesis using added [of "snd e"] e split by simp
    qed
  next
    case False
    then show ?thesis using old e claims_with_row edge_ok_with_row by blast
  qed
  have ends: "named e \<and> fst e \<noteq> snd (snd e)" if "edge_ok u e" for u e using that by (simp add: edge_ok_def)
  have "set T = claims ?s \<union> mirror ` claims ?s"
    unfolding T(3) with_row_simps(1) table
    using ends [OF old] ends [OF new] claims_with_row [of _ no _ s] by (intro reconciled_claims) blast+
  moreover have "claims s' = claims ?s" "row_relations s' = row_relations ?s" "edge_ok s' = edge_ok ?s"
    unfolding T(1) by (simp_all add: claims_def row_relations_def edge_ok_def story_row_def fun_eq_iff)
  ultimately have "graph_ok s'"
    using T(1,2) new r targets by (auto simp: graph_ok_def)
  then show thesis using that T(1) by blast
qed

definition store_ok :: "Store \<Rightarrow> bool" where
  "store_ok s \<longleftrightarrow> read_model_ok s \<and> graph_ok s"

definition with_log :: "int \<Rightarrow> StoryEvent list \<Rightarrow> Store \<Rightarrow> Store" where
  "with_log no es s = s\<lparr>st_events := btm_insert no (stored_events s no @ map Known es) (st_events s)\<rparr>"

lemma with_log_simps [simp]:
  "st_relations (with_log no es s) = st_relations s" "st_prefix (with_log no es s) = st_prefix s"
  "st_stories (with_log no es s) = st_stories s" "st_states (with_log no es s) = st_states s"
  "st_project (with_log no es s) = st_project s" "st_slug (with_log no es s) = st_slug s" "st_types (with_log no es s) = st_types s"
  "st_next_no (with_log no es s) = st_next_no s" "st_automations (with_log no es s) = st_automations s"
  "st_deriving (with_log no es s) = st_deriving s"
  "story_row (with_log no es s) = story_row s" "row_relations (with_log no es s) = row_relations s"
  "claims (with_log no es s) = claims s" "edge_ok (with_log no es s) = edge_ok s"
  "stored_events (with_log no es s) a = stored_events s a @ (if a = no then map Known es else [])"
  by (simp_all add: with_log_def story_row_def row_relations_def fun_eq_iff claims_def edge_ok_def stored_events_def)

lemma graph_ok_with_log [simp]: "graph_ok (with_log no es s) \<longleftrightarrow> graph_ok s"
  by (simp add: graph_ok_def)

lemma known_append: "fst (partition_known (ps @ map Known es)) = fst (partition_known ps) @ es"
  by (induction ps) (auto simp: partition_known_def List.map_filter_def comp_def split: StoredPayload.splits)

lemma append_events_effect:
  "append_events g no expected es s = Inr (head, s') \<Longrightarrow>
     head = head_seq s no + int (length es) \<and> s' = with_log no es s
     \<and> (case expected of AnySeq \<Rightarrow> True | Exact required \<Rightarrow> required = head_seq s no)"
  by (auto simp: append_events_def result_bind_eq_Inr with_log_def Let_def split: ExpectedSeq.splits if_splits)

lemma rel_step_event:
  "bset_ok (f_relationships f) \<Longrightarrow> set (f_relationships (apply_event states f e)) = rel_step (set (f_relationships f)) e"
  by (cases e) (auto simp: fold_handler_defs bset.set_del Let_def split: option.splits)

lemma fold_ok_relations: "fold_ok f \<Longrightarrow> bset_ok (f_relationships f)"
  by (simp add: fold_ok_def)

lemma rel_step_events:
  "fold_ok f \<Longrightarrow> set (f_relationships (foldl (apply_event states) f es)) = foldl rel_step (set (f_relationships f)) es"
  by (induction es arbitrary: f) (simp_all add: fold_ok_step rel_step_event fold_ok_relations)

lemma row_relations_log:
  assumes "read_model_ok s"
  shows "row_relations s no = f_relationships (replay (catalog_of (st_states s)) (known_events s no))"
proof (cases "story_row s no")
  case None
  then have "stored_events s no = []" using assms by (simp add: read_model_ok_def)
  then show ?thesis using None by (simp add: row_relations_def partition_known_def replay_def fold_init_def)
next
  case (Some row)
  then have "row_ok s no row" using assms by (simp add: read_model_ok_def)
  then have "fold_story (to_id no (st_prefix s)) (known_events s no) (catalog_of (st_states s)) = Inr (row_snapshot row)"
    by (simp add: row_ok_def)
  then show ?thesis using Some fold_story_fields(9) by (simp add: row_relations_def)
qed

definition appended :: "int \<Rightarrow> StoryEvent list \<Rightarrow> Store \<Rightarrow> StorySnapshot \<Rightarrow> Store \<Rightarrow> bool" where
  "appended no es s snapshot s' \<longleftrightarrow>
     store_ok s' \<and> same_project s s'
     \<and> story_row s' no = Some (row_of no (head_seq s no + int (length es)) snapshot)
     \<and> (\<forall>a. a \<noteq> no \<longrightarrow> story_row s' a = story_row s a)
     \<and> (\<forall>a. stored_events s' a = stored_events s a @ (if a = no then map Known es else []))
     \<and> set (snap_relationships snapshot) = foldl rel_step (set (row_relations s no)) es"

lemma written_story:
  assumes ok: "read_model_ok s" and graph: "graph_ok s" and no: "valid_no no"
    and folded: "fold_story (to_id no (st_prefix s)) (known_events s no @ es) (catalog_of (st_states s)) = Inr snapshot"
    and put: "put_story g snapshot (head_seq s no + int (length es)) (with_log no es s) = Inr s'"
  shows "appended no es s snapshot s'"
proof -
  let ?head = "head_seq s no + int (length es)"
  have "snap_id snapshot = to_id no (st_prefix (with_log no es s))" using fold_story_fields(1) [OF folded] by simp
  then obtain T where s': "s' = (with_row no (row_of no ?head snapshot) (with_log no es s))\<lparr>st_relations := T\<rparr>" and "graph_ok s'"
    using put_story_effect [OF put _ _ no] graph by auto
  have rows: "story_row s' a = (if a = no then Some (row_of no ?head snapshot) else story_row s a)" for a
    by (simp add: s' story_row_def with_row_def)
  have logs: "stored_events s' a = stored_events s a @ (if a = no then map Known es else [])" for a
    using with_log_simps(15) [of no es s a] by (simp add: s' with_row_def stored_events_def)
  have same: "same_project s s'" by (simp add: same_project_def s' with_row_def)
  have "row_ok s' a row" if "story_row s' a = Some row" for a row
  proof (cases "a = no")
    case True
    then show ?thesis using that folded no same
      by (auto simp: rows row_ok_def row_of_def head_seq_def logs known_append same_project_def)
  next
    case False
    then have "row_ok s a row" using that ok by (simp add: rows read_model_ok_def)
    then show ?thesis using False same by (simp add: row_ok_def head_seq_def logs same_project_def)
  qed
  moreover have "stored_events s' a = []" if "story_row s' a = None" for a
    using that ok by (auto simp: rows logs read_model_ok_def split: if_splits)
  moreover have "btm_ok (st_stories s')"
    using ok by (simp add: s' with_row_def read_model_ok_def btm_ok_insert)
  ultimately have "store_ok s'" using \<open>graph_ok s'\<close> by (simp add: store_ok_def read_model_ok_def)
  moreover have "set (snap_relationships snapshot) = foldl rel_step (set (row_relations s no)) es"
    by (simp add: fold_story_fields(9) [OF folded] row_relations_log [OF ok] replay_append rel_step_events replay_ok)
  ultimately show ?thesis using rows same logs by (simp add: appended_def)
qed

lemma maintenance_effect:
  assumes "append_and_fold_maintenance g no expected es s = Inr (snapshot, s')" and "store_ok s" and "valid_no no"
  shows "appended no es s snapshot s'"
    and "case expected of AnySeq \<Rightarrow> True | Exact required \<Rightarrow> required = head_seq s no"
proof -
  obtain head u where u: "append_events g no expected es s = Inr (head, u)"
    and folded: "fold_story (to_id no (st_prefix u)) (known_events u no) (catalog_of (st_states u)) = Inr snapshot"
    and put: "put_story g snapshot head u = Inr s'"
    using assms(1) by (auto simp: append_and_fold_maintenance_def result_bind_eq_Inr)
  note log = append_events_effect [OF u]
  have "fold_story (to_id no (st_prefix s)) (known_events s no @ es) (catalog_of (st_states s)) = Inr snapshot"
    using folded log by (simp add: known_append)
  then show "appended no es s snapshot s'"
    using written_story put log assms(2,3) by (simp add: store_ok_def)
  show "case expected of AnySeq \<Rightarrow> True | Exact required \<Rightarrow> required = head_seq s no" using log by blast
qed

lemma append_effect:
  assumes "append_and_fold g no expected es s = Inr (snapshot, s')" and "store_ok s" and "valid_no no"
  shows "appended no es s snapshot s'" and "case expected of AnySeq \<Rightarrow> True | Exact required \<Rightarrow> required = head_seq s no"
  using assms(1) maintenance_effect [OF _ assms(2,3)] by (auto simp: append_and_fold_def result_bind_eq_Inr)

lemma deriving_store [simp]:
  "story_row (s\<lparr>st_deriving := d\<rparr>) = story_row s" "stored_events (s\<lparr>st_deriving := d\<rparr>) = stored_events s"
  "store_story_map (s\<lparr>st_deriving := d\<rparr>) = store_story_map s"
  by (simp_all add: story_row_def stored_events_def fun_eq_iff store_story_map_def story_rows_def)

lemma deriving_claims [simp]: "claims (s\<lparr>st_deriving := d\<rparr>) = claims s" "row_relations (s\<lparr>st_deriving := d\<rparr>) = row_relations s"
  by (simp_all add: claims_def row_relations_def fun_eq_iff)

lemma deriving_ok [simp]: "store_ok (s\<lparr>st_deriving := d\<rparr>) \<longleftrightarrow> store_ok s"
  by (simp add: store_ok_def read_model_ok_def row_ok_def head_seq_def graph_ok_def edge_ok_def)

section \<open>Refolding\<close>

lemma desired_edges_total:
  assumes "\<And>r. r \<in> set rs \<Longrightarrow> \<exists>b. valid_no b \<and> other_id r = to_id b pre"
  shows "\<exists>es. desired_edges pre rs = Inr es"
  using assms
proof (induction rs)
  case (Cons r rs)
  obtain es where es: "desired_edges pre rs = Inr es" using Cons by auto
  obtain b where "valid_no b" "other_id r = to_id b pre" using Cons.prems [of r] by auto
  then have "parse_story_id pre (other_id r) = Inr b" by (simp add: parse_story_id_valid)
  then show ?case by (simp add: es)
qed simp

lemma put_relations_settled:
  assumes graph: "graph_ok s" and row: "story_row s no = Some row" "valid_no no"
  shows "put_relations g no (row_snapshot row) s = Inr s"
proof -
  have table: "set (st_relations s) = claims s \<union> mirror ` claims s"
    and claims: "\<And>e. e \<in> claims s \<Longrightarrow> edge_ok s e"
    and targets: "\<And>r. r \<in> set (row_relations s no) \<Longrightarrow> \<exists>b. valid_no b \<and> other_id r = to_id b (st_prefix s)"
    using graph unfolding graph_ok_def by blast+
  have rs: "row_relations s no = snap_relationships (row_snapshot row)" by (simp add: row_relations_def row)
  obtain es where es: "desired_edges (st_prefix s) (snap_relationships (row_snapshot row)) = Inr es"
    using desired_edges_total targets unfolding rs by metis
  have desired: "e \<in> set es \<longleftrightarrow> (no, e) \<in> claims s" for e
    using desired_edges_ok [OF es] by (cases e) (simp add: claims_def rs)
  have existing: "e \<in> set (relations_from s no) \<longleftrightarrow> (no, e) \<in> set (st_relations s)" for e
    by (force simp: relations_from_def)
  have "claimed_by_other_end s no (fst e) (snd e)" if e: "(no, e) \<in> set (st_relations s)" "(no, e) \<notin> claims s" for e
  proof -
    obtain c where c: "c \<in> claims s" "(no, e) = mirror c" using e table by blast
    then have "mirror (no, e) = c" and "named (no, e)"
      using claims [OF c(1)] mirror_mirror mirror_named by (simp_all add: edge_ok_def)
    then show ?thesis using relation_claimed [OF row(2), of "fst e" s "snd e"] c(1) by (simp add: named_def)
  qed
  then have "filter (\<lambda>(rel, other). \<not> claimed_by_other_end s no rel other)
      (filter (\<lambda>e. e \<notin> set (bset_collect es)) (relations_from s no)) = []"
    using existing desired by (fastforce simp: filter_empty_conv)
  moreover have "filter (\<lambda>e. e \<notin> set (relations_from s no)) (bset_collect es) = []"
    using existing desired table by (simp add: filter_empty_conv)
  ultimately show ?thesis by (simp add: put_relations_def es Let_def)
qed

lemma btm_insert_same: "btm_ok m \<Longrightarrow> btm_get m k = Some v \<Longrightarrow> btm_insert k v m = m"
proof (induction m)
  case (Cons e m)
  obtain k' v' where e: "e = (k', v')" by (cases e)
  have "k' < k" if "k \<noteq> k'"
  proof -
    have "(k, v) \<in> set m" using Cons.prems(2) that by (auto simp: btm_get_def e dest: map_of_SomeD)
    then show ?thesis using Cons.prems(1) by (force simp: btm_ok_def e)
  qed
  then show ?case using Cons by (cases "k = k'") (auto simp: btm_ok_def btm_get_def e)
qed (simp add: btm_get_def)

lemma refold_settled:
  assumes ok: "store_ok s" and deriving: "st_deriving s" and row: "story_row s no = Some row"
  shows "refold_story g no s = Inr (row_snapshot row, s)"
proof -
  have good: "row_ok s no row" and sorted: "btm_ok (st_stories s)" and graph: "graph_ok s"
    using ok row by (auto simp: store_ok_def read_model_ok_def)
  then have folded: "fold_story (to_id no (st_prefix s)) (known_events s no) (catalog_of (st_states s)) = Inr (row_snapshot row)"
    and no: "valid_no no" by (simp_all add: row_ok_def)
  have "row_of no (head_seq s no) (row_snapshot row) = row" using good by (simp add: row_ok_def row_of_def)
  then have "with_row no (row_of no (head_seq s no) (row_snapshot row)) s = s"
    using btm_insert_same [OF sorted] row by (simp add: with_row_def story_row_def)
  moreover have "snap_id (row_snapshot row) = to_id no (st_prefix s)" by (rule fold_story_fields(1) [OF folded])
  moreover have "parse_story_id (st_prefix s) (to_id no (st_prefix s)) = Inr no"
    by (rule parse_story_id_valid [OF no])
  ultimately have "put_story g (row_snapshot row) (head_seq s no) s = Inr s"
    using put_relations_settled [OF graph row no] by (simp add: put_story_def with_row_def row_of_def)
  then show ?thesis using deriving folded by (simp add: refold_story_def)
qed

section \<open>A small store, evaluated\<close>

definition sample_guards :: Guards where
  "sample_guards =
     \<lparr>guard_append = (\<lambda>_ _. Inr ()), guard_story_reset = (\<lambda>_. Inr ()), guard_engine_reset = (\<lambda>_. Inr ()),
      guard_completion = (\<lambda>_ _. Inr ()), guard_derivation = (\<lambda>_ _. Inr ()), guard_reserved = (\<lambda>_. Inr ()),
      guard_deletion = (\<lambda>_. Inr ()), guard_certified = (\<lambda>_ _. Inr False), guard_resets = (\<lambda>_. Inr False),
      guard_disabling = False, guard_lease = Inr None, guard_flush = (\<lambda>_. (None, Inr ())), guard_json = (\<lambda>_. Inl []), guard_lower = (\<lambda>t. t),
      guard_debug = (\<lambda>_. []), guard_constraint = Storage\<rparr>"

definition sample_story :: "string \<Rightarrow> StorySnapshot" where
  "sample_story i =
     (bare_story i [])\<lparr>snap_title := ''Ship it'', snap_created_at := ''t1'', snap_updated_at := ''t1'', snap_state := ''todo''\<rparr>"

definition sample_created :: "StoredPayload list" where
  "sample_created = [Known (StoryCreated ''t1'' ''Ship it'' ''todo'')]"

definition sample_store :: Store where
  "sample_store =
     \<lparr>st_project = 1, st_slug = ''storyhook'', st_prefix = ''SH'', st_states = sample_states,
      st_types = [\<lparr>td_slug = ''task'', td_description = None, td_emoji = None\<rparr>,
        \<lparr>td_slug = ''epic'', td_description = None, td_emoji = None\<rparr>], st_next_no = 3, st_automations = True, st_deriving = False,
      st_events = [(1, sample_created), (2, sample_created)],
      st_stories = [(1, row_of 1 1 (sample_story ''SH-1'')), (2, row_of 2 1 (sample_story ''SH-2''))],
      st_relations = []\<rparr>"

lemma sample_rows:
  "story_row sample_store no = (if no = 1 then Some (row_of 1 1 (sample_story ''SH-1''))
     else if no = 2 then Some (row_of 2 1 (sample_story ''SH-2'')) else None)"
  "stored_events sample_store no = (if no = 1 \<or> no = 2 then sample_created else [])"
  by (simp_all add: story_row_def stored_events_def sample_store_def btm_get_def)

lemma sample_folds:
  "fold_story ''SH-1'' [StoryCreated ''t1'' ''Ship it'' ''todo''] (catalog_of sample_states) = Inr (sample_story ''SH-1'')"
  "fold_story ''SH-2'' [StoryCreated ''t1'' ''Ship it'' ''todo''] (catalog_of sample_states) = Inr (sample_story ''SH-2'')"
  by code_simp+

lemma sample_ids: "to_id 1 ''SH'' = ''SH-1''" "to_id 2 ''SH'' = ''SH-2''"
  by code_simp+

lemma sample_relations: "row_relations sample_store no = []"
  by (simp add: row_relations_def sample_rows sample_story_def bare_story_def)

lemma sample_read_model: "read_model_ok sample_store"
proof -
  have known: "fst (partition_known sample_created) = [StoryCreated ''t1'' ''Ship it'' ''todo'']" by code_simp
  have "btm_ok (st_stories sample_store)" by (simp add: sample_store_def btm_ok_def)
  moreover have "row_ok sample_store 1 (row_of 1 1 (sample_story ''SH-1''))" "row_ok sample_store 2 (row_of 2 1 (sample_story ''SH-2''))"
    by (simp_all add: row_ok_def row_of_def valid_no_def head_seq_def sample_rows known)
      (simp_all add: sample_store_def sample_ids sample_folds sample_created_def)
  ultimately show ?thesis by (auto simp: read_model_ok_def sample_rows split: if_splits)
qed

lemma sample_store_ok: "store_ok sample_store"
  using sample_read_model by (simp add: store_ok_def graph_ok_def claims_def sample_relations)
    (simp add: sample_store_def bset_ok_def)


definition sample_write :: "StorySnapshot \<times> Store" where
  "sample_write =
     (case append_and_fold sample_guards 1 (Exact 1) [StoryPrioritySet ''t2'' High] sample_store of
        Inr r \<Rightarrow> r | Inl _ \<Rightarrow> (sample_story [], sample_store))"

lemma sample_write_ok:
  "append_and_fold sample_guards 1 (Exact 1) [StoryPrioritySet ''t2'' High] sample_store = Inr (fst sample_write, snd sample_write)"
proof -
  have "is_ok (append_and_fold sample_guards 1 (Exact 1) [StoryPrioritySet ''t2'' High] sample_store)" by code_simp
  then show ?thesis unfolding is_ok_iff sample_write_def by auto
qed

lemma valid_one: "valid_no 1" "valid_no 2"
  by (simp_all add: valid_no_def)

section \<open>The contract of the write path\<close>

text \<open>
  C5. The write path keeps the store consistent: an accepted append leaves every row the fold of its log
  at the log's head and the relation table exactly the claimed edges in both directions; it appends the
  events to that story's log and changes no other log and no other row.
\<close>

theorem write_path_keeps_store:
  assumes "append_and_fold g no expected es s = Inr (snapshot, s')" and "store_ok s" and "valid_no no"
  shows "store_ok s' \<and> stored_events s' no = stored_events s no @ map Known es
    \<and> story_row s' no = Some (row_of no (head_seq s no + int (length es)) snapshot)
    \<and> (\<forall>a. a = no \<or> stored_events s' a = stored_events s a \<and> story_row s' a = story_row s a)"
  using append_effect(1) [OF assms] by (auto simp: appended_def)

theorem write_path_keeps_store_witness:
  "store_ok (snd sample_write) \<and> stored_events (snd sample_write) 1 = sample_created @ [Known (StoryPrioritySet ''t2'' High)]
    \<and> story_row (snd sample_write) 2 = Some (row_of 2 1 (sample_story ''SH-2''))"
  using write_path_keeps_store [OF sample_write_ok sample_store_ok valid_one(1)]
  by (auto simp: sample_rows dest: spec [of _ 2])



text \<open>
  Refolding a story of a consistent store changes nothing: the replayed log gives the row that is
  there, the reconciliation of its edges finds nothing to delete and nothing to insert, and no constraint
  is hit.
\<close>

theorem refold_is_identity:
  "store_ok s \<Longrightarrow> st_deriving s \<Longrightarrow> story_row s no = Some row \<Longrightarrow> refold_story g no s = Inr (row_snapshot row, s)"
  by (rule refold_settled)

theorem refold_is_identity_witness:
  "refold_story sample_guards 1 (sample_store\<lparr>st_deriving := True\<rparr>) =
     Inr (sample_story ''SH-1'', sample_store\<lparr>st_deriving := True\<rparr>)"
proof -
  let ?s = "sample_store\<lparr>st_deriving := True\<rparr>"
  have "store_ok ?s" using sample_store_ok by simp
  moreover have "story_row ?s 1 = Some (row_of 1 1 (sample_story ''SH-1''))" by (simp add: sample_rows)
  ultimately show ?thesis using refold_is_identity [of ?s 1 _ sample_guards] by simp
qed

end
