(* ===== verification/Relation_Service.thy ===== *)
theory Relation_Service
  imports Store_Invariant
begin

text \<open>
  Relations between stories, written from both ends or from neither (\<^verbatim>\<open>src/src/service/relation.rs\<close>): the
  service that adds and removes one relation, the one that records and removes a batch of blockers, and the
  retraction of a closed blocker's edges.  Each operation is a transaction of \<^const>\<open>write_stories\<close>; the
  clock is an argument and the hooks fired after the commit are left out, as they do not touch the store.
\<close>

section \<open>The operations\<close>

datatype RelationOutcome = Changed StorySnapshot | Unchanged bool

record ResolvedBlocker =
  rb_id :: string
  rb_no :: int
  rb_row :: StoryRow

definition has_relation :: "StorySnapshot \<Rightarrow> string \<Rightarrow> string \<Rightarrow> bool" where
  "has_relation story rel other =
     list_ex (\<lambda>candidate. relation candidate = rel \<and> other_id candidate = other) (snap_relationships story)"

definition adds_child :: "StoryEvent \<Rightarrow> bool" where
  "adds_child e \<longleftrightarrow> (case e of StoryRelationshipAdded _ _ rel \<Rightarrow> rel = ''parent-of'' | _ \<Rightarrow> False)"

definition removes_child :: "StoryEvent \<Rightarrow> bool" where
  "removes_child e \<longleftrightarrow> (case e of StoryRelationshipRemoved _ _ rel \<Rightarrow> rel = ''parent-of'' | _ \<Rightarrow> False)"

definition gains_first_child :: "StorySnapshot \<Rightarrow> StoryEvent list \<Rightarrow> bool" where
  "gains_first_child story events \<longleftrightarrow> is_epic story \<and> \<not> has_children story \<and> list_ex adds_child events"

definition loses_last_child :: "StorySnapshot \<Rightarrow> StoryEvent list \<Rightarrow> bool" where
  "loses_last_child story events \<longleftrightarrow>
     length (filter (\<lambda>r. relation r = ''parent-of'') (snap_relationships story)) = 1 \<and> list_ex removes_child events"

definition validate_parent_constraints :: "story_map \<Rightarrow> string \<Rightarrow> string \<Rightarrow> string \<Rightarrow> unit result" where
  "validate_parent_constraints stories a b rel =
     (if rel = ''parent-of'' \<and> would_create_parent_cycle stories a b
      then Inl (Validation (''adding `parent-of` from `'' @ a @ ''` to `'' @ b @ ''` would create a cycle''))
      else if rel = ''child-of'' \<and> would_create_parent_cycle stories b a
      then Inl (Validation (''adding `child-of` from `'' @ a @ ''` to `'' @ b @ ''` would create a cycle''))
      else Inr ())"

fun resolve_unseen :: "string option \<Rightarrow> string list \<Rightarrow> string list \<Rightarrow> Store \<Rightarrow> ResolvedBlocker list result" where
  "resolve_unseen subject seen [] s = Inr []"
| "resolve_unseen subject seen (i # rest) s =
     (if i \<in> set seen then resolve_unseen subject seen rest s
      else if subject = Some i then Inl (Validation ''stories cannot relate to themselves'')
      else
        result_bind (resolve_story i s) (\<lambda>(no, row).
        result_bind (resolve_unseen subject (i # seen) rest s) (\<lambda>resolved.
          Inr (\<lparr>rb_id = i, rb_no = no, rb_row = row\<rparr> # resolved))))"

definition resolve_blockers :: "string option \<Rightarrow> string list \<Rightarrow> Store \<Rightarrow> ResolvedBlocker list result" where
  "resolve_blockers subject blockers s = resolve_unseen subject [] blockers s"

text \<open>The event that brings one history to the requested side of an edge, if it is not there yet.\<close>

definition edge_event :: "bool \<Rightarrow> string \<Rightarrow> StorySnapshot \<Rightarrow> string \<Rightarrow> string \<Rightarrow> StoryEvent list" where
  "edge_event remove at story rel other =
     (if remove
      then (if has_relation story rel other then [StoryRelationshipRemoved at other rel] else [])
      else (if \<not> has_relation story rel other then [StoryRelationshipAdded at other rel] else []))"

definition append_unless_empty :: "Guards \<Rightarrow> int \<Rightarrow> int \<Rightarrow> StoryEvent list \<Rightarrow> Store \<Rightarrow> Store result" where
  "append_unless_empty g no head events s =
     (if events = [] then Inr s
      else result_bind (append_and_fold g no (Exact head) events s) (\<lambda>(_, s). Inr s))"

fun append_blocks_edges ::
  "Guards \<Rightarrow> ResolvedBlocker list \<Rightarrow> string \<Rightarrow> string \<Rightarrow> bool \<Rightarrow> Store \<Rightarrow> (string list \<times> Store) result" where
  "append_blocks_edges g [] subject_id at remove s = Inr ([], s)"
| "append_blocks_edges g (blocker # rest) subject_id at remove s =
     (let events = edge_event remove at (row_snapshot (rb_row blocker)) ''blocks'' subject_id in
      result_bind (append_unless_empty g (rb_no blocker) (row_head_seq (rb_row blocker)) events s) (\<lambda>s.
      result_bind (append_blocks_edges g rest subject_id at remove s) (\<lambda>(touched, s).
        Inr (if events = [] then touched else rb_id blocker # touched, s))))"

definition blocker_names :: "ResolvedBlocker list \<Rightarrow> string" where
  "blocker_names bs = join '', '' (map rb_id bs)"

definition awaiting_events :: "string option \<Rightarrow> string \<Rightarrow> ResolvedBlocker list \<Rightarrow> StoryEvent list result" where
  "awaiting_events awaiting at bs =
     (case awaiting of
        None \<Rightarrow> Inr []
      | Some raw \<Rightarrow>
          (let reason = trim raw in
           if reason = [] then Inl (Validation ''awaiting reason must not be empty'')
           else if bs = [] then Inr [StoryAwaitingSet at reason]
           else Inr [StoryCommentAdded at (''Blocked on '' @ blocker_names bs @ '': '' @ reason)]))"

definition edge_batch ::
  "Guards \<Rightarrow> string \<Rightarrow> string list \<Rightarrow> string option \<Rightarrow> bool \<Rightarrow> string \<Rightarrow> Store \<Rightarrow> (string list \<times> Store) result" where
  "edge_batch g i blockers awaiting remove at s =
     result_bind (resolve_open_story i s) (\<lambda>(a_no, a_row).
     result_bind (resolve_blockers (Some i) blockers s) (\<lambda>b_rows.
     result_bind (append_blocks_edges g b_rows i at remove s) (\<lambda>(touched, s).
     result_bind (awaiting_events awaiting at b_rows) (\<lambda>reason.
     result_bind (append_unless_empty g a_no (row_head_seq a_row)
        (concat (map (\<lambda>b. edge_event remove at (row_snapshot a_row) ''blocked-by'' (rb_id b)) b_rows) @ reason) s) (\<lambda>s.
       Inr (touched, s))))))"

definition block_on ::
  "Guards \<Rightarrow> string \<Rightarrow> string list \<Rightarrow> string option \<Rightarrow> string \<Rightarrow> Store \<Rightarrow> string list result \<times> Store" where
  "block_on g i blockers awaiting at s = write_stories g (edge_batch g i blockers awaiting False at) s"

definition unblock_from :: "Guards \<Rightarrow> string \<Rightarrow> string list \<Rightarrow> string \<Rightarrow> Store \<Rightarrow> string list result \<times> Store" where
  "unblock_from g i blockers at s = write_stories g (edge_batch g i blockers None True at) s"

subsection \<open>Retracting a closed blocker\<close>

fun retract_dependents :: "Guards \<Rightarrow> int list \<Rightarrow> string \<Rightarrow> string \<Rightarrow> Store \<Rightarrow> Store result" where
  "retract_dependents g [] blocker_id at s = Inr s"
| "retract_dependents g (d # rest) blocker_id at s =
     (case story_row s d of
        None \<Rightarrow> retract_dependents g rest blocker_id at s
      | Some dependent \<Rightarrow>
          if \<not> has_relation (row_snapshot dependent) ''blocked-by'' blocker_id
          then retract_dependents g rest blocker_id at s
          else
            result_bind (append_and_fold g d (Exact (row_head_seq dependent))
              [StoryRelationshipRemoved at blocker_id ''blocked-by''] s) (\<lambda>(_, s).
              retract_dependents g rest blocker_id at s))"

definition retract_closed_blocker_edges ::
  "Guards \<Rightarrow> int \<Rightarrow> string \<Rightarrow> Store \<Rightarrow> (StoryEvent list \<times> Store) result" where
  "retract_closed_blocker_edges g blocker at s =
     (let blocker_id = to_id blocker (st_prefix s);
          dependents = bset_collect (map snd (filter (\<lambda>e. fst e = ''blocks'') (relations_from s blocker)))
      in
      result_bind (retract_dependents g dependents blocker_id at s) (\<lambda>s.
        (case story_row s blocker of
           None \<Rightarrow> Inl (NotFound (''story `'' @ blocker_id @ ''` not found''))
         | Some row \<Rightarrow>
             (let events = map (\<lambda>d. StoryRelationshipRemoved at d ''blocks'')
                (filter (has_relation (row_snapshot row) ''blocks'') (map (\<lambda>d. to_id d (st_prefix s)) dependents))
              in result_bind (append_unless_empty g blocker (row_head_seq row) events s) (\<lambda>s. Inr (events, s))))))"

subsection \<open>One relation\<close>

definition last_child_events ::
  "string \<Rightarrow> StorySnapshot \<Rightarrow> StoryEvent list \<Rightarrow> string \<Rightarrow> story_map \<Rightarrow> catalog_map
     \<Rightarrow> (StoryEvent list \<times> bool) result" where
  "last_child_events i story events at effective_before states =
     (if loses_last_child story events
      then (case btm_get effective_before i of
              None \<Rightarrow> Inr (events, False)
            | Some state \<Rightarrow>
                (case btm_get states (snap_state state) of
                   None \<Rightarrow> Inl (Validation (''epic `'' @ i @ ''` computed undefined state `'' @ snap_state state @ ''`''))
                 | Some target \<Rightarrow>
                     Inr (events @ state_transition_events target (snap_awaiting story \<noteq> None) at [],
                          sd_super target = Closed)))
      else Inr (events, False))"

definition first_child_events :: "StorySnapshot \<Rightarrow> StoryEvent list \<Rightarrow> string \<Rightarrow> StoryEvent list" where
  "first_child_events story events at =
     (if gains_first_child story events then events @ [StoryStateCleared at] else events)"

definition retract_if :: "Guards \<Rightarrow> bool \<Rightarrow> int \<Rightarrow> string \<Rightarrow> Store \<Rightarrow> Store result" where
  "retract_if g closes no at s =
     (if closes then result_bind (retract_closed_blocker_edges g no at s) (\<lambda>(_, s). Inr s) else Inr s)"

definition relate_tx ::
  "Guards \<Rightarrow> string \<Rightarrow> string \<Rightarrow> string \<Rightarrow> bool \<Rightarrow> string \<Rightarrow> Store \<Rightarrow> (RelationOutcome \<times> Store) result" where
  "relate_tx g a rel b remove at s =
     result_bind (resolve_open_story a s) (\<lambda>(a_no, a_row).
     result_bind (resolve_story b s) (\<lambda>(b_no, b_row).
     if a = b then Inl (Validation ''stories cannot relate to themselves'')
     else
       (case relation_edges rel of
          None \<Rightarrow> Inl (Validation (''unsupported relationship `'' @ rel @ ''`''))
        | Some edges \<Rightarrow>
            if \<not> remove \<and> row_archived b_row \<and> list_ex (\<lambda>(_, b_relation). b_relation = ''parent-of'') edges
            then Inl (Validation (closed_story_refusal b))
            else
              result_bind (if \<not> remove then validate_parent_constraints (store_story_map s) a b rel else Inr ()) (\<lambda>_.
              let a_edges = concat (map (\<lambda>(r, _). edge_event remove at (row_snapshot a_row) r b) edges);
                  b_edges = concat (map (\<lambda>(_, r). edge_event remove at (row_snapshot b_row) r a) edges);
                  states = catalog_of (st_states s);
                  effective_before = store_story_map s
              in
              result_bind (if remove then last_child_events a (row_snapshot a_row) a_edges at effective_before states
                 else Inr (first_child_events (row_snapshot a_row) a_edges at, False)) (\<lambda>(a_events, a_closes).
              result_bind (if remove then last_child_events b (row_snapshot b_row) b_edges at effective_before states
                 else Inr (first_child_events (row_snapshot b_row) b_edges at, False)) (\<lambda>(b_events, b_closes).
              if a_events = [] \<and> b_events = [] then Inr (Unchanged remove, s)
              else
                result_bind (append_unless_empty g b_no (row_head_seq b_row) b_events s) (\<lambda>s.
                result_bind (append_unless_empty g a_no (row_head_seq a_row) a_events s) (\<lambda>s.
                result_bind (retract_if g a_closes a_no at s) (\<lambda>s.
                result_bind (retract_if g b_closes b_no at s) (\<lambda>s.
                  (case story_row s a_no of
                     None \<Rightarrow> Inl (NotFound (''story `'' @ a @ ''` not found''))
                   | Some row \<Rightarrow> Inr (Changed (row_snapshot row), s))))))))))))"

definition relate ::
  "Guards \<Rightarrow> string \<Rightarrow> string \<Rightarrow> string \<Rightarrow> bool \<Rightarrow> string \<Rightarrow> Store \<Rightarrow> RelationOutcome result \<times> Store" where
  "relate g a rel b remove at s = write_stories g (relate_tx g a rel b remove at) s"

end
