(* ===== verification/Story_Service.thy ===== *)
theory Story_Service
  imports Relation_Service
begin

text \<open>
  The life of a story over the store (\<^verbatim>\<open>src/src/service/story.rs\<close>): creation, edits, state changes, claims and
  their release, archiving and deletion.  Every operation that writes is one transaction; its body is the
  definition with the suffix \<open>_tx\<close>.  The clock is an argument, the hooks fired and the build products
  reclaimed after a commit are left out, and what \<^verbatim>\<open>set_state\<close> reads outside the store (the cleanup lease of the
  working directory, a pending repair) is a field of \<open>Guards\<close>.
\<close>

section \<open>Plans and outcomes\<close>

definition UNCLAIMED :: string where
  "UNCLAIMED = ''unclaimed''"

definition UNCLAIM_FALLBACK_STATE :: string where
  "UNCLAIM_FALLBACK_STATE = ''todo''"

datatype UnclaimFallback = NoPriorState | PriorStateRemoved string | PriorStateClosed string

fun fallback_code :: "UnclaimFallback \<Rightarrow> string" where
  "fallback_code NoPriorState = ''no-prior-state''"
| "fallback_code (PriorStateRemoved _) = ''prior-state-removed''"
| "fallback_code (PriorStateClosed _) = ''prior-state-closed''"

fun explain :: "UnclaimFallback \<Rightarrow> string \<Rightarrow> string" where
  "explain NoPriorState active = ''this story was created in '' @ active @ '', so there is no earlier state to restore''"
| "explain (PriorStateRemoved slug) active =
     ''the state it was claimed from ('' @ slug @ '') is no longer defined by this project''"
| "explain (PriorStateClosed slug) active = ''the state it was claimed from ('' @ slug @ '') is no longer open''"

record UnclaimOutcome =
  uo_id :: string
  uo_from :: string
  uo_restored_to :: string
  uo_fallback :: "UnclaimFallback option"

datatype UnclaimComment = DefaultComment | CustomComment string | Suppressed

record ClaimPlan =
  cp_id :: string
  cp_from :: string
  cp_to :: string

record NewStoryInput =
  ns_title :: string
  ns_state :: "string option"
  ns_story_type :: "string option"
  ns_description :: "string option"
  ns_priority :: "string option"
  ns_complexity :: "string option"
  ns_labels :: "string list option"
  ns_draft :: bool
  ns_blocked_by :: "string list"

record FieldEdits =
  fe_title :: "string option"
  fe_state :: "string option"
  fe_priority :: "string option"
  fe_complexity :: "string option"
  fe_labels :: "string option"
  fe_blocked :: "string option"
  fe_unblocked :: bool
  fe_json :: "string option"
  fe_story_type :: "string option"
  fe_description :: "string option"

datatype Intent = EditIntent | AppendIntent

fun intent_resolve :: "Intent \<Rightarrow> string \<Rightarrow> Store \<Rightarrow> (int \<times> StoryRow) result" where
  "intent_resolve EditIntent i s = resolve_open_story i s"
| "intent_resolve AppendIntent i s = resolve_story i s"

definition no_active_state_error :: AppError where
  "no_active_state_error =
     Validation (''no state has role `active`, and this project does not have exactly two OPEN states '' @ em_dash
       @ '' a claim has no state to resolve into; set one with `story state set <slug> --role active`'')"

definition claim_comment_events :: "string option \<Rightarrow> string \<Rightarrow> StoryEvent list" where
  "claim_comment_events comment at = (case comment of None \<Rightarrow> [] | Some text \<Rightarrow> [StoryCommentAdded at text])"

definition resolve_unclaim_destination ::
  "string \<Rightarrow> StoryEvent list \<Rightarrow> string \<Rightarrow> catalog_map \<Rightarrow> UnclaimOutcome" where
  "resolve_unclaim_destination i events active states =
     (let fallback = (\<lambda>reason. \<lparr>uo_id = i, uo_from = active, uo_restored_to = UNCLAIM_FALLBACK_STATE,
            uo_fallback = Some reason\<rparr>)
      in case state_claimed_from events active of
           None \<Rightarrow> fallback NoPriorState
         | Some origin \<Rightarrow>
             (case btm_get states origin of
                None \<Rightarrow> fallback (PriorStateRemoved origin)
              | Some d \<Rightarrow>
                  if sd_super d \<noteq> Open then fallback (PriorStateClosed origin)
                  else \<lparr>uo_id = i, uo_from = active, uo_restored_to = origin, uo_fallback = None\<rparr>))"

definition default_unclaim_comment :: "UnclaimOutcome \<Rightarrow> string" where
  "default_unclaim_comment outcome =
     (case uo_fallback outcome of
        None \<Rightarrow> ''Unclaimed from '' @ uo_from outcome @ ''; restored to '' @ uo_restored_to outcome
          @ '', the state it was claimed from''
      | Some fallback \<Rightarrow> ''Unclaimed from '' @ uo_from outcome @ ''; restored to '' @ uo_restored_to outcome
          @ '' rather than the state it was claimed from. Reason: '' @ explain fallback (uo_from outcome) @ ''.'')"

definition unclaim_comment_events :: "UnclaimComment \<Rightarrow> UnclaimOutcome \<Rightarrow> string \<Rightarrow> StoryEvent list" where
  "unclaim_comment_events comment outcome at =
     (case comment of
        Suppressed \<Rightarrow> []
      | CustomComment text \<Rightarrow> [StoryCommentAdded at text]
      | DefaultComment \<Rightarrow> [StoryCommentAdded at (default_unclaim_comment outcome)])"

section \<open>Admission of fields\<close>

definition assignable_priority :: "string \<Rightarrow> Priority result" where
  "assignable_priority raw =
     (case priority_parse raw of
        Some p \<Rightarrow> if p = NoPriority then Inl (Validation ''priority must be one of: critical, high, medium, low'') else Inr p
      | None \<Rightarrow> Inl (Validation ''priority must be one of: critical, high, medium, low''))"

definition default_story_type :: "Store \<Rightarrow> string result" where
  "default_story_type s =
     (case default_type (st_types s) of
        None \<Rightarrow> Inl (Validation ''project has no configured story types'')
      | Some t \<Rightarrow> Inr (td_slug t))"

definition require_known_type :: "string \<Rightarrow> Store \<Rightarrow> unit result" where
  "require_known_type slug s =
     (if list_ex (\<lambda>t. td_slug t = slug) (st_types s) then Inr ()
      else Inl (Validation (''unknown type `'' @ slug @ ''`. Available types: ''
        @ join '', '' (sort (map td_slug (st_types s))))))"

definition open_state_slugs :: "StateDef list \<Rightarrow> string list" where
  "open_state_slugs states = map sd_slug (filter (\<lambda>d. sd_super d = Open) states)"

definition required_open_state :: "StateDef list \<Rightarrow> StateDef result" where
  "required_open_state states =
     (case default_open_state states of
        None \<Rightarrow> Inl (Validation ''project has no OPEN-mapped default state'')
      | Some d \<Rightarrow> Inr d)"

definition refuse_epic_state_change :: "StorySnapshot \<Rightarrow> unit result" where
  "refuse_epic_state_change story =
     (if is_epic story
      then Inl (Validation (''story `'' @ snap_id story @ ''` is an epic, so its state is computed from its ''
        @ ''children and cannot be moved directly; move a child instead, or change this story's type if it is not a folder''))
      else Inr ())"

section \<open>Creation\<close>

definition creation_state :: "StateDef list \<Rightarrow> string option \<Rightarrow> string result" where
  "creation_state states wanted =
     (case wanted of
        Some slug \<Rightarrow>
          if list_ex (\<lambda>d. sd_slug d = slug \<and> sd_super d = Open) states then Inr slug
          else Inl (Validation (CHR 0x27 # slug @ [CHR 0x27] @ '' is not a valid OPEN state. Available OPEN states: ''
            @ join '', '' (open_state_slugs states)))
      | None \<Rightarrow> result_bind (required_open_state states) (\<lambda>d. Inr (sd_slug d)))"

definition complexity_events :: "string option \<Rightarrow> string \<Rightarrow> StoryEvent list result" where
  "complexity_events raw at =
     (case raw of None \<Rightarrow> Inr [] | Some r \<Rightarrow> result_bind (complexity_parse r) (\<lambda>c. Inr [StoryComplexitySet at c]))"

definition base_creation_events ::
  "Guards \<Rightarrow> StateDef list \<Rightarrow> NewStoryInput \<Rightarrow> string \<Rightarrow> Store \<Rightarrow> StoryEvent list result" where
  "base_creation_events g states input at s =
     result_bind (case ns_story_type input of
        Some slug \<Rightarrow> result_bind (require_known_type slug s) (\<lambda>_. Inr slug)
      | None \<Rightarrow> default_story_type s) (\<lambda>story_type.
     result_bind (case ns_priority input of None \<Rightarrow> Inr Low | Some raw \<Rightarrow> assignable_priority raw) (\<lambda>priority.
     result_bind (creation_state states (ns_state input)) (\<lambda>state_slug.
     result_bind (complexity_events (ns_complexity input) at) (\<lambda>complexity.
       Inr ([StoryCreated at (ns_title input) state_slug]
         @ (if ns_draft input then [StoryCreatedAsDraft at] else [])
         @ complexity
         @ [StoryPrioritySet at priority]
         @ (case ns_labels input of None \<Rightarrow> []
            | Some labels \<Rightarrow> (let normalized = normalize_labels (guard_lower g) labels in
                if normalized \<noteq> [] then [StoryLabelsSet at normalized] else []))
         @ (case ns_description input of None \<Rightarrow> []
            | Some description \<Rightarrow> if trim description \<noteq> [] then [StoryDescriptionSet at description] else [])
         @ [StoryTypeSet at story_type])))))"

definition creation_events ::
  "Guards \<Rightarrow> StateDef list \<Rightarrow> NewStoryInput \<Rightarrow> string \<Rightarrow> Store \<Rightarrow> StoryEvent list result" where
  "creation_events g states input at s =
     (if ns_blocked_by input \<noteq> []
      then Inl (Validation (''internal: a story filed with blockers must be created by StoryService::create, ''
        @ ''which records both ends of each edge in the creating transaction''))
      else base_creation_events g states input at s)"

definition admit_blocked_creation ::
  "StateDef list \<Rightarrow> StoryEvent list \<Rightarrow> ResolvedBlocker list \<Rightarrow> Store \<Rightarrow> unit result" where
  "admit_blocked_creation states events blockers s =
     (if \<not> st_automations s then Inr ()
      else (case events of
        StoryCreated _ _ state # _ \<Rightarrow>
          (let index = store_story_map s;
               opens = map rb_id (filter (\<lambda>b. case btm_get index (to_id (rb_no b) (st_prefix s)) of
                 None \<Rightarrow> False | Some story \<Rightarrow> snap_superstate story = Open) blockers)
           in validate_blocked_creation state states (map rb_id blockers) opens)
      | _ \<Rightarrow> Inl (Storage ''internal: a creation batch must open with StoryCreated'')))"

definition create_tx :: "Guards \<Rightarrow> NewStoryInput \<Rightarrow> string \<Rightarrow> Store \<Rightarrow> (StorySnapshot \<times> Store) result" where
  "create_tx g input at s =
     result_bind (base_creation_events g (st_states s) input at s) (\<lambda>base.
     result_bind (resolve_blockers None (ns_blocked_by input) s) (\<lambda>blockers.
     result_bind (if blockers \<noteq> [] then admit_blocked_creation (st_states s) base blockers s else Inr ()) (\<lambda>_.
     let events = base @ map (\<lambda>b. StoryRelationshipAdded at (rb_id b) ''blocked-by'') blockers in
     result_bind (allocate_story_no g s) (\<lambda>(no, s).
     result_bind (append_and_fold g no (Exact 0) events s) (\<lambda>(snapshot, s).
     result_bind (append_blocks_edges g blockers (snap_id snapshot) at False s) (\<lambda>(_, s).
       Inr (snapshot, s)))))))"

definition create :: "Guards \<Rightarrow> NewStoryInput \<Rightarrow> string \<Rightarrow> Store \<Rightarrow> StorySnapshot result \<times> Store" where
  "create g input at s = write_stories g (create_tx g input at) s"

section \<open>Edits\<close>

definition edit_story_tx ::
  "Guards \<Rightarrow> string \<Rightarrow> Intent \<Rightarrow> (StoryRow \<Rightarrow> StoryEvent list result) \<Rightarrow> Store \<Rightarrow> (StorySnapshot \<times> Store) result" where
  "edit_story_tx g i intent build s =
     result_bind (intent_resolve intent i s) (\<lambda>(no, row).
     result_bind (build row) (\<lambda>events.
       if events = [] then Inr (row_snapshot row, s)
       else append_and_fold g no (Exact (row_head_seq row)) events s))"

definition edit_story ::
  "Guards \<Rightarrow> string \<Rightarrow> Intent \<Rightarrow> (StoryRow \<Rightarrow> StoryEvent list result) \<Rightarrow> Store \<Rightarrow> StorySnapshot result \<times> Store" where
  "edit_story g i intent build s = write_stories g (edit_story_tx g i intent build) s"

definition comment_story :: "Guards \<Rightarrow> string \<Rightarrow> string \<Rightarrow> string \<Rightarrow> Store \<Rightarrow> StorySnapshot result \<times> Store" where
  "comment_story g i text at s = edit_story g i AppendIntent (\<lambda>_. Inr [StoryCommentAdded at text]) s"

definition set_priority :: "Guards \<Rightarrow> string \<Rightarrow> string \<Rightarrow> string \<Rightarrow> Store \<Rightarrow> StorySnapshot result \<times> Store" where
  "set_priority g i priority at s =
     (case assignable_priority priority of
        Inl e \<Rightarrow> (Inl e, s)
      | Inr level \<Rightarrow> edit_story g i EditIntent (\<lambda>_. Inr [StoryPrioritySet at level]) s)"

definition set_labels ::
  "Guards \<Rightarrow> string \<Rightarrow> string list \<Rightarrow> string list \<Rightarrow> string \<Rightarrow> Store \<Rightarrow> StorySnapshot result \<times> Store" where
  "set_labels g i add remove at s =
     (let add = normalize_labels (guard_lower g) add;
          remove = normalize_labels (guard_lower g) remove
      in edit_story g i EditIntent (\<lambda>row.
        let labels = fold bset_remove remove (fold bset_insert add (bset_collect (snap_labels (row_snapshot row))))
        in Inr [StoryLabelsSet at (normalize_labels (guard_lower g) labels)]) s)"

definition set_awaiting :: "Guards \<Rightarrow> string \<Rightarrow> string \<Rightarrow> string \<Rightarrow> Store \<Rightarrow> StorySnapshot result \<times> Store" where
  "set_awaiting g i awaiting at s =
     (let reason = trim awaiting in
      if reason = [] then (Inl (Validation ''awaiting reason must not be empty''), s)
      else edit_story g i EditIntent (\<lambda>_. Inr [StoryAwaitingSet at reason]) s)"

definition clear_awaiting :: "Guards \<Rightarrow> string \<Rightarrow> string \<Rightarrow> Store \<Rightarrow> StorySnapshot result \<times> Store" where
  "clear_awaiting g i at s =
     edit_story g i EditIntent (\<lambda>row.
       if snap_awaiting (row_snapshot row) = None then Inr [] else Inr [StoryAwaitingCleared at]) s"

section \<open>Moving a story\<close>

definition append_state_transition ::
  "Guards \<Rightarrow> int \<Rightarrow> StoryRow \<Rightarrow> StateDef \<Rightarrow> string \<Rightarrow> StoryEvent list \<Rightarrow> Store \<Rightarrow> (StorySnapshot \<times> Store) result" where
  "append_state_transition g no row target at extra s =
     result_bind (append_and_fold g no (Exact (row_head_seq row))
        (state_transition_events target (snap_awaiting (row_snapshot row) \<noteq> None) at extra) s) (\<lambda>(snapshot, s).
     if sd_super target \<noteq> Closed then Inr (snapshot, s)
     else
       result_bind (retract_closed_blocker_edges g no at s) (\<lambda>(_, s).
         (case story_row s no of
            Some row \<Rightarrow> Inr (row_snapshot row, s)
          | None \<Rightarrow> Inl (NotFound (''story `'' @ to_id no (st_prefix s) @ ''` not found'')))))"

definition VERIFICATION_OVERRIDDEN_PREFIX :: string where
  "VERIFICATION_OVERRIDDEN_PREFIX = ''CENTRAL VERIFICATION OVERRIDDEN '' @ em_dash"

definition override_refusal :: "string \<Rightarrow> string" where
  "override_refusal i =
     ''story `'' @ i @ ''` is under central verification; completing it by hand overrides the verifier and requires a reason: `story move ''
     @ i @ '' done \"<why>\"` records it as `'' @ VERIFICATION_OVERRIDDEN_PREFIX
     @ '' <why>` and the verifier withdraws its running attempt. To hand the story back without completing it, `story move ''
     @ i @ '' in-progress`.''"

definition lease_refusal :: "StoryCleanupLease option \<Rightarrow> int \<Rightarrow> Store \<Rightarrow> unit result" where
  "lease_refusal lease no s =
     (case lease of
        None \<Rightarrow> Inr ()
      | Some l \<Rightarrow>
          if project_slug l \<noteq> st_slug s then
            Inl (Validation (''cleanup lease project mismatch: marker says `'' @ project_slug l
              @ ''`, selected project is `'' @ st_slug s @ ''`''))
          else if lease_story_id l \<noteq> to_id no (st_prefix s) then
            Inl (Validation (''cleanup lease story mismatch: marker says `'' @ lease_story_id l
              @ ''`, transition targets `'' @ to_id no (st_prefix s) @ ''`''))
          else Inr ())"

definition override_comment ::
  "Guards \<Rightarrow> int \<Rightarrow> StoryRow \<Rightarrow> StateDef \<Rightarrow> string option \<Rightarrow> Store \<Rightarrow> string option result" where
  "override_comment g no row target comment s =
     result_bind (if st_automations s \<and> snap_state (row_snapshot row) = VERIFYING_STATE_SLUG
           \<and> sd_slug target = COMPLETION_STATE_SLUG
        then result_bind (guard_certified g no row) (\<lambda>certified. Inr (\<not> certified)) else Inr False) (\<lambda>overriding.
     if overriding then
       (case map_option trim comment of
          Some reason \<Rightarrow>
            if reason \<noteq> [] then Inr (Some (VERIFICATION_OVERRIDDEN_PREFIX @ '' '' @ reason))
            else Inl (Validation (override_refusal (to_id no (st_prefix s))))
        | None \<Rightarrow> Inl (Validation (override_refusal (to_id no (st_prefix s)))))
     else Inr comment)"

definition require_state :: "string \<Rightarrow> catalog_map \<Rightarrow> StateDef result" where
  "require_state state states =
     (case btm_get states state of Some d \<Rightarrow> Inr d | None \<Rightarrow> Inl (undefined_state_error state states))"

definition move_extra ::
  "StoryCleanupLease option \<Rightarrow> string option \<Rightarrow> string option \<Rightarrow> string \<Rightarrow> StoryEvent list" where
  "move_extra lease comment awaiting at =
     (case lease of None \<Rightarrow> [] | Some l \<Rightarrow> [StoryCleanupLeaseRecorded at l])
     @ (case comment of None \<Rightarrow> [] | Some text \<Rightarrow> [StoryCommentAdded at text])
     @ (case awaiting of None \<Rightarrow> [] | Some reason \<Rightarrow> [StoryAwaitingSet at reason])"

definition check_if_state :: "string \<Rightarrow> string option \<Rightarrow> Store \<Rightarrow> unit result" where
  "check_if_state i if_state s =
     (case if_state of
        None \<Rightarrow> Inr ()
      | Some expected \<Rightarrow> result_bind (resolve_story i s) (\<lambda>(_, current).
          if snap_state (row_snapshot current) \<noteq> expected
          then Inl (StateConflict expected (snap_state (row_snapshot current))) else Inr ()))"

definition set_state_tx ::
  "Guards \<Rightarrow> string \<Rightarrow> string \<Rightarrow> string option \<Rightarrow> string option \<Rightarrow> string option \<Rightarrow> StoryCleanupLease option
     \<Rightarrow> string \<Rightarrow> Store \<Rightarrow> ((StorySnapshot \<times> StorySnapshot) \<times> Store) result" where
  "set_state_tx g i state comment if_state awaiting lease at s =
     (let states = catalog_of (st_states s) in
     result_bind (check_if_state i if_state s) (\<lambda>_.
     result_bind (resolve_open_story i s) (\<lambda>(no, row).
     result_bind (lease_refusal lease no s) (\<lambda>_.
     result_bind (if st_automations s then refuse_epic_state_change (row_snapshot row) else Inr ()) (\<lambda>_.
     result_bind (require_state state states) (\<lambda>target.
     if awaiting \<noteq> None \<and> sd_super target = Closed
     then Inl (Validation (''--reason cannot be combined with a move to a closed state; awaiting is cleared on close''))
     else
       result_bind (override_comment g no row target comment s) (\<lambda>comment.
       result_bind (append_state_transition g no row target at (move_extra lease comment awaiting at) s) (\<lambda>(snapshot, s).
         Inr ((row_snapshot row, snapshot), s)))))))))"

text \<open>
  Publishing a pending repair may leave a comment on the story before it answers.  A completion that
  overrides the verifier publishes first, and records a publication that failed.
\<close>

definition flush :: "Guards \<Rightarrow> string \<Rightarrow> string \<Rightarrow> Store \<Rightarrow> unit result \<times> Store" where
  "flush g i at s =
     (case guard_flush g i of
        (None, r) \<Rightarrow> (r, s)
      | (Some text, r) \<Rightarrow>
          (case comment_story g i text at s of
             (Inl e, s) \<Rightarrow> (Inl e, s)
           | (Inr _, s) \<Rightarrow> (r, s)))"

definition overrides_verifier :: "string \<Rightarrow> Store \<Rightarrow> bool result" where
  "overrides_verifier i s =
     result_bind (parse_story_id (st_prefix s) i) (\<lambda>no.
       Inr (case story_row s no of None \<Rightarrow> False | Some row \<Rightarrow> snap_state (row_snapshot row) = VERIFYING_STATE_SLUG))"

definition unpublished_comment :: "AppError \<Rightarrow> string" where
  "unpublished_comment e =
     ''OVERRIDE WITH UNPUBLISHED REPAIR'' @ newline @ newline @ quote_evidence (display_error e) @ newline @ newline
     @ ''Override remains allowed. Preserve the local branch and inspect its unpublished commits.''"

definition publish_or_record :: "Guards \<Rightarrow> string \<Rightarrow> string \<Rightarrow> Store \<Rightarrow> unit result \<times> Store" where
  "publish_or_record g i at s =
     (case flush g i at s of
        (Inr _, s) \<Rightarrow> (Inr (), s)
      | (Inl e, s) \<Rightarrow>
          (case comment_story g i (unpublished_comment e) at s of
             (Inl e, s) \<Rightarrow> (Inl e, s)
           | (Inr _, s) \<Rightarrow> (Inr (), s)))"

definition flush_override :: "Guards \<Rightarrow> string \<Rightarrow> string \<Rightarrow> string option \<Rightarrow> string \<Rightarrow> Store \<Rightarrow> unit result \<times> Store" where
  "flush_override g i state comment at s =
     (if st_automations s \<and> state = COMPLETION_STATE_SLUG \<and> (case comment of None \<Rightarrow> False | Some t \<Rightarrow> trim t \<noteq> [])
      then (case overrides_verifier i s of
              Inl e \<Rightarrow> (Inl e, s)
            | Inr overriding \<Rightarrow> if overriding then publish_or_record g i at s else (Inr (), s))
      else (Inr (), s))"

definition marked_lease :: "Guards \<Rightarrow> bool \<Rightarrow> string \<Rightarrow> StoryCleanupLease option result" where
  "marked_lease g automated state = (if automated \<and> state = VERIFYING_STATE_SLUG then guard_lease g else Inr None)"

definition awaiting_reason :: "string option \<Rightarrow> string option result" where
  "awaiting_reason awaiting =
     (if map_option trim awaiting = Some [] then Inl (Validation ''awaiting reason must not be empty'')
      else Inr (map_option trim awaiting))"

definition move_story ::
  "Guards \<Rightarrow> string \<Rightarrow> string \<Rightarrow> string option \<Rightarrow> string option \<Rightarrow> string option \<Rightarrow> bool \<Rightarrow> string \<Rightarrow> Store \<Rightarrow> StorySnapshot result \<times> Store" where
  "move_story g i state comment if_state awaiting automated at s =
     (case marked_lease g automated state of
        Inl e \<Rightarrow> (Inl e, s)
      | Inr lease \<Rightarrow>
          (case awaiting_reason awaiting of
             Inl e \<Rightarrow> (Inl e, s)
           | Inr reason \<Rightarrow>
               (case write_stories g (set_state_tx g i state comment if_state reason lease at) s of
                  (Inl e, s) \<Rightarrow> (Inl e, s)
                | (Inr (_, snapshot), s) \<Rightarrow> (Inr snapshot, s))))"

text \<open>The move that older installed hooks make after a merge is dropped when automatic work is not admitted.\<close>

definition dropped_merge_move :: "Guards \<Rightarrow> string option \<Rightarrow> Store \<Rightarrow> bool" where
  "dropped_merge_move g comment s \<longleftrightarrow>
     comment = Some ''auto-closed by merge'' \<and> (guard_disabling g \<or> \<not> st_automations s)"

definition set_state ::
  "Guards \<Rightarrow> string \<Rightarrow> string \<Rightarrow> string option \<Rightarrow> string option \<Rightarrow> string option \<Rightarrow> string \<Rightarrow> Store \<Rightarrow> StorySnapshot result \<times> Store" where
  "set_state g i state comment if_state awaiting at s =
     (if dropped_merge_move g comment s
      then (result_bind (resolve_story i s) (\<lambda>(_, row). Inr (row_snapshot row)), s)
      else
        (case flush_override g i state comment at s of
           (Inl e, s') \<Rightarrow> (Inl e, s')
         | (Inr _, s') \<Rightarrow> move_story g i state comment if_state awaiting (st_automations s) at s'))"

subsection \<open>Claiming and releasing\<close>

definition require_active :: "Store \<Rightarrow> StateDef result" where
  "require_active s = (case active_state (st_states s) of None \<Rightarrow> Inl no_active_state_error | Some d \<Rightarrow> Inr d)"

definition claim_story_tx ::
  "Guards \<Rightarrow> string \<Rightarrow> string option \<Rightarrow> string \<Rightarrow> Store \<Rightarrow> ((StorySnapshot \<times> StorySnapshot) \<times> Store) result" where
  "claim_story_tx g i comment at s =
     result_bind (require_active s) (\<lambda>active.
     result_bind (resolve_open_story i s) (\<lambda>(no, row).
     result_bind (guard_reserved g no) (\<lambda>_.
     if snap_state (row_snapshot row) = sd_slug active
     then Inl (StateConflict UNCLAIMED (snap_state (row_snapshot row)))
     else
       result_bind (append_and_fold g no (Exact (row_head_seq row))
          (state_transition_events active (snap_awaiting (row_snapshot row) \<noteq> None) at (claim_comment_events comment at)) s)
         (\<lambda>(snapshot, s). Inr ((row_snapshot row, snapshot), s)))))"

definition claim_story ::
  "Guards \<Rightarrow> string \<Rightarrow> string option \<Rightarrow> string \<Rightarrow> Store \<Rightarrow> (StorySnapshot \<times> StorySnapshot) result \<times> Store" where
  "claim_story g i comment at s = write_stories g (claim_story_tx g i comment at) s"

definition plan_unclaim :: "string \<Rightarrow> Store \<Rightarrow> UnclaimOutcome result" where
  "plan_unclaim i s =
     result_bind (require_active s) (\<lambda>active.
     result_bind (resolve_open_story i s) (\<lambda>(no, row).
     if snap_state (row_snapshot row) \<noteq> sd_slug active
     then Inl (StateConflict (sd_slug active) (snap_state (row_snapshot row)))
     else
       (let states = catalog_of (st_states s);
            outcome = resolve_unclaim_destination (snap_id (row_snapshot row)) (known_events s no) (sd_slug active) states
        in if \<not> btm_contains states (uo_restored_to outcome)
           then Inl (undefined_state_error (uo_restored_to outcome) states)
           else Inr outcome)))"

definition unclaim_story_tx ::
  "Guards \<Rightarrow> string \<Rightarrow> UnclaimComment \<Rightarrow> string \<Rightarrow> Store
     \<Rightarrow> ((StorySnapshot \<times> StorySnapshot \<times> UnclaimOutcome) \<times> Store) result" where
  "unclaim_story_tx g i comment at s =
     result_bind (require_active s) (\<lambda>active.
     result_bind (resolve_open_story i s) (\<lambda>(no, row).
     if snap_state (row_snapshot row) \<noteq> sd_slug active
     then Inl (StateConflict (sd_slug active) (snap_state (row_snapshot row)))
     else
       (let states = catalog_of (st_states s);
            outcome = resolve_unclaim_destination (snap_id (row_snapshot row)) (known_events s no) (sd_slug active) states
        in
        result_bind (require_state (uo_restored_to outcome) states) (\<lambda>target.
        result_bind (append_and_fold g no (Exact (row_head_seq row))
           (state_transition_events target (snap_awaiting (row_snapshot row) \<noteq> None) at
              (unclaim_comment_events comment outcome at)) s)
          (\<lambda>(snapshot, s). Inr ((row_snapshot row, snapshot, outcome), s))))))"

definition unclaim_story ::
  "Guards \<Rightarrow> string \<Rightarrow> UnclaimComment \<Rightarrow> string \<Rightarrow> Store \<Rightarrow> (StorySnapshot \<times> StorySnapshot \<times> UnclaimOutcome) result \<times> Store" where
  "unclaim_story g i comment at s = write_stories g (unclaim_story_tx g i comment at) s"

definition plan_claim_story :: "string \<Rightarrow> Store \<Rightarrow> ClaimPlan result" where
  "plan_claim_story i s =
     result_bind (require_active s) (\<lambda>active.
     result_bind (resolve_open_story i s) (\<lambda>(_, row).
     if snap_state (row_snapshot row) = sd_slug active
     then Inl (StateConflict UNCLAIMED (snap_state (row_snapshot row)))
     else Inr \<lparr>cp_id = snap_id (row_snapshot row), cp_from = snap_state (row_snapshot row), cp_to = sd_slug active\<rparr>))"

section \<open>Setting fields\<close>

record EditPlan =
  ep_events :: "StoryEvent list"
  ep_changes :: "string list"
  ep_moved_to :: "string option"

definition push_edit :: "StoryEvent list \<Rightarrow> string \<Rightarrow> EditPlan \<Rightarrow> EditPlan" where
  "push_edit events change plan = plan\<lparr>ep_events := ep_events plan @ events, ep_changes := ep_changes plan @ [change]\<rparr>"

definition push_state_change :: "catalog_map \<Rightarrow> StorySnapshot \<Rightarrow> string \<Rightarrow> string \<Rightarrow> EditPlan \<Rightarrow> EditPlan result" where
  "push_state_change states story slug at plan =
     (case btm_get states slug of
        None \<Rightarrow> Inl (undefined_state_error slug states)
      | Some target \<Rightarrow>
          Inr ((push_edit (state_transition_events target (snap_awaiting story \<noteq> None) at []) (''state -> '' @ slug) plan)
            \<lparr>ep_moved_to := Some slug\<rparr>))"

definition push_complexity :: "string \<Rightarrow> string \<Rightarrow> EditPlan \<Rightarrow> EditPlan result" where
  "push_complexity raw at plan =
     result_bind (complexity_parse raw) (\<lambda>c. Inr (push_edit [StoryComplexitySet at c] (''complexity -> '' @ raw) plan))"

definition push_priority :: "string \<Rightarrow> string \<Rightarrow> EditPlan \<Rightarrow> EditPlan result" where
  "push_priority raw at plan =
     result_bind (assignable_priority raw) (\<lambda>p. Inr (push_edit [StoryPrioritySet at p] (''priority -> '' @ raw) plan))"

definition push_type :: "string \<Rightarrow> string \<Rightarrow> Store \<Rightarrow> EditPlan \<Rightarrow> EditPlan result" where
  "push_type slug at s plan =
     result_bind (require_known_type slug s) (\<lambda>_. Inr (push_edit [StoryTypeSet at slug] (''type -> '' @ slug) plan))"

definition json_str :: "JsonValue \<Rightarrow> string \<Rightarrow> string result" where
  "json_str v field = (case v of JString t \<Rightarrow> Inr t | _ \<Rightarrow> Inl (Validation (field @ '' must be a string'')))"

definition json_strings :: "JsonValue list \<Rightarrow> string list" where
  "json_strings items = List.map_filter (\<lambda>v. case v of JString t \<Rightarrow> Some t | _ \<Rightarrow> None) items"

definition apply_json_field ::
  "Guards \<Rightarrow> catalog_map \<Rightarrow> StorySnapshot \<Rightarrow> string \<Rightarrow> JsonValue \<Rightarrow> string \<Rightarrow> Store \<Rightarrow> EditPlan \<Rightarrow> EditPlan result" where
  "apply_json_field g states story key v at s plan =
     (if key = ''title'' then
        result_bind (json_str v ''title'') (\<lambda>title.
          Inr (if title \<noteq> [] then push_edit [StoryTitleSet at title] (''title -> '' @ title) plan else plan))
      else if key = ''state'' then result_bind (json_str v ''state'') (\<lambda>slug. push_state_change states story slug at plan)
      else if key = ''complexity'' then result_bind (json_str v ''complexity'') (\<lambda>raw. push_complexity raw at plan)
      else if key = ''priority'' then result_bind (json_str v ''priority'') (\<lambda>raw. push_priority raw at plan)
      else if key = ''labels'' then
        (case v of
           JArray items \<Rightarrow>
             (let labels = normalize_labels (guard_lower g) (json_strings items) in
              Inr (push_edit [StoryLabelsSet at labels] (''labels -> ['' @ join '', '' labels @ '']'') plan))
         | _ \<Rightarrow> Inl (Validation ''labels must be an array of strings''))
      else if key = ''blocked'' then
        (case v of
           JNull \<Rightarrow> Inr (push_edit [StoryAwaitingCleared at] ''unblocked'' plan)
         | JString reason \<Rightarrow>
             if reason = [] then Inr (push_edit [StoryAwaitingCleared at] ''unblocked'' plan)
             else Inr (push_edit [StoryAwaitingSet at reason] (''blocked: '' @ reason) plan)
         | _ \<Rightarrow> Inl (Validation ''blocked must be a string or null''))
      else if key = ''story_type'' then result_bind (json_str v ''story_type'') (\<lambda>slug. push_type slug at s plan)
      else if key = ''description'' then
        result_bind (json_str v ''description'') (\<lambda>d. Inr (push_edit [StoryDescriptionSet at d] ''description updated'' plan))
      else Inl (Validation (''unknown field `'' @ key @ ''` in JSON. Valid fields: title, state, priority, complexity, ''
        @ ''labels, blocked, story_type, description'')))"

fun apply_json_fields ::
  "Guards \<Rightarrow> catalog_map \<Rightarrow> StorySnapshot \<Rightarrow> (string \<times> JsonValue) list \<Rightarrow> string \<Rightarrow> Store \<Rightarrow> EditPlan \<Rightarrow> EditPlan result" where
  "apply_json_fields g states story [] at s plan = Inr plan"
| "apply_json_fields g states story ((key, v) # rest) at s plan =
     result_bind (apply_json_field g states story key v at s plan) (apply_json_fields g states story rest at s)"

definition apply_json_patch ::
  "Guards \<Rightarrow> catalog_map \<Rightarrow> StorySnapshot \<Rightarrow> string \<Rightarrow> string \<Rightarrow> Store \<Rightarrow> EditPlan \<Rightarrow> EditPlan result" where
  "apply_json_patch g states story raw at s plan =
     (case guard_json g raw of
        Inl e \<Rightarrow> Inl (Validation (''invalid JSON: '' @ e))
      | Inr patch \<Rightarrow>
          (case patch of
             JObject entries \<Rightarrow> apply_json_fields g states story entries at s plan
           | _ \<Rightarrow> Inl (Validation ''JSON must be an object'')))"

definition when_some :: "'a option \<Rightarrow> ('a \<Rightarrow> EditPlan \<Rightarrow> EditPlan result) \<Rightarrow> EditPlan \<Rightarrow> EditPlan result" where
  "when_some v f plan = (case v of None \<Rightarrow> Inr plan | Some x \<Rightarrow> f x plan)"

definition plan_field_edits ::
  "Guards \<Rightarrow> catalog_map \<Rightarrow> StorySnapshot \<Rightarrow> FieldEdits \<Rightarrow> string \<Rightarrow> Store \<Rightarrow> EditPlan result" where
  "plan_field_edits g states story edits at s =
     result_bind (when_some (fe_title edits) (\<lambda>title plan. Inr (push_edit [StoryTitleSet at title] (''title -> '' @ title) plan))
        \<lparr>ep_events = [], ep_changes = [], ep_moved_to = None\<rparr>) (\<lambda>plan.
     result_bind (when_some (fe_state edits) (\<lambda>slug. push_state_change states story slug at) plan) (\<lambda>plan.
     result_bind (when_some (fe_complexity edits) (\<lambda>raw. push_complexity raw at) plan) (\<lambda>plan.
     result_bind (when_some (fe_priority edits) (\<lambda>raw. push_priority raw at) plan) (\<lambda>plan.
     result_bind (when_some (fe_labels edits) (\<lambda>csv plan.
        Inr (push_edit [StoryLabelsSet at (normalize_labels (guard_lower g) (snap_labels story @ [csv]))]
          (''labels += '' @ csv) plan)) plan) (\<lambda>plan.
     result_bind (when_some (fe_blocked edits) (\<lambda>reason plan.
        Inr (push_edit [StoryAwaitingSet at reason] (''blocked: '' @ reason) plan)) plan) (\<lambda>plan.
     result_bind (if fe_unblocked edits then Inr (push_edit [StoryAwaitingCleared at] ''unblocked'' plan) else Inr plan) (\<lambda>plan.
     result_bind (when_some (fe_story_type edits) (\<lambda>slug. push_type slug at s) plan) (\<lambda>plan.
     result_bind (when_some (fe_description edits) (\<lambda>d plan.
        Inr (push_edit [StoryDescriptionSet at d] ''description updated'' plan)) plan) (\<lambda>plan.
       when_some (fe_json edits) (\<lambda>raw. apply_json_patch g states story raw at s) plan)))))))))"

definition set_fields_tx ::
  "Guards \<Rightarrow> string \<Rightarrow> FieldEdits \<Rightarrow> string \<Rightarrow> Store \<Rightarrow> ((EditPlan \<times> StorySnapshot \<times> StorySnapshot) \<times> Store) result" where
  "set_fields_tx g i edits at s =
     (let states = catalog_of (st_states s) in
     result_bind (resolve_open_story i s) (\<lambda>(no, row).
     result_bind (plan_field_edits g states (row_snapshot row) edits at s) (\<lambda>plan.
     if ep_events plan = [] then Inl (Usage ''no fields to update'')
     else
       result_bind (if ep_moved_to plan \<noteq> None \<and> st_automations s then refuse_epic_state_change (row_snapshot row)
          else Inr ()) (\<lambda>_.
       result_bind (append_and_fold g no (Exact (row_head_seq row)) (ep_events plan) s) (\<lambda>(snapshot, s).
       let closes = (case ep_moved_to plan of None \<Rightarrow> False
         | Some slug \<Rightarrow> (case btm_get states slug of None \<Rightarrow> False | Some target \<Rightarrow> sd_super target = Closed))
       in
       if closes then
         result_bind (retract_closed_blocker_edges g no at s) (\<lambda>(_, s).
           (case story_row s no of
              None \<Rightarrow> Inl (NotFound (''story `'' @ i @ ''` not found''))
            | Some r \<Rightarrow> Inr ((plan, row_snapshot row, row_snapshot r), s)))
       else Inr ((plan, row_snapshot row, snapshot), s))))))"

definition set_fields :: "Guards \<Rightarrow> string \<Rightarrow> FieldEdits \<Rightarrow> string \<Rightarrow> Store \<Rightarrow> string result \<times> Store" where
  "set_fields g i edits at s =
     (case write_stories g (set_fields_tx g i edits at) s of
        (Inl e, s) \<Rightarrow> (Inl e, s)
      | (Inr (plan, _), s) \<Rightarrow> (Inr (''updated '' @ i @ '': '' @ join '', '' (ep_changes plan)), s))"

definition update_line :: "string \<Rightarrow> string \<Rightarrow> StorySnapshot result \<Rightarrow> string" where
  "update_line i state_slug r =
     (case r of
        Inr snapshot \<Rightarrow> i @ '': '' @ state_slug @ (if snap_superstate snapshot = Closed then '' (archived)'' else [])
      | Inl e \<Rightarrow>
          (case e of
             NotFound _ \<Rightarrow> i @ '': error '' @ em_dash @ '' story not found or not open''
           | Validation _ \<Rightarrow> i @ '': error '' @ em_dash @ '' story not found or not open''
           | _ \<Rightarrow> i @ '': error '' @ em_dash @ '' '' @ display_error e))"

fun bulk_updates ::
  "Guards \<Rightarrow> catalog_map \<Rightarrow> (string \<times> string) list \<Rightarrow> string \<Rightarrow> Store \<Rightarrow> string list \<times> Store" where
  "bulk_updates g states [] at s = ([], s)"
| "bulk_updates g states ((i, state_slug) # rest) at s =
     (if \<not> btm_contains states state_slug
      then (let (lines, s') = bulk_updates g states rest at s in
        ((i @ '': error '' @ em_dash @ '' '' @ display_error (undefined_state_error state_slug states)) # lines, s'))
      else
        (let (r, s1) = set_state g i state_slug None None None at s;
             (lines, s2) = bulk_updates g states rest at s1
         in (update_line i state_slug r # lines, s2)))"

definition bulk_update ::
  "Guards \<Rightarrow> (string \<times> string) list \<Rightarrow> string \<Rightarrow> Store \<Rightarrow> string \<times> Store" where
  "bulk_update g updates at s =
     (let (lines, s') = bulk_updates g (catalog_of (st_states s)) updates at s in (join newline lines, s'))"

section \<open>Deleting\<close>

definition surviving_claims :: "int \<Rightarrow> string \<Rightarrow> Store \<Rightarrow> (string \<times> string) list" where
  "surviving_claims story canonical s =
     bset_collect (concat (map (\<lambda>(a, _).
       (case story_row s a of
          None \<Rightarrow> []
        | Some row \<Rightarrow> map (\<lambda>r. (to_id a (st_prefix s), relation r))
            (filter (\<lambda>r. other_id r = canonical) (snap_relationships (row_snapshot row))))) (relations_to s story)))"

fun retract_claims :: "Guards \<Rightarrow> (string \<times> string) list \<Rightarrow> string \<Rightarrow> string \<Rightarrow> Store \<Rightarrow> Store result" where
  "retract_claims g [] canonical at s = Inr s"
| "retract_claims g ((other, rel) # rest) canonical at s =
     result_bind (resolve_story other s) (\<lambda>(other_no, other_row).
     result_bind (append_and_fold g other_no (Exact (row_head_seq other_row))
        [StoryRelationshipRemoved at canonical rel] s) (\<lambda>(_, s).
       retract_claims g rest canonical at s))"

record StoryDeletePlan =
  dp_id :: string
  dp_title :: string
  dp_events :: int
  dp_retracted :: "(string \<times> string) list"

definition delete_plan :: "Guards \<Rightarrow> string \<Rightarrow> Store \<Rightarrow> StoryDeletePlan result" where
  "delete_plan g i s =
     result_bind (resolve_story i s) (\<lambda>(no, row).
     result_bind (guard_deletion g no) (\<lambda>_.
       (let canonical = to_id no (st_prefix s) in
        Inr \<lparr>dp_id = canonical, dp_title = snap_title (row_snapshot row), dp_events = int (length (stored_events s no)),
             dp_retracted = surviving_claims no canonical s\<rparr>)))"

definition delete_tx :: "Guards \<Rightarrow> string \<Rightarrow> string \<Rightarrow> Store \<Rightarrow> (StoryDeletePlan \<times> Store) result" where
  "delete_tx g i at s =
     result_bind (resolve_story i s) (\<lambda>(no, row).
     result_bind (guard_deletion g no) (\<lambda>_.
     let canonical = to_id no (st_prefix s);
         retracted = surviving_claims no canonical s
     in
     result_bind (retract_claims g retracted canonical at s) (\<lambda>s.
     result_bind (purge_story no s) (\<lambda>(removed, s).
       Inr (\<lparr>dp_id = canonical, dp_title = snap_title (row_snapshot row), dp_events = removed,
             dp_retracted = retracted\<rparr>, s)))))"

definition delete_message :: "StoryDeletePlan \<Rightarrow> string" where
  "delete_message d =
     ''deleted '' @ dp_id d @ '' '' @ em_dash @ '' '' @ dp_title d @ newline @ int_str (dp_events d) @ '' event''
     @ (if dp_events d = 1 then [] else ''s'') @ '' permanently deleted''
     @ concat (map (\<lambda>(other, rel). newline @ ''retracted '' @ other @ '' '' @ rel @ '' '' @ dp_id d) (dp_retracted d))
     @ newline @ dp_id d @ '' will never be reused as a story id''"

definition delete_story :: "Guards \<Rightarrow> string \<Rightarrow> string \<Rightarrow> Store \<Rightarrow> string result \<times> Store" where
  "delete_story g i at s =
     (case write_stories g (delete_tx g i at) s of
        (Inl e, s) \<Rightarrow> (Inl e, s)
      | (Inr d, s) \<Rightarrow> (Inr (delete_message d), s))"

section \<open>Reopening, archiving, publishing\<close>

definition reopen_tx :: "Guards \<Rightarrow> string \<Rightarrow> string \<Rightarrow> Store \<Rightarrow> ((StorySnapshot \<times> StorySnapshot) \<times> Store) result" where
  "reopen_tx g i at s =
     result_bind (resolve_story i s) (\<lambda>(no, row).
     result_bind (if st_automations s then refuse_epic_state_change (row_snapshot row) else Inr ()) (\<lambda>_.
     if \<not> row_archived row then Inl (Validation (''story `'' @ i @ ''` is already open''))
     else
       result_bind (required_open_state (st_states s)) (\<lambda>target.
       result_bind (append_and_fold g no (Exact (row_head_seq row)) [StoryStateChanged at (sd_slug target)] s)
         (\<lambda>(snapshot, s). Inr ((row_snapshot row, snapshot), s)))))"

definition reopen :: "Guards \<Rightarrow> string \<Rightarrow> string \<Rightarrow> Store \<Rightarrow> (StorySnapshot \<times> StorySnapshot) result \<times> Store" where
  "reopen g i at s = write_stories g (reopen_tx g i at) s"

definition hide_tx :: "Guards \<Rightarrow> string \<Rightarrow> string \<Rightarrow> Store \<Rightarrow> (StorySnapshot \<times> Store) result" where
  "hide_tx g i at s =
     result_bind (resolve_story i s) (\<lambda>(no, row).
     if snap_superstate (row_snapshot row) \<noteq> Closed
     then Inl (Validation (''story `'' @ i @ ''` is open; only a closed story can be archived''))
     else if snap_hidden_at (row_snapshot row) \<noteq> None then Inr (row_snapshot row, s)
     else append_and_fold g no (Exact (row_head_seq row)) [StoryHidden at] s)"

definition hide :: "Guards \<Rightarrow> string \<Rightarrow> string \<Rightarrow> Store \<Rightarrow> StorySnapshot result \<times> Store" where
  "hide g i at s = write_stories g (hide_tx g i at) s"

definition unhide_tx :: "Guards \<Rightarrow> string \<Rightarrow> string \<Rightarrow> Store \<Rightarrow> (StorySnapshot \<times> Store) result" where
  "unhide_tx g i at s =
     result_bind (resolve_story i s) (\<lambda>(no, row).
     if snap_hidden_at (row_snapshot row) = None then Inr (row_snapshot row, s)
     else append_and_fold g no (Exact (row_head_seq row)) [StoryUnhidden at] s)"

definition unhide :: "Guards \<Rightarrow> string \<Rightarrow> string \<Rightarrow> Store \<Rightarrow> StorySnapshot result \<times> Store" where
  "unhide g i at s = write_stories g (unhide_tx g i at) s"

definition publish_tx :: "Guards \<Rightarrow> string \<Rightarrow> string \<Rightarrow> Store \<Rightarrow> (StorySnapshot \<times> Store) result" where
  "publish_tx g i at s =
     result_bind (resolve_story i s) (\<lambda>(no, row).
     if \<not> snap_draft (row_snapshot row) then Inr (row_snapshot row, s)
     else append_and_fold g no (Exact (row_head_seq row)) [StoryPublished at] s)"

definition publish :: "Guards \<Rightarrow> string \<Rightarrow> string \<Rightarrow> Store \<Rightarrow> StorySnapshot result \<times> Store" where
  "publish g i at s = write_stories g (publish_tx g i at) s"

text \<open>The rows of a column come in the order of their story numbers.\<close>

definition archivable_occupants :: "string \<Rightarrow> Store \<Rightarrow> StoryRow list result" where
  "archivable_occupants state_slug s =
     (let states = catalog_of (st_states s) in
      case btm_get states state_slug of
        None \<Rightarrow> Inl (undefined_state_error state_slug states)
      | Some d \<Rightarrow>
          if sd_super d \<noteq> Closed
          then Inl (Validation (''state `'' @ state_slug @ ''` is open; only a closed-superstate column can be archived''))
          else Inr (filter (\<lambda>r. snap_state (row_snapshot r) = state_slug \<and> snap_hidden_at (row_snapshot r) = None)
            (btm_values (st_stories s))))"

definition hide_state_plan :: "string \<Rightarrow> Store \<Rightarrow> string list result" where
  "hide_state_plan state_slug s =
     result_bind (archivable_occupants state_slug s) (\<lambda>rows. Inr (map (\<lambda>r. to_id (row_no r) (st_prefix s)) rows))"

fun hide_rows :: "Guards \<Rightarrow> StoryRow list \<Rightarrow> string \<Rightarrow> Store \<Rightarrow> Store result" where
  "hide_rows g [] at s = Inr s"
| "hide_rows g (row # rest) at s =
     result_bind (append_and_fold g (row_no row) (Exact (row_head_seq row)) [StoryHidden at] s) (\<lambda>(_, s).
       hide_rows g rest at s)"

definition hide_state_tx :: "Guards \<Rightarrow> string \<Rightarrow> string \<Rightarrow> Store \<Rightarrow> (int list \<times> Store) result" where
  "hide_state_tx g state_slug at s =
     result_bind (archivable_occupants state_slug s) (\<lambda>rows.
     result_bind (hide_rows g rows at s) (\<lambda>s. Inr (map row_no rows, s)))"

definition hide_state :: "Guards \<Rightarrow> string \<Rightarrow> string \<Rightarrow> Store \<Rightarrow> string result \<times> Store" where
  "hide_state g state_slug at s =
     (case write_stories g (hide_state_tx g state_slug at) s of
        (Inl e, s) \<Rightarrow> (Inl e, s)
      | (Inr archived, s) \<Rightarrow>
          (Inr (''archived '' @ nat_str (length archived) @ '' stor'' @ (if length archived = 1 then ''y'' else ''ies'')
            @ '' from `'' @ state_slug @ ''`''), s))"

end
