(* ===== verification/Execution_Queue.thy ===== *)
theory Execution_Queue
  imports "HOL-Library.Product_Lexorder" Blocker_Floor Story_Admission
begin

text \<open>
  The queue of executable work (\<^verbatim>\<open>src/src/service/query.rs\<close>): the order in which a worker can take the
  stories of a project, each one executable once the ones before it are done.  A view enters the queue with
  its snapshot only; the facts a view carries beside it are not consulted.
\<close>

section \<open>The queue\<close>

record ReadyQueueFilters =
  rq_phase :: "string option"
  rq_epic :: "string option"
  rq_exclude_label :: "string option"

definition label_csv_values :: "(string \<Rightarrow> string) \<Rightarrow> string \<Rightarrow> string list" where
  "label_csv_values lower csv = normalize_labels lower [csv]"

definition queue_candidate ::
  "StateDef option \<Rightarrow> string option \<Rightarrow> string list option \<Rightarrow> string list \<Rightarrow> StorySnapshot \<Rightarrow> bool" where
  "queue_candidate active phase epic_descendants excluded_labels story \<longleftrightarrow>
     is_claimable story [] active
     \<and> \<not> is_human_only story
     \<and> (case phase of None \<Rightarrow> True | Some p \<Rightarrow> ''phase:'' @ p \<in> set (snap_labels story))
     \<and> (case epic_descendants of None \<Rightarrow> True | Some ids \<Rightarrow> snap_id story \<in> set ids)
     \<and> \<not> list_ex (\<lambda>label. label \<in> set (snap_labels story)) excluded_labels"

definition open_predecessors :: "story_map \<Rightarrow> StorySnapshot \<Rightarrow> string list" where
  "open_predecessors stories story =
     bset_collect (map other_id (filter (\<lambda>r. relation r = ''blocked-by''
       \<and> (case btm_get stories (other_id r) of None \<Rightarrow> False | Some blocker \<Rightarrow> snap_superstate blocker = Open))
       (snap_relationships story)))"

record QueueGraph =
  qg_counts :: "(string, nat) btree_map"
  qg_successors :: "(string, string list) btree_map"

definition add_candidate :: "story_map \<Rightarrow> string \<times> StorySnapshot \<Rightarrow> QueueGraph \<Rightarrow> QueueGraph" where
  "add_candidate stories c g =
     (let preds = open_predecessors stories (snd c) in
      \<lparr>qg_counts = btm_insert (fst c) (length preds) (qg_counts g),
       qg_successors = fold (\<lambda>p m. btm_entry p [] (bset_insert (fst c)) m) preds (qg_successors g)\<rparr>)"

type_synonym queue_key = "Priority \<times> Priority \<times> nat \<times> string"

definition queue_key :: "ReadyRanking \<Rightarrow> (string, StorySnapshot) btree_map \<Rightarrow> string \<Rightarrow> queue_key" where
  "queue_key ranking candidates i =
     (case btm_get candidates i of
        Some story \<Rightarrow> (ranking_effective ranking story, parent_epic_priority ranking story, story_number i, i)
      | None \<Rightarrow> (NoPriority, NoPriority, 0, i))"

record QueueState =
  qs_counts :: "(string, nat) btree_map"
  qs_frontier :: "queue_key list"

text \<open>
  One successor of a completed story.  Decrementing a count of zero would overflow the unsigned counter;
  \<open>successor_counts_positive\<close> below shows that no run of the queue does.
\<close>

definition release_successor :: "(string \<Rightarrow> queue_key) \<Rightarrow> string \<Rightarrow> QueueState \<Rightarrow> QueueState" where
  "release_successor key i q =
     (case btm_get (qs_counts q) i of
        None \<Rightarrow> q
      | Some count \<Rightarrow>
          q\<lparr>qs_counts := btm_insert i (count - 1) (qs_counts q),
            qs_frontier := (if 0 < count \<and> count - 1 = 0 then bset_insert (key i) (qs_frontier q) else qs_frontier q)\<rparr>)"

definition successors_of :: "(string, string list) btree_map \<Rightarrow> string \<Rightarrow> string list" where
  "successors_of successors i = (case btm_get successors i of None \<Rightarrow> [] | Some blocked \<Rightarrow> blocked)"

definition waiting :: "QueueState \<Rightarrow> string set" where
  "waiting q = {i. \<exists>count. btm_get (qs_counts q) i = Some count \<and> 0 < count}"

definition queue_measure :: "QueueState \<Rightarrow> nat" where
  "queue_measure q = length (qs_frontier q) + card (waiting q)"

lemma finite_waiting: "finite (waiting q)"
proof (rule finite_subset)
  show "waiting q \<subseteq> set (btm_keys (qs_counts q))" by (auto simp: waiting_def btm_keys_get)
qed simp

lemma length_bset_insert: "length (bset_insert x xs) \<le> Suc (length xs)"
  by (simp add: bset_insert_def insort_insert_key_def)

lemma release_measure: "queue_measure (release_successor key i q) \<le> queue_measure q"
proof (cases "btm_get (qs_counts q) i")
  case None
  then show ?thesis by (simp add: release_successor_def)
next
  case (Some count)
  have sub: "waiting (release_successor key i q) \<subseteq> waiting q"
    by (auto simp: waiting_def release_successor_def Some split: if_splits)
  show ?thesis
  proof (cases "count = 1")
    case True
    then have "i \<in> waiting q" "i \<notin> waiting (release_successor key i q)" by (auto simp: waiting_def release_successor_def Some)
    then have "card (waiting (release_successor key i q)) < card (waiting q)"
      using sub by (metis finite_waiting psubsetI psubset_card_mono)
    then show ?thesis using length_bset_insert [of "key i" "qs_frontier q"] True
      by (simp add: queue_measure_def release_successor_def Some)
  next
    case False
    then have "qs_frontier (release_successor key i q) = qs_frontier q" by (auto simp: release_successor_def Some)
    then show ?thesis using card_mono [OF finite_waiting sub] by (simp add: queue_measure_def)
  qed
qed

lemma release_all_measure: "queue_measure (fold (release_successor key) is q) \<le> queue_measure q"
proof (induction "is" arbitrary: q)
  case (Cons i "is")
  show ?case
    using order_trans [OF Cons.IH [of "release_successor key i q"] release_measure [of key i q]] by simp
qed simp

text \<open>The loop: take the first key of the frontier, append its story, release its successors.\<close>

function run_queue :: "(string \<Rightarrow> queue_key) \<Rightarrow> (string, string list) btree_map \<Rightarrow> QueueState \<Rightarrow> string list" where
  "run_queue key successors q =
     (case qs_frontier q of
        [] \<Rightarrow> []
      | (_, _, _, i) # rest \<Rightarrow>
          i # run_queue key successors (fold (release_successor key) (successors_of successors i) (q\<lparr>qs_frontier := rest\<rparr>)))"
  by pat_completeness auto

termination run_queue
proof (relation "measure (\<lambda>(_, _, q). queue_measure q)")
  fix key :: "string \<Rightarrow> queue_key" and successors :: "(string, string list) btree_map" and q :: QueueState
    and k a b i and rest :: "queue_key list" and x y z
  assume front: "qs_frontier q = k # rest"
  have "waiting (q\<lparr>qs_frontier := rest\<rparr>) = waiting q" by (simp add: waiting_def)
  then have "queue_measure (q\<lparr>qs_frontier := rest\<rparr>) < queue_measure q" by (simp add: queue_measure_def front)
  then show "((key, successors, fold (release_successor key) (successors_of successors i) (q\<lparr>qs_frontier := rest\<rparr>)), key, successors, q)
      \<in> measure (\<lambda>(_, _, q). queue_measure q)"
    using release_all_measure [of key "successors_of successors i" "q\<lparr>qs_frontier := rest\<rparr>"] by simp
qed simp

declare run_queue.simps [simp del]

definition queue_graph :: "story_map \<Rightarrow> (string, StorySnapshot) btree_map \<Rightarrow> QueueGraph" where
  "queue_graph stories candidates = fold (add_candidate stories) candidates \<lparr>qg_counts = [], qg_successors = []\<rparr>"

definition queue_start :: "(string \<Rightarrow> queue_key) \<Rightarrow> QueueGraph \<Rightarrow> QueueState" where
  "queue_start key g =
     \<lparr>qs_counts = qg_counts g,
      qs_frontier = fold (\<lambda>(i, count) f. if count = 0 then bset_insert (key i) f else f) (qg_counts g) []\<rparr>"

definition queue_candidates ::
  "StorySnapshot list \<Rightarrow> StateDef option \<Rightarrow> string option \<Rightarrow> string list option \<Rightarrow> string list
     \<Rightarrow> (string, StorySnapshot) btree_map" where
  "queue_candidates views active phase epic_descendants excluded_labels =
     btm_of_list (map (\<lambda>v. (snap_id v, v)) (filter (queue_candidate active phase epic_descendants excluded_labels) views))"

definition execution_queue ::
  "StorySnapshot list \<Rightarrow> story_map \<Rightarrow> StateDef option \<Rightarrow> string option \<Rightarrow> string list option \<Rightarrow> string list
     \<Rightarrow> StorySnapshot list" where
  "execution_queue views stories active phase epic_descendants excluded_labels =
     (let candidates = queue_candidates views active phase epic_descendants excluded_labels;
          g = queue_graph stories candidates;
          key = queue_key (ranking_new stories) candidates
      in List.map_filter (btm_get candidates) (run_queue key (qg_successors g) (queue_start key g)))"

section \<open>What the loop keeps\<close>

text \<open>Releasing a list of successors lowers each count by one and puts those that reach zero on the frontier.\<close>

lemma release_all:
  assumes "distinct is" and "\<And>i. i \<in> set is \<Longrightarrow> \<exists>c. btm_get (qs_counts q) i = Some (Suc c)" and "bset_ok (qs_frontier q)"
  shows "(\<forall>j. btm_get (qs_counts (fold (release_successor key) is q)) j
        = (if j \<in> set is then map_option (\<lambda>c. c - 1) (btm_get (qs_counts q) j) else btm_get (qs_counts q) j))
    \<and> set (qs_frontier (fold (release_successor key) is q))
        = set (qs_frontier q) \<union> key ` {i \<in> set is. btm_get (qs_counts q) i = Some 1}
    \<and> bset_ok (qs_frontier (fold (release_successor key) is q))"
  using assms
proof (induction "is" arbitrary: q)
  case (Cons i "is")
  obtain c where c: "btm_get (qs_counts q) i = Some (Suc c)" using Cons.prems(2) by auto
  let ?q = "release_successor key i q"
  have counts: "btm_get (qs_counts ?q) j = (if j = i then Some c else btm_get (qs_counts q) j)" for j
    by (simp add: release_successor_def c)
  have front: "set (qs_frontier ?q) = set (qs_frontier q) \<union> (if c = 0 then {key i} else {})"
    by (auto simp: release_successor_def c)
  have ok: "bset_ok (qs_frontier ?q)" using Cons.prems(3) by (simp add: release_successor_def c bset.ok_add)
  have i: "i \<notin> set is" "distinct is" using Cons.prems(1) by simp_all
  have rest: "\<exists>c. btm_get (qs_counts ?q) j = Some (Suc c)" if "j \<in> set is" for j
    using that Cons.prems(2) [of j] i by (auto simp: counts)
  have same: "{k \<in> set is. btm_get (qs_counts ?q) k = Some 1} = {k \<in> set is. btm_get (qs_counts q) k = Some 1}"
    using i by (auto simp: counts)
  note IH = Cons.IH [OF i(2) rest ok, unfolded same]
  have "{k \<in> set (i # is). btm_get (qs_counts q) k = Some 1}
      = {k \<in> set is. btm_get (qs_counts q) k = Some 1} \<union> (if c = 0 then {i} else {})" using c by auto
  then have "set (qs_frontier ?q) \<union> key ` {k \<in> set is. btm_get (qs_counts q) k = Some 1}
      = set (qs_frontier q) \<union> key ` {k \<in> set (i # is). btm_get (qs_counts q) k = Some 1}"
    unfolding front by auto
  then show ?case using IH i by (simp add: counts c)
qed simp

locale queue =
  fixes cands :: "string set" and preds :: "string \<Rightarrow> string set" and key :: "string \<Rightarrow> queue_key"
    and successors :: "(string, string list) btree_map"
  assumes finite_preds: "finite (preds i)"
    and key_id: "snd (snd (snd (key i))) = i"
    and succs: "set (successors_of successors p) = {i \<in> cands. p \<in> preds i}"
    and distinct_succs: "distinct (successors_of successors p)"
begin

definition left :: "string list \<Rightarrow> string \<Rightarrow> nat" where
  "left taken i = card (preds i - set taken)"

definition keeps :: "string list \<Rightarrow> QueueState \<Rightarrow> bool" where
  "keeps taken q \<longleftrightarrow>
     (\<forall>i. btm_get (qs_counts q) i = (if i \<in> cands then Some (left taken i) else None))
     \<and> bset_ok (qs_frontier q)
     \<and> set (qs_frontier q) = key ` {i \<in> cands. preds i \<subseteq> set taken \<and> i \<notin> set taken}
     \<and> set taken \<subseteq> cands \<and> distinct taken \<and> (\<forall>i \<in> set taken. preds i \<subseteq> set taken)"

lemma key_inject: "key i = key j \<longleftrightarrow> i = j"
  using key_id by metis

lemma left_zero: "left taken i = 0 \<longleftrightarrow> preds i \<subseteq> set taken"
  using finite_preds by (auto simp: left_def)

lemma left_snoc: "left (taken @ [j]) i = (if j \<in> preds i \<and> j \<notin> set taken then left taken i - 1 else left taken i)"
proof -
  have "preds i - set (taken @ [j]) = (preds i - set taken) - {j}" by auto
  then show ?thesis unfolding left_def using finite_preds [of i] by (simp add: card_Diff_singleton_if)
qed

definition available :: "string list \<Rightarrow> string \<Rightarrow> bool" where
  "available taken i \<longleftrightarrow> i \<in> cands \<and> preds i \<subseteq> set taken \<and> i \<notin> set taken"

lemma keeps_frontier: "keeps taken q \<Longrightarrow> set (qs_frontier q) = key ` {i. available taken i}"
  by (simp add: keeps_def available_def)

text \<open>The head of the frontier is the least story that is available.\<close>

lemma frontier_head:
  assumes "keeps taken q" and "qs_frontier q = (x, y, z, i) # rest"
  shows "available taken i" and "key i = (x, y, z, i)" and "\<And>j. available taken j \<Longrightarrow> j \<noteq> i \<Longrightarrow> key i < key j"
    and "set rest = key ` {j. available taken j \<and> j \<noteq> i}" and "bset_ok rest"
proof -
  have set: "set (qs_frontier q) = key ` {j. available taken j}" by (rule keeps_frontier [OF assms(1)])
  moreover have "(x, y, z, i) \<in> set (qs_frontier q)" by (simp add: assms(2))
  ultimately have "(x, y, z, i) \<in> key ` {j. available taken j}" by (simp only:)
  then obtain j where j: "available taken j" "key j = (x, y, z, i)" by auto
  have "j = i" using key_id [of j] j(2) by simp
  with j show avail: "available taken i" and key: "key i = (x, y, z, i)" by simp_all
  have ok: "bset_ok (qs_frontier q)" using assms(1) by (simp add: keeps_def)
  then show "bset_ok rest" by (simp add: bset_ok_def assms(2))
  have first: "\<forall>k \<in> set rest. key i < k" using ok by (simp add: bset_ok_def assms(2) key)
  have "key i \<notin> set rest" using first by blast
  then have "set rest = set (qs_frontier q) - {key i}" by (simp add: assms(2) key)
  also have "\<dots> = key ` {j. available taken j \<and> j \<noteq> i}" unfolding set using key_inject by auto
  finally show rest: "set rest = key ` {j. available taken j \<and> j \<noteq> i}" .
  show "key i < key j" if "available taken j" "j \<noteq> i" for j using that first rest by blast
qed

text \<open>No count that is decremented is zero: the subtraction of the code never overflows.\<close>

lemma left_positive: "i \<in> preds j \<Longrightarrow> i \<notin> set taken \<Longrightarrow> \<exists>c. left taken j = Suc c"
  using left_zero [of taken j] by (cases "left taken j") auto

lemma successor_counts_positive:
  assumes "keeps taken q" and "qs_frontier q = (x, y, z, i) # rest" and "j \<in> set (successors_of successors i)"
  shows "\<exists>c. btm_get (qs_counts q) j = Some (Suc c)"
proof -
  have "i \<notin> set taken" "j \<in> cands" "i \<in> preds j"
    using assms(3) frontier_head(1) [OF assms(1,2)] by (simp_all add: available_def succs)
  then show ?thesis using assms(1) left_positive [of i j taken] by (simp add: keeps_def)
qed

text \<open>One turn of the loop.\<close>

lemma keeps_step:
  assumes keeps: "keeps taken q" and front: "qs_frontier q = (x, y, z, i) # rest"
  defines "q' \<equiv> fold (release_successor key) (successors_of successors i) (q\<lparr>qs_frontier := rest\<rparr>)"
  shows "keeps (taken @ [i]) q'"
proof -
  note head = frontier_head [OF keeps front]
  have i: "i \<in> cands" "preds i \<subseteq> set taken" "i \<notin> set taken" using head(1) by (simp_all add: available_def)
  have counts: "btm_get (qs_counts q) j = (if j \<in> cands then Some (left taken j) else None)" for j
    using keeps by (simp add: keeps_def)
  have closed: "j \<in> set taken \<Longrightarrow> preds j \<subseteq> set taken" for j using keeps by (simp add: keeps_def)
  have ready: "\<exists>c. btm_get (qs_counts (q\<lparr>qs_frontier := rest\<rparr>)) j = Some (Suc c)" if "j \<in> set (successors_of successors i)" for j
    using successor_counts_positive [OF keeps front that] by simp
  have "bset_ok (qs_frontier (q\<lparr>qs_frontier := rest\<rparr>))" using head(5) by simp
  note after = release_all [OF distinct_succs [of i] ready this, where key = key, folded q'_def]
  have "btm_get (qs_counts q') j = (if j \<in> cands then Some (left (taken @ [i]) j) else None)" for j
    using after i(3) by (auto simp: succs counts left_snoc)
  moreover have "set (qs_frontier q') = key ` {j. available (taken @ [i]) j}"
  proof -
    have "left taken j = 1 \<longleftrightarrow> left (taken @ [i]) j = 0" if "i \<in> preds j" for j
      using left_positive [OF that i(3)] i(3) that by (auto simp: left_snoc)
    then have "{j \<in> set (successors_of successors i). left taken j = 1 \<and> j \<in> cands} = {j \<in> cands. i \<in> preds j \<and> left (taken @ [i]) j = 0}"
      by (auto simp: succs)
    moreover have "j \<notin> set taken" "j \<noteq> i" if "i \<in> preds j" for j using that closed i(2,3) by blast+
    ultimately have "{j. available taken j \<and> j \<noteq> i} \<union> {j \<in> set (successors_of successors i). left taken j = 1 \<and> j \<in> cands}
        = {j. available (taken @ [i]) j}"
      by (auto simp: available_def left_zero)
    moreover have "{j \<in> set (successors_of successors i). btm_get (qs_counts (q\<lparr>qs_frontier := rest\<rparr>)) j = Some 1}
        = {j \<in> set (successors_of successors i). left taken j = 1 \<and> j \<in> cands}" by (auto simp: counts)
    moreover have "set (qs_frontier q') = key ` {j. available taken j \<and> j \<noteq> i}
        \<union> key ` {j \<in> set (successors_of successors i). btm_get (qs_counts (q\<lparr>qs_frontier := rest\<rparr>)) j = Some 1}"
      using after head(4) by simp
    ultimately show ?thesis by (simp only: image_Un [symmetric])
  qed
  moreover have "distinct taken" "set taken \<subseteq> cands" using keeps by (simp_all add: keeps_def)
  moreover have "\<forall>j \<in> set (taken @ [i]). preds j \<subseteq> set (taken @ [i])" using closed i(2) by auto
  moreover have "bset_ok (qs_frontier q')" using after by blast
  ultimately show ?thesis using i unfolding keeps_def available_def by simp
qed

text \<open>The order of the queue, as a greedy choice: the least available story, until none is left.\<close>

fun greedy :: "string list \<Rightarrow> string list \<Rightarrow> bool" where
  "greedy taken [] \<longleftrightarrow> (\<forall>j. \<not> available taken j)"
| "greedy taken (i # rest) \<longleftrightarrow>
     available taken i \<and> (\<forall>j. available taken j \<and> j \<noteq> i \<longrightarrow> key i < key j) \<and> greedy (taken @ [i]) rest"

lemma run_queue_greedy: "keeps taken q \<Longrightarrow> greedy taken (run_queue key successors q)"
proof (induction "queue_measure q" arbitrary: q taken rule: less_induct)
  case less
  show ?case
  proof (cases "qs_frontier q")
    case Nil
    then show ?thesis using keeps_frontier [OF less.prems] by (auto simp: run_queue.simps [of key successors q])
  next
    case (Cons k rest)
    obtain x y z i where k: "k = (x, y, z, i)" by (cases k)
    note front = Cons [unfolded k]
    let ?q = "fold (release_successor key) (successors_of successors i) (q\<lparr>qs_frontier := rest\<rparr>)"
    have "queue_measure (q\<lparr>qs_frontier := rest\<rparr>) < queue_measure q" by (simp add: queue_measure_def waiting_def front)
    then have "queue_measure ?q < queue_measure q" using release_all_measure le_less_trans by blast
    then have "greedy (taken @ [i]) (run_queue key successors ?q)" using less.hyps keeps_step [OF less.prems front] by blast
    then show ?thesis using frontier_head(1,3) [OF less.prems front] by (simp add: run_queue.simps [of key successors q] front)
  qed
qed

lemma greedy_split:
  "greedy taken (before @ i # rest) \<Longrightarrow>
     available (taken @ before) i \<and> (\<forall>j. available (taken @ before) j \<and> j \<noteq> i \<longrightarrow> key i < key j)"
proof (induction before arbitrary: taken)
  case (Cons k before)
  then show ?case using Cons.IH [of "taken @ [k]"] by simp
qed simp

lemma greedy_end: "greedy taken xs \<Longrightarrow> \<not> available (taken @ xs) j"
proof (induction xs arbitrary: taken)
  case (Cons k xs)
  then show ?case using Cons.IH [of "taken @ [k]"] by simp
qed simp

end

text \<open>The stories that can be executed at all: candidates whose every open predecessor can be.\<close>

inductive executable :: "string set \<Rightarrow> (string \<Rightarrow> string set) \<Rightarrow> string \<Rightarrow> bool" for cands preds where
  "i \<in> cands \<Longrightarrow> (\<And>p. p \<in> preds i \<Longrightarrow> executable cands preds p) \<Longrightarrow> executable cands preds i"

context queue
begin

lemma greedy_executable:
  assumes "greedy taken xs" and "\<forall>i \<in> set taken. executable cands preds i" and "distinct taken"
  shows "(\<forall>i \<in> set xs. executable cands preds i) \<and> distinct (taken @ xs)"
  using assms
proof (induction xs arbitrary: taken)
  case (Cons i xs)
  have i: "i \<in> cands" "preds i \<subseteq> set taken" "i \<notin> set taken" using Cons.prems(1) by (simp_all add: available_def)
  have new: "executable cands preds i" by (rule executable.intros [OF i(1)]) (use i(2) Cons.prems(2) in blast)
  have "greedy (taken @ [i]) xs" using Cons.prems(1) by simp
  moreover have "\<forall>j \<in> set (taken @ [i]). executable cands preds j"
  proof
    show "executable cands preds j" if "j \<in> set (taken @ [i])" for j using that new Cons.prems(2) by (cases "j = i") simp_all
  qed
  moreover have "distinct (taken @ [i])" using Cons.prems(3) i(3) by simp
  ultimately have "(\<forall>j \<in> set xs. executable cands preds j) \<and> distinct ((taken @ [i]) @ xs)" by (rule Cons.IH)
  then show ?case using new by auto
qed simp

lemma greedy_members:
  assumes "greedy [] xs"
  shows "distinct xs" and "set xs = {i. executable cands preds i}"
proof -
  have fwd: "\<forall>i \<in> set xs. executable cands preds i" "distinct xs" using greedy_executable [OF assms] by simp_all
  show "distinct xs" by (rule fwd)
  have "i \<in> set xs" if "executable cands preds i" for i
    using that
  proof (induction rule: executable.induct)
    case (1 i)
    then have "i \<notin> set xs \<Longrightarrow> available xs i" by (auto simp: available_def)
    then show ?case using greedy_end [OF assms, of i] by auto
  qed
  then show "set xs = {i. executable cands preds i}" using fwd(1) by blast
qed

end

section \<open>The graph of the code\<close>

lemma successors_entry:
  "set (successors_of (btm_entry p [] (bset_insert i) m) p') = set (successors_of m p') \<union> (if p' = p then {i} else {})"
  by (auto simp: successors_of_def split: option.split)

lemma successors_entries:
  "set (successors_of (fold (\<lambda>p m. btm_entry p [] (bset_insert i) m) ps m) p') = set (successors_of m p') \<union> (if p' \<in> set ps then {i} else {})"
  by (induction ps arbitrary: m) (auto simp: successors_entry)

lemma successors_entries_ok:
  "(\<And>p. bset_ok (successors_of m p)) \<Longrightarrow> bset_ok (successors_of (fold (\<lambda>p m. btm_entry p [] (bset_insert i) m) ps m) p')"
proof (induction ps arbitrary: m)
  case (Cons q ps)
  have "bset_ok (successors_of (btm_entry q [] (bset_insert i) m) p)" for p
    using Cons.prems [of q] Cons.prems [of p] by (auto simp: successors_of_def bset.ok_add bset.ok_empty split: option.split option.split_asm)
  then show ?case using Cons.IH by simp
qed simp

lemma add_candidates:
  assumes "distinct (map fst cs)" and "\<And>p. bset_ok (successors_of (qg_successors g) p)"
  shows "btm_get (qg_counts (fold (add_candidate stories) cs g)) i = (case map_of cs i of
        Some v \<Rightarrow> Some (length (open_predecessors stories v)) | None \<Rightarrow> btm_get (qg_counts g) i)
    \<and> set (successors_of (qg_successors (fold (add_candidate stories) cs g)) p)
        = set (successors_of (qg_successors g) p) \<union> {k. \<exists>v. map_of cs k = Some v \<and> p \<in> set (open_predecessors stories v)}
    \<and> bset_ok (successors_of (qg_successors (fold (add_candidate stories) cs g)) p)"
  using assms
proof (induction cs arbitrary: g)
  case (Cons c cs)
  obtain k v where c: "c = (k, v)" by (cases c)
  let ?g = "add_candidate stories c g"
  have k: "map_of cs k = None" "distinct (map fst cs)" using Cons.prems(1) by (simp_all add: c map_of_eq_None_iff)
  have g: "btm_get (qg_counts ?g) i = (if i = k then Some (length (open_predecessors stories v)) else btm_get (qg_counts g) i)"
    "set (successors_of (qg_successors ?g) p) = set (successors_of (qg_successors g) p) \<union> (if p \<in> set (open_predecessors stories v) then {k} else {})"
    for i p by (simp_all add: add_candidate_def c Let_def successors_entries)
  have ok: "bset_ok (successors_of (qg_successors ?g) p)" for p
    using successors_entries_ok [OF Cons.prems(2)] by (simp add: add_candidate_def c Let_def)
  have "{j. \<exists>u. map_of (c # cs) j = Some u \<and> p \<in> set (open_predecessors stories u)}
      = {j. \<exists>u. map_of cs j = Some u \<and> p \<in> set (open_predecessors stories u)} \<union> (if p \<in> set (open_predecessors stories v) then {k} else {})"
    using k(1) by (auto simp: c)
  moreover have "fold (add_candidate stories) (c # cs) g = fold (add_candidate stories) cs ?g" by simp
  moreover have "btm_get (qg_counts (fold (add_candidate stories) cs ?g)) i = (case map_of (c # cs) i of
      Some u \<Rightarrow> Some (length (open_predecessors stories u)) | None \<Rightarrow> btm_get (qg_counts g) i)"
    using Cons.IH [OF k(2) ok] k(1) g(1) by (simp add: c split: option.split)
  ultimately show ?case using Cons.IH [OF k(2) ok] g(2) by (simp only: Un_assoc Un_commute simp_thms)
qed simp

section \<open>The queue of a project\<close>

definition candidate_ids :: "(string, StorySnapshot) btree_map \<Rightarrow> string set" where
  "candidate_ids candidates = {i. btm_get candidates i \<noteq> None}"

definition waits_on :: "story_map \<Rightarrow> (string, StorySnapshot) btree_map \<Rightarrow> string \<Rightarrow> string set" where
  "waits_on stories candidates i =
     (case btm_get candidates i of None \<Rightarrow> {} | Some story \<Rightarrow> set (open_predecessors stories story))"

lemma graph_of_candidates:
  assumes "btm_ok candidates"
  shows "btm_get (qg_counts (queue_graph stories candidates)) i
      = map_option (\<lambda>v. length (open_predecessors stories v)) (btm_get candidates i)"
    and "set (successors_of (qg_successors (queue_graph stories candidates)) p)
      = {i \<in> candidate_ids candidates. p \<in> waits_on stories candidates i}"
    and "bset_ok (successors_of (qg_successors (queue_graph stories candidates)) p)"
proof -
  let ?g = "\<lparr>qg_counts = [], qg_successors = []\<rparr> :: QueueGraph"
  have keys: "distinct (map fst candidates)" using assms by (simp add: btm_ok_def strict_sorted_iff)
  have empty: "successors_of (qg_successors ?g) p = []" for p by (simp add: successors_of_def)
  have start: "bset_ok (successors_of (qg_successors ?g) p)" for p unfolding empty by (rule bset.ok_empty)
  note all = add_candidates [OF keys start, of stories, folded queue_graph_def]
  show "btm_get (qg_counts (queue_graph stories candidates)) i
      = map_option (\<lambda>v. length (open_predecessors stories v)) (btm_get candidates i)"
    using all by (simp add: btm_get_def split: option.split)
  show "bset_ok (successors_of (qg_successors (queue_graph stories candidates)) p)" using all by blast
  have "set (successors_of (qg_successors (queue_graph stories candidates)) p)
      = {k. \<exists>v. map_of candidates k = Some v \<and> p \<in> set (open_predecessors stories v)}"
    using all empty by simp
  then show "set (successors_of (qg_successors (queue_graph stories candidates)) p)
      = {i \<in> candidate_ids candidates. p \<in> waits_on stories candidates i}"
    by (auto simp: candidate_ids_def waits_on_def btm_get_def split: option.splits)
qed

lemma graph_counts_ok: "btm_ok (qg_counts (queue_graph stories candidates))"
proof -
  have "btm_ok (qg_counts g) \<Longrightarrow> btm_ok (qg_counts (fold (add_candidate stories) cs g))" for cs g
    by (induction cs arbitrary: g) (simp_all add: add_candidate_def Let_def btm_ok_insert)
  then show ?thesis by (simp add: queue_graph_def btm_ok_def)
qed

lemma queue_key_id: "snd (snd (snd (queue_key ranking candidates i))) = i"
  by (simp add: queue_key_def split: option.split)

interpretation work: queue "candidate_ids (btm_of_list kvs)" "waits_on stories (btm_of_list kvs)" "queue_key ranking (btm_of_list kvs)"
  "qg_successors (queue_graph stories (btm_of_list kvs))" for stories ranking kvs
proof unfold_locales
  show "finite (waits_on stories (btm_of_list kvs) i)" for i by (simp add: waits_on_def split: option.split)
  show "snd (snd (snd (queue_key ranking (btm_of_list kvs) i))) = i" for i by (rule queue_key_id)
  fix p
  note graph = graph_of_candidates(2,3) [OF btm_ok_of_list]
  show "set (successors_of (qg_successors (queue_graph stories (btm_of_list kvs))) p)
      = {i \<in> candidate_ids (btm_of_list kvs). p \<in> waits_on stories (btm_of_list kvs) i}" by (rule graph)
  show "distinct (successors_of (qg_successors (queue_graph stories (btm_of_list kvs))) p)" using graph(2) by (simp add: bset_ok_alt)
qed

lemma start_frontier:
  "bset_ok f \<Longrightarrow> bset_ok (fold (\<lambda>(i, count) f. if count = 0 then bset_insert (key i) f else f) cs f)
    \<and> set (fold (\<lambda>(i, count) f. if count = (0 :: nat) then bset_insert (key i) f else f) cs f) = set f \<union> key ` {i. (i, 0) \<in> set cs}"
proof (induction cs arbitrary: f)
  case (Cons c cs)
  obtain i count where c: "c = (i, count)" by (cases c)
  have "{j. (j, 0) \<in> set (c # cs)} = {j. (j, 0) \<in> set cs} \<union> (if count = 0 then {i} else {})" by (auto simp: c)
  then show ?case using Cons.IH [of "if count = 0 then bset_insert (key i) f else f"] Cons.prems
    by (auto simp: c bset.ok_add)
qed simp

lemma keeps_start:
  "work.keeps kvs stories ranking [] (queue_start (queue_key ranking (btm_of_list kvs)) (queue_graph stories (btm_of_list kvs)))"
proof -
  let ?m = "btm_of_list kvs" and ?key = "queue_key ranking (btm_of_list kvs)"
  let ?g = "queue_graph stories ?m"
  have len: "length (open_predecessors stories v) = card (set (open_predecessors stories v))" for v
  proof -
    have "bset_ok (open_predecessors stories v)" by (simp add: open_predecessors_def)
    then have "distinct (open_predecessors stories v)" by (simp add: bset_ok_alt)
    then show ?thesis by (rule distinct_card [symmetric])
  qed
  have counts: "btm_get (qg_counts ?g) i = (if i \<in> candidate_ids ?m then Some (work.left stories kvs [] i) else None)" for i
    using graph_of_candidates(1) [OF btm_ok_of_list, where stories = stories and i = i]
    by (auto simp: candidate_ids_def work.left_def waits_on_def len)
  have "{i. (i, 0) \<in> set (qg_counts ?g)} = {i \<in> candidate_ids ?m. waits_on stories ?m i \<subseteq> {}}"
    unfolding btm_get_mem [OF graph_counts_ok] counts using work.left_zero [of stories kvs "[]"] by auto
  moreover have "bset_ok ([] :: queue_key list)" by (rule bset.ok_empty)
  ultimately show ?thesis
    using start_frontier [of "[]" ?key "qg_counts ?g"] counts unfolding work.keeps_def queue_start_def by simp
qed

text \<open>What the loop returns for a set of candidates.\<close>

abbreviation queue_of :: "story_map \<Rightarrow> (string \<times> StorySnapshot) list \<Rightarrow> string list" where
  "queue_of stories kvs \<equiv>
     run_queue (queue_key (ranking_new stories) (btm_of_list kvs)) (qg_successors (queue_graph stories (btm_of_list kvs)))
       (queue_start (queue_key (ranking_new stories) (btm_of_list kvs)) (queue_graph stories (btm_of_list kvs)))"

lemma queue_of_greedy: "work.greedy kvs stories (ranking_new stories) [] (queue_of stories kvs)"
  by (rule work.run_queue_greedy [OF keeps_start])

lemma executable_candidate: "executable C P i \<Longrightarrow> i \<in> C"
  by (induction rule: executable.induct)

lemma candidates_get:
  assumes "distinct (map snap_id views)"
  shows "btm_get (queue_candidates views active phase ids excluded) i = Some v
    \<longleftrightarrow> v \<in> set views \<and> queue_candidate active phase ids excluded v \<and> snap_id v = i"
proof -
  let ?kvs = "map (\<lambda>v. (snap_id v, v)) (filter (queue_candidate active phase ids excluded) views)"
  have "map fst (rev ?kvs) = rev (map snap_id (filter (queue_candidate active phase ids excluded) views))"
    by (simp add: rev_map comp_def)
  moreover have "distinct (map snap_id (filter (queue_candidate active phase ids excluded) views))"
    by (rule distinct_map_filter [OF assms])
  ultimately have "distinct (map fst (rev ?kvs))" by simp
  from map_of_eq_Some_iff [OF this] show ?thesis
    unfolding queue_candidates_def btm_get_of_list by auto
qed

lemma candidate_key:
  assumes "btm_get (btm_of_list (map (\<lambda>v. (snap_id v, v)) vs)) i = Some v"
  shows "snap_id v = i" and "v \<in> set vs"
  using assms unfolding btm_get_of_list by (auto dest!: map_of_SomeD)

text \<open>The keys of the frontier are ordered as ready work is.\<close>

lemma key_order:
  assumes "btm_get candidates i = Some v" and "btm_get candidates j = Some w" and "snap_id v = i" and "snap_id w = j"
  shows "queue_key r candidates i < queue_key r candidates j \<longleftrightarrow> ready_order v w r = Less"
  using assms by (auto simp: queue_key_def ready_order_cases less_prod_def)

lemma execution_queue_map:
  "map snap_id (execution_queue views stories active phase ids excluded)
     = queue_of stories (map (\<lambda>v. (snap_id v, v)) (filter (queue_candidate active phase ids excluded) views))"
  "s \<in> set (execution_queue views stories active phase ids excluded)
     \<Longrightarrow> btm_get (queue_candidates views active phase ids excluded) (snap_id s) = Some s"
proof -
  let ?vs = "filter (queue_candidate active phase ids excluded) views"
  let ?kvs = "map (\<lambda>v. (snap_id v, v)) ?vs"
  let ?get = "btm_get (btm_of_list ?kvs)"
  have q: "execution_queue views stories active phase ids excluded = List.map_filter ?get (queue_of stories ?kvs)"
    by (simp add: execution_queue_def queue_candidates_def Let_def)
  have in_cands: "\<exists>v. ?get i = Some v" if "i \<in> set (queue_of stories ?kvs)" for i
  proof -
    have "executable (candidate_ids (btm_of_list ?kvs)) (waits_on stories (btm_of_list ?kvs)) i"
      using work.greedy_members(2) [OF queue_of_greedy [of ?kvs stories]] that by blast
    then have "i \<in> candidate_ids (btm_of_list ?kvs)" by (rule executable_candidate)
    then show ?thesis by (simp add: candidate_ids_def)
  qed
  have "(\<forall>i \<in> set is. \<exists>v. ?get i = Some v) \<Longrightarrow> map snap_id (List.map_filter ?get is) = is" for "is"
    by (induction "is") (auto simp: List.map_filter_simps dest: candidate_key(1))
  then show "map snap_id (execution_queue views stories active phase ids excluded) = queue_of stories ?kvs"
    unfolding q using in_cands by blast
  show "btm_get (queue_candidates views active phase ids excluded) (snap_id s) = Some s"
    if "s \<in> set (execution_queue views stories active phase ids excluded)"
  proof -
    obtain i where i: "?get i = Some s" using \<open>s \<in> _\<close> unfolding q by (auto simp: List.map_filter_def)
    then have "snap_id s = i" by (rule candidate_key)
    then show ?thesis using i by (simp add: queue_candidates_def)
  qed
qed

section \<open>What a worker is told to do next\<close>

lemma ready_now: "is_claimable s stories active \<longleftrightarrow> is_claimable s [] active \<and> open_predecessors stories s = []"
proof -
  have "open_predecessors stories s = [] \<longleftrightarrow> set (open_predecessors stories s) = {}" by simp
  also have "\<dots> \<longleftrightarrow> (\<forall>r \<in> set (snap_relationships s). relation r = ''blocked-by'' \<longrightarrow>
      (case btm_get stories (other_id r) of None \<Rightarrow> True | Some b \<Rightarrow> snap_superstate b \<noteq> Open))"
    by (auto simp: open_predecessors_def split: option.splits)
  finally show ?thesis
    by (auto simp: is_claimable_def is_ready_def is_blocked_def list_ex_iff index_story_def split: option.splits)
qed

lemma queue_exact:
  "distinct (map snap_id (execution_queue views stories active phase ids excluded))
    \<and> set (map snap_id (execution_queue views stories active phase ids excluded))
        = {i. executable (candidate_ids (queue_candidates views active phase ids excluded))
                (waits_on stories (queue_candidates views active phase ids excluded)) i}"
  using work.greedy_members [OF queue_of_greedy] unfolding execution_queue_map(1) queue_candidates_def by blast

text \<open>
  C14. The queue hands out each story at most once, and exactly the candidates that can be executed: those
  whose open blockers can all be executed, recursively.  Work behind a blocker outside the queue, or behind a
  cycle, is left out.
\<close>

theorem execution_queue_exact:
  "distinct (map snap_id (execution_queue views stories active phase ids excluded))
    \<and> set (map snap_id (execution_queue views stories active phase ids excluded))
        = {i. executable (candidate_ids (queue_candidates views active phase ids excluded))
                (waits_on stories (queue_candidates views active phase ids excluded)) i}"
  by (rule queue_exact)

lemma queue_choice:
  assumes "distinct (map snap_id views)" and "execution_queue views stories active phase ids excluded = before @ s # rest"
  shows "s \<in> set views \<and> queue_candidate active phase ids excluded s
    \<and> set (open_predecessors stories s) \<subseteq> snap_id ` set before
    \<and> (\<forall>t \<in> set views. queue_candidate active phase ids excluded t \<and> t \<noteq> s \<and> snap_id t \<notin> snap_id ` set before
          \<and> set (open_predecessors stories t) \<subseteq> snap_id ` set before
        \<longrightarrow> ready_order s t (ranking_new stories) = Less)"
proof -
  let ?kvs = "map (\<lambda>v. (snap_id v, v)) (filter (queue_candidate active phase ids excluded) views)"
  let ?C = "queue_candidates views active phase ids excluded"
  have C: "?C = btm_of_list ?kvs" by (simp add: queue_candidates_def)
  have get: "btm_get ?C i = Some v \<longleftrightarrow> v \<in> set views \<and> queue_candidate active phase ids excluded v \<and> snap_id v = i" for i v
    by (rule candidates_get [OF assms(1)])
  have "queue_of stories ?kvs = map snap_id before @ snap_id s # map snap_id rest"
    using execution_queue_map(1) [of views stories active phase ids excluded] assms(2) by simp
  with queue_of_greedy [of ?kvs stories] have "work.greedy ?kvs stories (ranking_new stories) [] (map snap_id before @ snap_id s # map snap_id rest)"
    by simp
  from work.greedy_split [OF this] have avail: "work.available ?kvs stories (map snap_id before) (snap_id s)"
    and least: "\<And>j. work.available ?kvs stories (map snap_id before) j \<Longrightarrow> j \<noteq> snap_id s
      \<Longrightarrow> queue_key (ranking_new stories) ?C (snap_id s) < queue_key (ranking_new stories) ?C j"
    by (simp_all add: C)
  have s: "btm_get ?C (snap_id s) = Some s" by (rule execution_queue_map(2) [where stories = stories]) (simp add: assms(2))
  have "ready_order s t (ranking_new stories) = Less"
    if t: "t \<in> set views" "queue_candidate active phase ids excluded t" "t \<noteq> s" "snap_id t \<notin> snap_id ` set before"
      "set (open_predecessors stories t) \<subseteq> snap_id ` set before" for t
  proof -
    have gt: "btm_get ?C (snap_id t) = Some t" using get t(1,2) by blast
    have "work.available ?kvs stories (map snap_id before) (snap_id t)"
      using gt t(4,5) unfolding work.available_def by (simp add: C candidate_ids_def waits_on_def)
    moreover have "snap_id t \<noteq> snap_id s" using gt s t(3) by auto
    ultimately show ?thesis using least key_order [OF s gt refl refl] by blast
  qed
  moreover have "set (open_predecessors stories s) \<subseteq> snap_id ` set before"
    using avail s unfolding work.available_def by (simp add: C waits_on_def)
  ultimately show ?thesis using s get by blast
qed

text \<open>
  C15. The order of the queue is forced: wherever it is cut, every open blocker of the next story comes
  before the cut, and the next story is the first, in the order of ready work, among all candidates not yet
  taken whose open blockers are.
\<close>

theorem execution_queue_order:
  assumes "distinct (map snap_id views)" and "execution_queue views stories active phase ids excluded = before @ s # rest"
  shows "set (open_predecessors stories s) \<subseteq> snap_id ` set before
    \<and> (\<forall>t \<in> set views. queue_candidate active phase ids excluded t \<and> t \<noteq> s \<and> snap_id t \<notin> snap_id ` set before
          \<and> set (open_predecessors stories t) \<subseteq> snap_id ` set before
        \<longrightarrow> ready_order s t (ranking_new stories) = Less)"
  using queue_choice [OF assms] by blast

definition offered :: "story_map \<Rightarrow> StateDef option \<Rightarrow> string option \<Rightarrow> string list option \<Rightarrow> string list \<Rightarrow> StorySnapshot \<Rightarrow> bool" where
  "offered stories active phase ids excluded s \<longleftrightarrow> queue_candidate active phase ids excluded s \<and> is_claimable s stories active"

lemma queue_head:
  assumes "distinct (map snap_id views)"
  shows "case execution_queue views stories active phase ids excluded of
      [] \<Rightarrow> \<not> (\<exists>t \<in> set views. offered stories active phase ids excluded t)
    | s # _ \<Rightarrow> s \<in> set views \<and> offered stories active phase ids excluded s
        \<and> (\<forall>t \<in> set views. offered stories active phase ids excluded t \<and> t \<noteq> s \<longrightarrow> ready_order s t (ranking_new stories) = Less)"
proof (cases "execution_queue views stories active phase ids excluded")
  case Nil
  have "\<not> offered stories active phase ids excluded t" if t: "t \<in> set views" for t
  proof
    assume off: "offered stories active phase ids excluded t"
    let ?C = "queue_candidates views active phase ids excluded"
    have "btm_get ?C (snap_id t) = Some t" using off t candidates_get [OF assms] by (auto simp: offered_def)
    moreover have "open_predecessors stories t = []" using off ready_now [of t stories active] by (simp add: offered_def)
    ultimately have now: "snap_id t \<in> candidate_ids ?C" "waits_on stories ?C (snap_id t) = {}" by (simp_all add: candidate_ids_def waits_on_def)
    have "executable (candidate_ids ?C) (waits_on stories ?C) (snap_id t)" by (rule executable.intros [OF now(1)]) (simp add: now(2))
    then show False using queue_exact [of views stories active phase ids excluded] Nil by auto
  qed
  then show ?thesis using Nil by simp
next
  case (Cons s rest)
  have "execution_queue views stories active phase ids excluded = [] @ s # rest" using Cons by simp
  note choice = queue_choice [OF assms this]
  have "is_claimable t [] active" if "queue_candidate active phase ids excluded t" for t using that by (simp add: queue_candidate_def)
  then have offered: "offered stories active phase ids excluded t
      \<longleftrightarrow> queue_candidate active phase ids excluded t \<and> open_predecessors stories t = []" for t
    using ready_now [of t stories active] by (auto simp: offered_def)
  have "open_predecessors stories s = []" using choice by simp
  then have s: "s \<in> set views" "offered stories active phase ids excluded s" using choice by (simp_all add: offered)
  have least: "ready_order s t (ranking_new stories) = Less"
    if "t \<in> set views" "offered stories active phase ids excluded t" "t \<noteq> s" for t
  proof -
    have "queue_candidate active phase ids excluded t" "set (open_predecessors stories t) \<subseteq> snap_id ` set []"
      using that(2) by (simp_all add: offered)
    moreover have "snap_id t \<notin> snap_id ` set []" by simp
    ultimately show ?thesis using choice that(1,3) by blast
  qed
  show ?thesis unfolding Cons list.case using s least by blast
qed

section \<open>A backlog, queued\<close>

definition queue_story :: "string \<Rightarrow> Priority \<Rightarrow> StoryRelation list \<Rightarrow> StorySnapshot" where
  "queue_story i p rels = (bare_story i rels)\<lparr>snap_priority := p, snap_priority_assessed := True\<rparr>"

text \<open>
  \<open>SH-1\<close> waits on \<open>SH-4\<close>, \<open>SH-2\<close> and \<open>SH-3\<close> wait on each other, \<open>SH-4\<close> and \<open>SH-5\<close> are free, and
  \<open>SH-6\<close> is for a person.
\<close>

definition queue_stories :: "StorySnapshot list" where
  "queue_stories =
     [queue_story ''SH-1'' High [StoryRelation ''blocked-by'' ''SH-4''], queue_story ''SH-2'' Critical [StoryRelation ''blocked-by'' ''SH-3''],
      queue_story ''SH-3'' Low [StoryRelation ''blocked-by'' ''SH-2''], queue_story ''SH-4'' Low [], queue_story ''SH-5'' Medium [],
      (queue_story ''SH-6'' Critical [])\<lparr>snap_labels := [LABEL_HUMAN_ONLY]\<rparr>]"

lemma queue_distinct: "distinct (map snap_id queue_stories)"
  by code_simp

lemma queue_sample: "execution_queue queue_stories (keyed_stories queue_stories) None None None []
    = [queue_story ''SH-4'' Low []] @ queue_story ''SH-1'' High [StoryRelation ''blocked-by'' ''SH-4''] # [queue_story ''SH-5'' Medium []]"
  by code_simp

theorem execution_queue_order_witness:
  "set (open_predecessors (keyed_stories queue_stories) (queue_story ''SH-1'' High [StoryRelation ''blocked-by'' ''SH-4''])) \<subseteq> {''SH-4''}"
  using execution_queue_order [OF queue_distinct queue_sample] by (simp add: queue_story_def bare_story_def)

end
