(* ===== verification/Ready_Service.thy ===== *)
theory Ready_Service
  imports Story_Service Execution_Queue
begin

text \<open>
  Taking the next piece of work (\<^verbatim>\<open>src/src/service/query.rs\<close> and \<^verbatim>\<open>src/src/service/story.rs\<close>): the head of the
  execution queue over the views of the store, and the claim that selects and moves a story in one transaction,
  with its dry run.  A view is its snapshot; the facts the service puts beside it do not enter the queue.
\<close>

section \<open>The next stories\<close>

text \<open>The stories an unfinished reset owns; the first failing look-up is the error of the whole.\<close>

fun reset_rows :: "Guards \<Rightarrow> StoryRow list \<Rightarrow> string list result" where
  "reset_rows g [] = Inr []"
| "reset_rows g (row # rows) =
     result_bind (guard_resets g (row_no row)) (\<lambda>held.
     result_bind (reset_rows g rows) (\<lambda>ids. Inr (if held then snap_id (row_snapshot row) # ids else ids)))"

definition reset_ids :: "Guards \<Rightarrow> Store \<Rightarrow> string list result" where
  "reset_ids g s = result_bind (reset_rows g (btm_values (st_stories s))) (\<lambda>ids. Inr (bset_collect ids))"

definition view_map :: "StorySnapshot list \<Rightarrow> story_map" where
  "view_map views = btm_of_list (map (\<lambda>v. (snap_id v, v)) views)"

definition epic_scope :: "string option \<Rightarrow> story_map \<Rightarrow> string list option result" where
  "epic_scope epic stories =
     (case epic of
        None \<Rightarrow> Inr None
      | Some i \<Rightarrow>
          (case btm_get stories i of
             None \<Rightarrow> Inl (NotFound (''story `'' @ i @ ''` not found''))
           | Some story \<Rightarrow>
               if \<not> is_epic story then Inl (Validation (''story `'' @ i @ ''` is not an epic''))
               else Inr (Some (descendant_ids stories i))))"

definition excluded_labels :: "Guards \<Rightarrow> ReadyQueueFilters \<Rightarrow> string list" where
  "excluded_labels g filters =
     (case rq_exclude_label filters of None \<Rightarrow> [] | Some csv \<Rightarrow> label_csv_values (guard_lower g) csv)"

definition next_filtered :: "Guards \<Rightarrow> nat \<Rightarrow> ReadyQueueFilters \<Rightarrow> Store \<Rightarrow> StorySnapshot list result" where
  "next_filtered g count filters s =
     (let views = btm_values (store_story_map s); stories = view_map views; active = active_state (st_states s) in
      result_bind (epic_scope (rq_epic filters) stories) (\<lambda>descendants.
      result_bind (reset_ids g s) (\<lambda>reserved.
        Inr (take count (execution_queue (filter (\<lambda>v. snap_id v \<notin> set reserved) views) stories active
          (rq_phase filters) descendants (excluded_labels g filters))))))"

section \<open>Claiming the next story\<close>

definition claim_next_tx ::
  "Guards \<Rightarrow> ReadyQueueFilters \<Rightarrow> string option \<Rightarrow> (Store \<Rightarrow> bool result)
     \<Rightarrow> (StorySnapshot \<Rightarrow> StorySnapshot \<Rightarrow> Store \<Rightarrow> Store result) \<Rightarrow> string \<Rightarrow> Store
     \<Rightarrow> ((StorySnapshot \<times> StorySnapshot) option \<times> Store) result" where
  "claim_next_tx g filters comment eligible after_claim at s =
     result_bind (eligible s) (\<lambda>go.
     if \<not> go then Inr (None, s)
     else
       result_bind (require_active s) (\<lambda>active.
       result_bind (next_filtered g 1 filters s) (\<lambda>views.
       case views of
         [] \<Rightarrow> Inr (None, s)
       | candidate # _ \<Rightarrow>
           result_bind (resolve_open_story (snap_id candidate) s) (\<lambda>(no, row).
           result_bind (append_and_fold g no (Exact (row_head_seq row))
              (state_transition_events active (snap_awaiting (row_snapshot row) \<noteq> None) at (claim_comment_events comment at)) s)
             (\<lambda>(snapshot, s).
           result_bind (after_claim (row_snapshot row) snapshot s) (\<lambda>s.
             Inr (Some (row_snapshot row, snapshot), s)))))))"

definition claim_next_filtered_if ::
  "Guards \<Rightarrow> ReadyQueueFilters \<Rightarrow> string option \<Rightarrow> (Store \<Rightarrow> bool result)
     \<Rightarrow> (StorySnapshot \<Rightarrow> StorySnapshot \<Rightarrow> Store \<Rightarrow> Store result) \<Rightarrow> string \<Rightarrow> Store
     \<Rightarrow> (StorySnapshot \<times> StorySnapshot) option result \<times> Store" where
  "claim_next_filtered_if g filters comment eligible after_claim at s =
     write_stories g (claim_next_tx g filters comment eligible after_claim at) s"

definition claim_next_filtered ::
  "Guards \<Rightarrow> ReadyQueueFilters \<Rightarrow> string option \<Rightarrow> string \<Rightarrow> Store
     \<Rightarrow> (StorySnapshot \<times> StorySnapshot) option result \<times> Store" where
  "claim_next_filtered g filters comment at s =
     claim_next_filtered_if g filters comment (\<lambda>_. Inr True) (\<lambda>_ _ s. Inr s) at s"

definition plan_claim_next_filtered :: "Guards \<Rightarrow> ReadyQueueFilters \<Rightarrow> Store \<Rightarrow> ClaimPlan option result" where
  "plan_claim_next_filtered g filters s =
     result_bind (require_active s) (\<lambda>active.
     result_bind (next_filtered g 1 filters s) (\<lambda>views.
     Inr (case views of
            [] \<Rightarrow> None
          | candidate # _ \<Rightarrow>
              Some \<lparr>cp_id = snap_id candidate, cp_from = snap_state candidate, cp_to = sd_slug active\<rparr>)))"

text \<open>What a claim of the next story is made of.\<close>

lemma claim_next_steps:
  assumes "claim_next_tx g filters comment eligible after_claim at s = Inr (x, s')"
  obtains (none) "x = None" and "s' = s"
  | (claimed) active candidate rest no row after u where "x = Some (row_snapshot row, after)"
      and "require_active s = Inr active" and "next_filtered g 1 filters s = Inr (candidate # rest)"
      and "resolve_open_story (snap_id candidate) s = Inr (no, row)"
      and "append_and_fold g no (Exact (row_head_seq row))
          (state_transition_events active (snap_awaiting (row_snapshot row) \<noteq> None) at (claim_comment_events comment at)) s
            = Inr (after, u)"
      and "after_claim (row_snapshot row) after u = Inr s'"
proof -
  obtain go where go: "eligible s = Inr go" using assms by (auto simp: claim_next_tx_def result_bind_eq_Inr)
  show thesis
  proof (cases go)
    case False
    then show thesis using assms go none by (simp add: claim_next_tx_def)
  next
    case True
    then obtain active views where found: "require_active s = Inr active" "next_filtered g 1 filters s = Inr views"
      using assms go by (auto simp: claim_next_tx_def result_bind_eq_Inr)
    show thesis
    proof (cases views)
      case Nil
      then show thesis using assms go True found none by (simp add: claim_next_tx_def)
    next
      case (Cons candidate rest)
      then show thesis using assms go True found claimed by (auto simp: claim_next_tx_def result_bind_eq_Inr)
    qed
  qed
qed

end
