(* ===== verification/Relation_Invariant.thy ===== *)
theory Relation_Invariant
  imports Relation_Service
begin

text \<open>
  The relation services on the store: what each operation does to the set of claimed edges, and that no
  sequence of them, refused or accepted, leaves a half edge, a dangling edge or a cycle of parents.
\<close>

section \<open>Writes as changes of the claims\<close>

type_synonym edge = "int \<times> string \<times> int"

fun claim_step :: "int \<Rightarrow> string \<Rightarrow> edge set \<Rightarrow> StoryEvent \<Rightarrow> edge set" where
  "claim_step no pre C (StoryRelationshipAdded _ other rel) = C \<union> {(no, rel, b) | b. valid_no b \<and> to_id b pre = other}"
| "claim_step no pre C (StoryRelationshipRemoved _ other rel) = C - {(no, rel, b) | b. valid_no b \<and> to_id b pre = other}"
| "claim_step no pre C _ = C"

definition set_edges :: "bool \<Rightarrow> edge set \<Rightarrow> edge set \<Rightarrow> edge set" where
  "set_edges remove E C = (if remove then C - E else C \<union> E)"

lemma set_edges_empty [simp]: "set_edges remove {} C = C"
  by (simp add: set_edges_def)

lemma set_edges_insert: "set_edges remove E (set_edges remove {e} C) = set_edges remove (insert e E) C"
  by (auto simp: set_edges_def)

lemma set_edges_other: "x \<notin> E \<Longrightarrow> x \<in> set_edges remove E C \<longleftrightarrow> x \<in> C"
  by (simp add: set_edges_def)

lemma valid_target: "valid_no c \<Longrightarrow> {(no, rel, b) | b. valid_no b \<and> to_id b pre = to_id c pre} = {(no, rel, c)}"
  using to_id_inject by auto

definition claims_of :: "int \<Rightarrow> string \<Rightarrow> StoryRelation set \<Rightarrow> edge set" where
  "claims_of no pre R = {(no, rel, b) | rel b. StoryRelation rel (to_id b pre) \<in> R \<and> valid_no b}"

lemma claims_split: "claims s = {e \<in> claims s. fst e \<noteq> no} \<union> claims_of no (st_prefix s) (set (row_relations s no))"
  by (auto simp: claims_def claims_of_def)

lemma claim_step_rel_step:
  "(\<forall>e \<in> D. fst e \<noteq> no) \<Longrightarrow> claim_step no pre (D \<union> claims_of no pre R) e = D \<union> claims_of no pre (rel_step R e)"
  by (cases e) (fastforce simp: claims_of_def)+

lemma claim_steps_rel_steps:
  "(\<forall>e \<in> D. fst e \<noteq> no) \<Longrightarrow>
     foldl (claim_step no pre) (D \<union> claims_of no pre R) es = D \<union> claims_of no pre (foldl rel_step R es)"
  by (induction es arbitrary: R) (simp_all add: claim_step_rel_step)

definition wrote :: "int \<Rightarrow> StoryEvent list \<Rightarrow> Store \<Rightarrow> Store \<Rightarrow> bool" where
  "wrote no es s s' \<longleftrightarrow>
     store_ok s' \<and> same_project s s' \<and> claims s' = foldl (claim_step no (st_prefix s)) (claims s) es
     \<and> (\<forall>a. a \<noteq> no \<longrightarrow> story_row s' a = story_row s a) \<and> (story_row s no \<noteq> None \<longrightarrow> story_row s' no \<noteq> None)"

lemma appended_wrote:
  assumes "appended no es s snapshot s'"
  shows "wrote no es s s'"
proof -
  have rows: "\<And>a. a \<noteq> no \<Longrightarrow> story_row s' a = story_row s a" and same: "same_project s s'"
    and row: "story_row s' no = Some (row_of no (head_seq s no + int (length es)) snapshot)"
    and rel: "set (snap_relationships snapshot) = foldl rel_step (set (row_relations s no)) es"
    using assms unfolding appended_def by blast+
  have pre: "st_prefix s' = st_prefix s" using same by (simp add: same_project_def)
  have "{e \<in> claims s'. fst e \<noteq> no} = {e \<in> claims s. fst e \<noteq> no}"
    using rows by (auto simp: claims_def row_relations_def pre)
  moreover have "set (row_relations s' no) = foldl rel_step (set (row_relations s no)) es"
    using row rel by (simp add: row_relations_def)
  ultimately have "claims s' = {e \<in> claims s. fst e \<noteq> no} \<union> claims_of no (st_prefix s) (foldl rel_step (set (row_relations s no)) es)"
    using claims_split [of s' no] by (simp add: pre)
  also have "\<dots> = foldl (claim_step no (st_prefix s)) (claims s) es"
    using claim_steps_rel_steps [of "{e \<in> claims s. fst e \<noteq> no}" no "st_prefix s" "set (row_relations s no)" es]
      claims_split [of s no] by simp
  finally have "claims s' = foldl (claim_step no (st_prefix s)) (claims s) es" .
  moreover have "story_row s' no \<noteq> None" using row by simp
  ultimately show ?thesis using assms unfolding wrote_def appended_def by blast
qed

lemma append_unless_empty_wrote:
  assumes "append_unless_empty g no head es s = Inr s'" and "store_ok s" and "valid_no no"
  shows "wrote no es s s'"
proof (cases "es = []")
  case True
  then show ?thesis using assms by (simp add: append_unless_empty_def wrote_def same_project_def)
next
  case False
  then obtain snapshot where "append_and_fold g no (Exact head) es s = Inr (snapshot, s')"
    using assms(1) by (auto simp: append_unless_empty_def result_bind_eq_Inr)
  then show ?thesis using append_effect assms(2,3) appended_wrote by blast
qed

lemma same_project_trans: "same_project s t \<Longrightarrow> same_project t u \<Longrightarrow> same_project s u"
  by (simp add: same_project_def)

lemma plain_events_claims:
  "list_all (\<lambda>e. \<not> changes_relations e) es \<Longrightarrow> foldl (claim_step no pre) C es = C"
  by (induction es arbitrary: C) (auto simp: changes_relations_def split: StoryEvent.splits)

lemma has_relation_iff: "has_relation story rel other \<longleftrightarrow> StoryRelation rel other \<in> set (snap_relationships story)"
proof -
  have "relation c = rel \<and> other_id c = other \<longleftrightarrow> c = StoryRelation rel other" for c by (cases c) auto
  then show ?thesis by (auto simp: has_relation_def list_ex_iff)
qed

lemma has_relation_claim:
  "story_row s no = Some row \<Longrightarrow> valid_no c \<Longrightarrow>
     has_relation (row_snapshot row) rel (to_id c (st_prefix s)) \<longleftrightarrow> (no, rel, c) \<in> claims s"
  by (simp add: has_relation_iff claims_def row_relations_def)

lemma edge_event_claims:
  assumes "has_relation story rel (to_id c pre) \<longleftrightarrow> (no, rel, c) \<in> C" and "valid_no c"
  shows "foldl (claim_step no pre) C (edge_event remove at story rel (to_id c pre)) = set_edges remove {(no, rel, c)} C"
  using assms valid_target [OF assms(2), of no rel pre] by (auto simp: edge_event_def set_edges_def)

lemma resolve_story_iff:
  "resolve_story i s = Inr (no, row) \<longleftrightarrow> i = to_id no (st_prefix s) \<and> valid_no no \<and> story_row s no = Some row"
proof -
  have "resolve_story i s = Inr (no, row) \<longleftrightarrow> parse_id (st_prefix s) i = Inr no \<and> story_row s no = Some row"
    by (auto simp: resolve_story_def Let_def split: sum.splits option.splits)
  then show ?thesis by (simp add: parse_id_valid)
qed

lemma resolve_open_story_iff:
  "resolve_open_story i s = Inr (no, row) \<longleftrightarrow> resolve_story i s = Inr (no, row) \<and> \<not> row_archived row"
  by (auto simp: resolve_open_story_def result_bind_eq_Inr split: if_splits)

section \<open>The batch of blockers\<close>

definition blocker_ok :: "Store \<Rightarrow> int \<Rightarrow> ResolvedBlocker \<Rightarrow> bool" where
  "blocker_ok s a b \<longleftrightarrow>
     valid_no (rb_no b) \<and> rb_id b = to_id (rb_no b) (st_prefix s) \<and> rb_no b \<noteq> a \<and> story_row s (rb_no b) \<noteq> None
     \<and> (has_relation (row_snapshot (rb_row b)) ''blocks'' (to_id a (st_prefix s)) \<longleftrightarrow> (rb_no b, ''blocks'', a) \<in> claims s)"

definition resolved :: "Store \<Rightarrow> ResolvedBlocker \<Rightarrow> bool" where
  "resolved s b \<longleftrightarrow> valid_no (rb_no b) \<and> rb_id b = to_id (rb_no b) (st_prefix s) \<and> story_row s (rb_no b) = Some (rb_row b)"

lemma resolve_unseen_rows:
  assumes "resolve_unseen subject seen blockers s = Inr bs"
  shows "list_all (\<lambda>b. resolved s b \<and> subject \<noteq> Some (rb_id b)) bs \<and> distinct (map rb_no bs)
    \<and> set (map rb_id bs) = set blockers - set seen"
  using assms
proof (induction subject seen blockers s arbitrary: bs rule: resolve_unseen.induct)
  case (2 subject seen i rest s)
  show ?case
  proof (cases "i \<in> set seen")
    case True
    then show ?thesis using 2 by auto
  next
    case False
    then obtain no row cs where i: "subject \<noteq> Some i" and no: "resolve_story i s = Inr (no, row)"
      and cs: "resolve_unseen subject (i # seen) rest s = Inr cs"
      and bs: "bs = \<lparr>rb_id = i, rb_no = no, rb_row = row\<rparr> # cs"
      using 2(3) by (auto simp: result_bind_eq_Inr split: if_splits)
    have here: "resolved s \<lparr>rb_id = i, rb_no = no, rb_row = row\<rparr>" using no by (simp add: resolved_def resolve_story_iff)
    have IH: "list_all (\<lambda>b. resolved s b \<and> subject \<noteq> Some (rb_id b)) cs" "distinct (map rb_no cs)"
        "set (map rb_id cs) = set rest - set (i # seen)"
      using "2.IH"(2) [OF False i cs] by blast+
    have "no \<noteq> rb_no c" if "c \<in> set cs" for c
    proof
      assume "no = rb_no c"
      then have "rb_id c = i" using IH(1) that here by (auto simp: list_all_iff resolved_def)
      then show False using IH(3) that by (metis DiffD2 image_eqI list.set_intros(1) list.set_map)
    qed
    then show ?thesis using IH False i here unfolding bs by auto
  qed
qed simp

lemma resolve_unseen_ok:
  assumes "resolve_unseen (Some (to_id a (st_prefix s))) seen blockers s = Inr bs" and "valid_no a"
  shows "list_all (blocker_ok s a) bs \<and> distinct (map rb_no bs) \<and> set (map rb_id bs) = set blockers - set seen"
proof -
  have "blocker_ok s a b" if "resolved s b" "Some (to_id a (st_prefix s)) \<noteq> Some (rb_id b)" for b
    using that assms(2) has_relation_claim by (auto simp: blocker_ok_def resolved_def)
  then show ?thesis using resolve_unseen_rows [OF assms(1)] by (auto simp: list_all_iff)
qed

definition kept :: "Store \<Rightarrow> Store \<Rightarrow> bool" where
  "kept s s' \<longleftrightarrow> store_ok s' \<and> same_project s s' \<and> (\<forall>a. story_row s' a = None \<longleftrightarrow> story_row s a = None)"

lemma kept_refl: "store_ok s \<Longrightarrow> kept s s"
  by (simp add: kept_def same_project_def)

lemma kept_trans: "kept s t \<Longrightarrow> kept t u \<Longrightarrow> kept s u"
  using same_project_trans by (auto simp: kept_def)

lemma wrote_kept:
  assumes "wrote no es s s'" and "story_row s no \<noteq> None"
  shows "kept s s'"
proof -
  have "story_row s' a = None \<longleftrightarrow> story_row s a = None" for a
    using assms by (cases "a = no") (auto simp: wrote_def)
  then show ?thesis using assms(1) by (simp add: wrote_def kept_def)
qed

lemma append_edge:
  assumes "append_unless_empty g no head (edge_event remove at story rel (to_id c (st_prefix s)) @ extra) s = Inr s'"
    and "store_ok s" and "valid_no no" "valid_no c"
    and "has_relation story rel (to_id c (st_prefix s)) \<longleftrightarrow> (no, rel, c) \<in> claims s"
    and "list_all (\<lambda>e. \<not> changes_relations e) extra" and "story_row s no \<noteq> None"
  shows "kept s s'" and "claims s' = set_edges remove {(no, rel, c)} (claims s)"
proof -
  have wrote: "wrote no (edge_event remove at story rel (to_id c (st_prefix s)) @ extra) s s'"
    using append_unless_empty_wrote assms by blast
  then show "kept s s'" by (rule wrote_kept [OF _ assms(7)])
  show "claims s' = set_edges remove {(no, rel, c)} (claims s)"
    using wrote edge_event_claims [OF assms(5,4)] plain_events_claims [OF assms(6)]
    by (simp add: wrote_def)
qed

lemma append_blocks_edges_effect:
  assumes "append_blocks_edges g bs (to_id a (st_prefix s)) at remove s = Inr (touched, s')"
    and "store_ok s" and "valid_no a" and "list_all (blocker_ok s a) bs" and "distinct (map rb_no bs)"
  shows "kept s s' \<and> claims s' = set_edges remove ((\<lambda>b. (rb_no b, ''blocks'', a)) ` set bs) (claims s)"
  using assms
proof (induction bs arbitrary: s touched)
  case Nil
  then show ?case by (simp add: kept_refl)
next
  case (Cons b bs)
  let ?i = "to_id a (st_prefix s)"
  obtain t touched' where t: "append_unless_empty g (rb_no b) (row_head_seq (rb_row b))
        (edge_event remove at (row_snapshot (rb_row b)) ''blocks'' ?i) s = Inr t"
    and rest: "append_blocks_edges g bs ?i at remove t = Inr (touched', s')"
    using Cons.prems(1) by (auto simp: Let_def result_bind_eq_Inr split: prod.splits)
  have b: "valid_no (rb_no b)" "story_row s (rb_no b) \<noteq> None" "has_relation (row_snapshot (rb_row b)) ''blocks'' ?i \<longleftrightarrow> (rb_no b, ''blocks'', a) \<in> claims s"
    using Cons.prems(4) by (simp_all add: blocker_ok_def)
  have one: "kept s t" "claims t = set_edges remove {(rb_no b, ''blocks'', a)} (claims s)"
    using append_edge [of g "rb_no b" _ remove at _ "''blocks''" a s "[]" t] t b Cons.prems(2,3) by simp_all
  have pre: "st_prefix t = st_prefix s" "store_ok t" using one(1) by (simp_all add: kept_def same_project_def)
  have "blocker_ok t a c" if c: "c \<in> set bs" for c
  proof -
    have "rb_no c \<noteq> rb_no b" using Cons.prems(5) c by (simp add: image_iff) metis
    moreover have "blocker_ok s a c" using Cons.prems(4) c by (simp add: list_all_iff)
    ultimately show ?thesis using one by (auto simp: blocker_ok_def kept_def same_project_def set_edges_other)
  qed
  then have "kept t s' \<and> claims s' = set_edges remove ((\<lambda>b. (rb_no b, ''blocks'', a)) ` set bs) (claims t)"
    using Cons.IH [of t touched'] rest pre Cons.prems(3,5) by (simp add: list_all_iff)
  then show ?case using one kept_trans by (auto simp: set_edges_insert)
qed

lemma edge_events_claims:
  assumes "\<And>b. b \<in> set bs \<Longrightarrow> valid_no (rb_no b) \<and> rb_id b = to_id (rb_no b) pre"
    and "distinct (map rb_no bs)"
    and "\<And>b. b \<in> set bs \<Longrightarrow> has_relation story rel (rb_id b) \<longleftrightarrow> (no, rel, rb_no b) \<in> C"
  shows "foldl (claim_step no pre) C (concat (map (\<lambda>b. edge_event remove at story rel (rb_id b)) bs))
    = set_edges remove ((\<lambda>b. (no, rel, rb_no b)) ` set bs) C"
  using assms
proof (induction bs arbitrary: C)
  case (Cons b bs)
  have id: "rb_id b = to_id (rb_no b) pre" "valid_no (rb_no b)" using Cons.prems(1) by simp_all
  have step: "foldl (claim_step no pre) C (edge_event remove at story rel (rb_id b)) = set_edges remove {(no, rel, rb_no b)} C"
    unfolding id(1) using Cons.prems(3) [of b] id by (intro edge_event_claims) simp_all
  have "has_relation story rel (rb_id c) \<longleftrightarrow> (no, rel, rb_no c) \<in> set_edges remove {(no, rel, rb_no b)} C" if "c \<in> set bs" for c
  proof -
    have "rb_no c \<noteq> rb_no b" using Cons.prems(2) that by (simp add: image_iff) metis
    then show ?thesis using Cons.prems(3) [of c] that by (simp add: set_edges_other)
  qed
  then have "foldl (claim_step no pre) (set_edges remove {(no, rel, rb_no b)} C)
      (concat (map (\<lambda>b. edge_event remove at story rel (rb_id b)) bs))
    = set_edges remove ((\<lambda>b. (no, rel, rb_no b)) ` set bs) (set_edges remove {(no, rel, rb_no b)} C)"
    using Cons.prems(1,2) by (intro Cons.IH) simp_all
  then show ?case by (simp add: step set_edges_insert)
qed simp

definition batch_edges :: "int \<Rightarrow> int set \<Rightarrow> edge set" where
  "batch_edges a B = (\<lambda>b. (b, ''blocks'', a)) ` B \<union> (\<lambda>b. (a, ''blocked-by'', b)) ` B"

lemma awaiting_events_plain: "awaiting_events awaiting at bs = Inr es \<Longrightarrow> list_all (\<lambda>e. \<not> changes_relations e) es"
  by (auto simp: awaiting_events_def changes_relations_def Let_def split: option.splits if_splits)

lemma edge_batch_effect:
  assumes batch: "edge_batch g i blockers awaiting remove at s = Inr (touched, s')" and ok: "store_ok s"
  obtains a B where "i = to_id a (st_prefix s)" and "valid_no a" and "a \<notin> B" and "\<And>b. b \<in> B \<Longrightarrow> valid_no b \<and> story_row s b \<noteq> None"
    and "set blockers = (\<lambda>b. to_id b (st_prefix s)) ` B"
    and "kept s s'" and "claims s' = set_edges remove (batch_edges a B) (claims s)"
proof -
  obtain a row bs t reason where a: "resolve_open_story i s = Inr (a, row)"
    and bs: "resolve_blockers (Some i) blockers s = Inr bs"
    and t: "append_blocks_edges g bs i at remove s = Inr (touched, t)"
    and reason: "awaiting_events awaiting at bs = Inr reason"
    and s': "append_unless_empty g a (row_head_seq row)
      (concat (map (\<lambda>b. edge_event remove at (row_snapshot row) ''blocked-by'' (rb_id b)) bs) @ reason) t = Inr s'"
    using batch by (auto simp: edge_batch_def result_bind_eq_Inr split: prod.splits)
  have i: "i = to_id a (st_prefix s)" "valid_no a" "story_row s a = Some row"
    using a by (simp_all add: resolve_open_story_iff resolve_story_iff)
  have good: "list_all (blocker_ok s a) bs" "distinct (map rb_no bs)" "set (map rb_id bs) = set blockers"
    using resolve_unseen_ok bs i(2) unfolding resolve_blockers_def i(1) by force+
  have first: "kept s t" "claims t = set_edges remove ((\<lambda>b. (rb_no b, ''blocks'', a)) ` set bs) (claims s)"
    using append_blocks_edges_effect t ok i(2) good unfolding i(1) by blast+
  have pre: "st_prefix t = st_prefix s" "store_ok t" using first(1) by (simp_all add: kept_def same_project_def)
  have b: "valid_no (rb_no b)" "rb_id b = to_id (rb_no b) (st_prefix s)" "rb_no b \<noteq> a" "story_row s (rb_no b) \<noteq> None"
    if "b \<in> set bs" for b
    using good(1) that by (simp_all add: list_all_iff blocker_ok_def)
  have "has_relation (row_snapshot row) ''blocked-by'' (rb_id b) \<longleftrightarrow> (a, ''blocked-by'', rb_no b) \<in> claims t" if "b \<in> set bs" for b
    using has_relation_claim [OF i(3)] b that first(2) by (auto simp: set_edges_def)
  then have batch: "foldl (claim_step a (st_prefix t)) (claims t)
      (concat (map (\<lambda>b. edge_event remove at (row_snapshot row) ''blocked-by'' (rb_id b)) bs))
    = set_edges remove ((\<lambda>b. (a, ''blocked-by'', rb_no b)) ` set bs) (claims t)"
    using b good(2) pre(1) by (intro edge_events_claims) auto
  have row_t: "story_row t a \<noteq> None" using first(1) i(3) by (simp add: kept_def)
  moreover have second: "wrote a (concat (map (\<lambda>b. edge_event remove at (row_snapshot row) ''blocked-by'' (rb_id b)) bs) @ reason) t s'"
    using append_unless_empty_wrote s' pre(2) i(2) by blast
  ultimately have "claims s' = set_edges remove ((\<lambda>b. (a, ''blocked-by'', rb_no b)) ` set bs) (claims t)"
    using batch plain_events_claims [OF awaiting_events_plain [OF reason]] by (simp add: wrote_def)
  then have "claims s' = set_edges remove (batch_edges a (rb_no ` set bs)) (claims s)"
    unfolding first(2) by (auto simp: set_edges_def batch_edges_def image_image)
  moreover have "set blockers = (\<lambda>b. to_id b (st_prefix s)) ` rb_no ` set bs"
    unfolding good(3) [symmetric] set_map image_image using b(2) by (rule image_cong [OF refl])
  moreover have "a \<notin> rb_no ` set bs" using b(3) by blast
  moreover have "valid_no c \<and> story_row s c \<noteq> None" if "c \<in> rb_no ` set bs" for c using b(1,4) that by blast
  ultimately show thesis
    using that [of a "rb_no ` set bs"] i(1,2) kept_trans [OF first(1) wrote_kept [OF second row_t]] by simp
qed

section \<open>Retracting a closed blocker's edges\<close>

definition blocker_edges :: "int \<Rightarrow> edge set" where
  "blocker_edges n = {(d, ''blocked-by'', n) | d. True} \<union> {(n, ''blocks'', d) | d. True}"

lemma stored_valid: "store_ok s \<Longrightarrow> story_row s no = Some row \<Longrightarrow> valid_no no"
  by (simp add: store_ok_def read_model_ok_def row_ok_def)

lemma retract_dependents_effect:
  assumes "retract_dependents g ds (to_id n (st_prefix s)) at s = Inr s'" and "store_ok s" and "valid_no n"
  shows "kept s s' \<and> claims s' = claims s - (\<lambda>d. (d, ''blocked-by'', n)) ` set ds"
  using assms
proof (induction ds arbitrary: s)
  case Nil
  then show ?case by (simp add: kept_refl)
next
  case (Cons d ds)
  let ?i = "to_id n (st_prefix s)"
  have skip: ?case if "retract_dependents g ds ?i at s = Inr s'" and "(d, ''blocked-by'', n) \<notin> claims s"
    using Cons.IH [OF that(1) Cons.prems(2,3)] that(2) by auto
  show ?case
  proof (cases "story_row s d")
    case None
    then show ?thesis using skip Cons.prems(1) claims_row [of d _ s] by auto
  next
    case (Some row)
    note has = has_relation_claim [OF Some Cons.prems(3), of "''blocked-by''"]
    show ?thesis
    proof (cases "has_relation (row_snapshot row) ''blocked-by'' ?i")
      case False
      then show ?thesis using skip Cons.prems(1) Some has by simp
    next
      case True
      then obtain t where t: "append_unless_empty g d (row_head_seq row)
            (edge_event True at (row_snapshot row) ''blocked-by'' ?i @ []) s = Inr t"
        and rest: "retract_dependents g ds ?i at t = Inr s'"
        using Cons.prems(1) Some by (auto simp: append_unless_empty_def edge_event_def result_bind_eq_Inr split: prod.splits)
      have "list_all (\<lambda>e. \<not> changes_relations e) []" "story_row s d \<noteq> None" using Some by simp_all
      note one = append_edge [OF t Cons.prems(2) stored_valid [OF Cons.prems(2) Some] Cons.prems(3) has this]
      have pre: "st_prefix t = st_prefix s" "store_ok t" using one(1) by (simp_all add: kept_def same_project_def)
      have "kept t s' \<and> claims s' = claims t - (\<lambda>d. (d, ''blocked-by'', n)) ` set ds"
        using Cons.IH [of t] rest pre Cons.prems(3) by simp
      then show ?thesis using one kept_trans by (auto simp: set_edges_def)
    qed
  qed
qed

lemma removals_claims:
  "foldl (claim_step no pre) C (map (\<lambda>d. StoryRelationshipRemoved at d rel) ids)
     = C - {(no, rel, b) | b. valid_no b \<and> to_id b pre \<in> set ids}"
  by (induction ids arbitrary: C) auto

lemma retract_effect:
  assumes retract: "retract_closed_blocker_edges g n at s = Inr (events, s')" and ok: "store_ok s" and n: "valid_no n"
  shows "kept s s'" and "claims s' = claims s - blocker_edges n"
proof -
  let ?ds = "bset_collect (map snd (filter (\<lambda>e. fst e = ''blocks'') (relations_from s n)))"
  obtain t where t: "retract_dependents g ?ds (to_id n (st_prefix s)) at s = Inr t"
    using retract by (auto simp: retract_closed_blocker_edges_def Let_def result_bind_eq_Inr)
  have first: "kept s t" "claims t = claims s - (\<lambda>d. (d, ''blocked-by'', n)) ` set ?ds"
    using retract_dependents_effect [OF t ok n] by blast+
  have pre: "st_prefix t = st_prefix s" "store_ok t" using first(1) by (simp_all add: kept_def same_project_def)
  let ?has = "\<lambda>row. filter (has_relation (row_snapshot row) ''blocks'') (map (\<lambda>d. to_id d (st_prefix t)) ?ds)"
  obtain row where row: "story_row t n = Some row"
    and s': "append_unless_empty g n (row_head_seq row) (map (\<lambda>d. StoryRelationshipRemoved at d ''blocks'') (?has row)) t = Inr s'"
    using retract t by (auto simp: retract_closed_blocker_edges_def Let_def result_bind_eq_Inr split: option.splits)
  have second: "wrote n (map (\<lambda>d. StoryRelationshipRemoved at d ''blocks'') (?has row)) t s'"
    by (rule append_unless_empty_wrote [OF s' pre(2) n])
  show "kept s s'" using kept_trans [OF first(1) wrote_kept [OF second]] row by simp
  have ds: "d \<in> set ?ds \<longleftrightarrow> (n, ''blocks'', d) \<in> set (st_relations s)" for d
    by (force simp: relations_from_def)
  have table: "set (st_relations s) = claims s \<union> mirror ` claims s"
    using ok unfolding store_ok_def graph_ok_def by blast
  have inv: "inverse_relation ''blocked-by'' = Some ''blocks''" by (simp add: inverse_relation_def)
  have covered: "d \<in> set ?ds" if "(d, ''blocked-by'', n) \<in> claims s \<or> (n, ''blocks'', d) \<in> claims s" for d
    using that inv unfolding ds table by force
  have blocks: "(n, ''blocks'', b) \<notin> claims t" if "\<not> (b \<in> set ?ds \<and> to_id b (st_prefix t) \<in> set (?has row))" "valid_no b" for b
    using that covered [of b] first(2) has_relation_claim [OF row, of b "''blocks''"] by auto
  have valid: "valid_no b" if "(a, rel, b) \<in> claims s" for a rel b using that by (simp add: claims_def)
  have "claims s' = claims t - {(n, ''blocks'', b) | b. valid_no b \<and> to_id b (st_prefix t) \<in> set (?has row)}"
    using second unfolding wrote_def removals_claims by blast
  also have "\<dots> = claims t - {(n, ''blocks'', b) | b. True}"
    using blocks valid first(2) by blast
  also have "\<dots> = claims s - blocker_edges n"
    using covered first(2) by (auto simp: blocker_edges_def)
  finally show "claims s' = claims s - blocker_edges n" .
qed

section \<open>One relation\<close>

lemma relation_edges_one: "relation_edges rel = Some edges \<Longrightarrow> \<exists>r opp. edges = [(r, opp)] \<and> inverse_relation r = Some opp"
proof -
  have "case relation_edges rel of None \<Rightarrow> True | Some edges \<Rightarrow> \<exists>r opp. edges = [(r, opp)] \<and> inverse_relation r = Some opp"
    by (simp add: relation_edges_def inverse_relation_def)
  then show "relation_edges rel = Some edges \<Longrightarrow> \<exists>r opp. edges = [(r, opp)] \<and> inverse_relation r = Some opp" by simp
qed

lemma last_child_extra:
  assumes "last_child_events i story es at before states = Inr (events, closes)"
  shows "\<exists>extra. events = es @ extra \<and> list_all (\<lambda>e. \<not> changes_relations e) extra"
proof -
  have "list_all (\<lambda>e. \<not> changes_relations e) (state_transition_events target awaiting at [])" for target awaiting
    by (simp add: state_transition_events_def changes_relations_def)
  then show ?thesis using assms by (auto simp: last_child_events_def split: if_splits option.splits)
qed

lemma first_child_extra: "\<exists>extra. first_child_events story es at = es @ extra \<and> list_all (\<lambda>e. \<not> changes_relations e) extra"
  by (simp add: first_child_events_def changes_relations_def)

lemma child_extra:
  assumes "(if remove then last_child_events i story es at before states
      else Inr (first_child_events story es at, False)) = Inr (events, closes)"
  obtains extra where "events = es @ extra" and "list_all (\<lambda>e. \<not> changes_relations e) extra" and "closes \<longrightarrow> remove"
proof (cases remove)
  case True
  then have "last_child_events i story es at before states = Inr (events, closes)" using assms by simp
  then show thesis using last_child_extra that True by blast
next
  case False
  then show thesis using assms first_child_extra [of story es at] that by auto
qed

lemma retract_if_effect:
  assumes "retract_if g closes n at s = Inr s'" and "store_ok s" and "valid_no n"
  shows "kept s s'" and "claims s' = claims s - (if closes then blocker_edges n else {})"
  using assms retract_effect [of g n at s] by (auto simp: retract_if_def result_bind_eq_Inr kept_refl split: if_splits)

lemma append_empty [simp]: "append_unless_empty g no head [] s = Inr s"
  by (simp add: append_unless_empty_def)

definition relation_pair :: "int \<Rightarrow> string \<Rightarrow> int \<Rightarrow> edge set" where
  "relation_pair a r b = {(a, r, b), mirror (a, r, b)}"

text \<open>What an accepted call wrote, before any proof about it.\<close>

lemma relate_tx_steps:
  assumes "relate_tx g a rel b remove at s = Inr (out, s')"
  obtains a_no a_row b_no b_row r opp ea eb ca cb s1 s2 s3 where
    "resolve_open_story a s = Inr (a_no, a_row)" and "resolve_story b s = Inr (b_no, b_row)" and "a \<noteq> b"
    and "relation_edges rel = Some [(r, opp)]" and "inverse_relation r = Some opp"
    and "(if \<not> remove then validate_parent_constraints (store_story_map s) a b rel else Inr ()) = Inr ()"
    and "(if remove then last_child_events a (row_snapshot a_row) (edge_event remove at (row_snapshot a_row) r b) at
            (store_story_map s) (catalog_of (st_states s))
          else Inr (first_child_events (row_snapshot a_row) (edge_event remove at (row_snapshot a_row) r b) at, False)) = Inr (ea, ca)"
    and "(if remove then last_child_events b (row_snapshot b_row) (edge_event remove at (row_snapshot b_row) opp a) at
            (store_story_map s) (catalog_of (st_states s))
          else Inr (first_child_events (row_snapshot b_row) (edge_event remove at (row_snapshot b_row) opp a) at, False)) = Inr (eb, cb)"
    and "ea = [] \<and> eb = [] \<and> out = Unchanged remove \<and> s' = s
         \<or> append_unless_empty g b_no (row_head_seq b_row) eb s = Inr s1
           \<and> append_unless_empty g a_no (row_head_seq a_row) ea s1 = Inr s2
           \<and> retract_if g ca a_no at s2 = Inr s3 \<and> retract_if g cb b_no at s3 = Inr s'"
proof -
  obtain a_no a_row b_no b_row where rows: "resolve_open_story a s = Inr (a_no, a_row)" "resolve_story b s = Inr (b_no, b_row)"
    using assms by (auto simp: relate_tx_def result_bind_eq_Inr)
  have ne: "a \<noteq> b" using assms rows by (auto simp: relate_tx_def)
  obtain edges where edges: "relation_edges rel = Some edges" using assms rows ne by (auto simp: relate_tx_def split: option.splits)
  then obtain r opp where r: "edges = [(r, opp)]" "inverse_relation r = Some opp" using relation_edges_one by blast
  show thesis
    using assms that [OF rows ne _ r(2)] unfolding relate_tx_def
    by (auto simp: rows ne edges r(1) Let_def result_bind_eq_Inr split: if_splits option.splits prod.splits)
qed

definition released :: "bool \<Rightarrow> int \<Rightarrow> bool \<Rightarrow> int \<Rightarrow> edge set" where
  "released ca a cb b = (if ca then blocker_edges a else {}) \<union> (if cb then blocker_edges b else {})"

lemma relate_tx_effect:
  assumes tx: "relate_tx g a rel b remove at s = Inr (out, s')" and ok: "store_ok s"
  obtains an bn r ca cb where "a = to_id an (st_prefix s)" and "b = to_id bn (st_prefix s)"
    and "valid_no an" and "valid_no bn" and "an \<noteq> bn" and "story_row s an \<noteq> None" and "story_row s bn \<noteq> None"
    and "relation_edges rel = Some [(r, the (inverse_relation r))]" and "inverse_relation r \<noteq> None"
    and "kept s s'" and "claims s' = set_edges remove (relation_pair an r bn) (claims s) - released ca an cb bn"
    and "\<not> remove \<longrightarrow> \<not> ca \<and> \<not> cb \<and> validate_parent_constraints (store_story_map s) a b rel = Inr ()"
  using tx
proof (rule relate_tx_steps)
  fix an a_row bn b_row r opp ea eb ca cb s1 s2 s3
  assume rows: "resolve_open_story a s = Inr (an, a_row)" "resolve_story b s = Inr (bn, b_row)" and ne: "a \<noteq> b"
    and r: "relation_edges rel = Some [(r, opp)]" "inverse_relation r = Some opp"
    and guard: "(if \<not> remove then validate_parent_constraints (store_story_map s) a b rel else Inr ()) = Inr ()"
    and ea: "(if remove then last_child_events a (row_snapshot a_row) (edge_event remove at (row_snapshot a_row) r b) at
            (store_story_map s) (catalog_of (st_states s))
          else Inr (first_child_events (row_snapshot a_row) (edge_event remove at (row_snapshot a_row) r b) at, False)) = Inr (ea, ca)"
    and eb: "(if remove then last_child_events b (row_snapshot b_row) (edge_event remove at (row_snapshot b_row) opp a) at
            (store_story_map s) (catalog_of (st_states s))
          else Inr (first_child_events (row_snapshot b_row) (edge_event remove at (row_snapshot b_row) opp a) at, False)) = Inr (eb, cb)"
    and steps: "ea = [] \<and> eb = [] \<and> out = Unchanged remove \<and> s' = s
         \<or> append_unless_empty g bn (row_head_seq b_row) eb s = Inr s1
           \<and> append_unless_empty g an (row_head_seq a_row) ea s1 = Inr s2
           \<and> retract_if g ca an at s2 = Inr s3 \<and> retract_if g cb bn at s3 = Inr s'"
  have a: "a = to_id an (st_prefix s)" "valid_no an" "story_row s an = Some a_row"
    and b: "b = to_id bn (st_prefix s)" "valid_no bn" "story_row s bn = Some b_row"
    using rows by (simp_all add: resolve_open_story_iff resolve_story_iff)
  obtain xa where xa: "ea = edge_event remove at (row_snapshot a_row) r b @ xa" "list_all (\<lambda>e. \<not> changes_relations e) xa" "ca \<longrightarrow> remove"
    using ea by (rule child_extra)
  obtain xb where xb: "eb = edge_event remove at (row_snapshot b_row) opp a @ xb" "list_all (\<lambda>e. \<not> changes_relations e) xb" "cb \<longrightarrow> remove"
    using eb by (rule child_extra)
  have ab: "an \<noteq> bn" using ne a b by auto
  have claim_b: "has_relation (row_snapshot b_row) opp (to_id an (st_prefix s)) \<longleftrightarrow> (bn, opp, an) \<in> claims s"
    using has_relation_claim b(3) a(2) by blast
  have claim_a: "has_relation (row_snapshot a_row) r (to_id bn (st_prefix s)) \<longleftrightarrow> (an, r, bn) \<in> claims s"
    using has_relation_claim a(3) b(2) by blast
  obtain ra rb where res: "kept s s'" "claims s' = set_edges remove (relation_pair an r bn) (claims s) - released ra an rb bn"
      "\<not> remove \<Longrightarrow> \<not> ra \<and> \<not> rb"
  proof (cases "ea = [] \<and> eb = [] \<and> s' = s")
    case True
    have "set_edges remove (relation_pair an r bn) (claims s) = claims s"
      using True xa(1) xb(1) claim_a claim_b a(1) b(1) r(2)
      by (auto simp: edge_event_def set_edges_def relation_pair_def split: if_splits)
    then show thesis using that [of False False] True ok by (simp add: released_def kept_refl)
  next
    case False
    then have st: "append_unless_empty g bn (row_head_seq b_row) eb s = Inr s1"
        "append_unless_empty g an (row_head_seq a_row) ea s1 = Inr s2"
        "retract_if g ca an at s2 = Inr s3" "retract_if g cb bn at s3 = Inr s'"
      using steps by blast+
    have rows_s: "story_row s an \<noteq> None" "story_row s bn \<noteq> None" using a(3) b(3) by simp_all
    note one = append_edge [OF st(1) [unfolded xb(1) a(1)] ok b(2) a(2) claim_b xb(2) rows_s(2)]
    have s1: "st_prefix s1 = st_prefix s" "store_ok s1" using one(1) by (simp_all add: kept_def same_project_def)
    have a_row: "story_row s1 an \<noteq> None" using one(1) rows_s(1) by (simp add: kept_def)
    have "has_relation (row_snapshot a_row) r (to_id bn (st_prefix s1)) \<longleftrightarrow> (an, r, bn) \<in> claims s1"
      using claim_a ab by (simp add: s1 one(2) set_edges_other)
    note two = append_edge [OF st(2) [unfolded xa(1) b(1), folded s1(1)] s1(2) a(2) b(2) this xa(2) a_row]
    have s2: "store_ok s2" using two(1) by (simp add: kept_def)
    note three = retract_if_effect [OF st(3) s2 a(2)]
    have s3: "store_ok s3" using three(1) by (simp add: kept_def)
    note four = retract_if_effect [OF st(4) s3 b(2)]
    have "kept s s'" using one(1) two(1) three(1) four(1) kept_trans by blast
    moreover have "set_edges remove {(an, r, bn)} (set_edges remove {(bn, opp, an)} (claims s))
        = set_edges remove (relation_pair an r bn) (claims s)"
      by (simp add: set_edges_insert relation_pair_def r(2) insert_commute)
    then have "claims s' = set_edges remove (relation_pair an r bn) (claims s) - released ca an cb bn"
      unfolding four(2) three(2) two(2) one(2) released_def by blast
    ultimately show thesis using that xa(3) xb(3) by blast
  qed
  have "relation_edges rel = Some [(r, the (inverse_relation r))]" "inverse_relation r \<noteq> None" using r by simp_all
  moreover have "\<not> ra \<and> \<not> rb \<and> validate_parent_constraints (store_story_map s) a b rel = Inr ()" if "\<not> remove"
    using res(3) guard that by simp
  ultimately show thesis using that [OF a(1) b(1) a(2) b(2) ab _ _ _ _ res(1,2)] a(3) b(3) by blast
qed

section \<open>The claims decide the integrity report\<close>

lemma btm_ok_mem: "btm_ok m \<Longrightarrow> (k, v) \<in> set m \<longleftrightarrow> btm_get m k = Some v"
  using strict_sorted_iff [of "map fst m"] by (simp add: btm_ok_def btm_get_def map_of_eq_Some_iff)

lemma btm_values_mem: "btm_ok m \<Longrightarrow> v \<in> set (btm_values m) \<longleftrightarrow> (\<exists>k. btm_get m k = Some v)"
  by (force simp: btm_values_def simp flip: btm_ok_mem)

lemma stored_row:
  assumes "store_ok s" and "story_row s no = Some row"
  shows "valid_no no" and "snap_id (row_snapshot row) = to_id no (st_prefix s)"
proof -
  have ok: "row_ok s no row" using assms by (simp add: store_ok_def read_model_ok_def)
  then show "valid_no no" by (simp add: row_ok_def)
  show "snap_id (row_snapshot row) = to_id no (st_prefix s)" using ok fold_story_fields(1) unfolding row_ok_def by blast
qed

lemma story_rows_get:
  assumes "store_ok s"
  shows "btm_get (story_rows s) k = Some t \<longleftrightarrow>
    (\<exists>no row. story_row s no = Some row \<and> t = row_snapshot row \<and> k = to_id no (st_prefix s))"
proof -
  have sorted: "btm_ok (st_stories s)" using assms by (simp add: store_ok_def read_model_ok_def)
  let ?xs = "map (\<lambda>r. (snap_id (row_snapshot r), row_snapshot r)) (btm_values (st_stories s))"
  have entry: "(k, t) \<in> set ?xs \<longleftrightarrow> (\<exists>no row. story_row s no = Some row \<and> t = row_snapshot row \<and> k = to_id no (st_prefix s))" for k t
  proof -
    have "(k, t) \<in> set ?xs \<longleftrightarrow> (\<exists>row \<in> set (btm_values (st_stories s)). k = snap_id (row_snapshot row) \<and> t = row_snapshot row)"
      by auto
    also have "\<dots> \<longleftrightarrow> (\<exists>row no. story_row s no = Some row \<and> k = snap_id (row_snapshot row) \<and> t = row_snapshot row)"
      using btm_values_mem [OF sorted] unfolding story_row_def by blast
    also have "\<dots> \<longleftrightarrow> (\<exists>no row. story_row s no = Some row \<and> t = row_snapshot row \<and> k = to_id no (st_prefix s))"
      using stored_row(2) [OF assms] by metis
    finally show ?thesis .
  qed
  have "snap_id (row_snapshot (snd e)) = to_id (fst e) (st_prefix s)" "valid_no (fst e)" if "e \<in> set (st_stories s)" for e
    using that btm_ok_mem [OF sorted, of "fst e" "snd e"] stored_row [OF assms] by (auto simp: story_row_def)
  moreover have "distinct (map fst (st_stories s))" using sorted by (simp add: btm_ok_def strict_sorted_iff)
  ultimately have "distinct (map fst ?xs)"
    using to_id_inject by (auto simp: distinct_map btm_values_def comp_def inj_on_def)
  then have "btm_get (story_rows s) k = Some t \<longleftrightarrow> (k, t) \<in> set ?xs"
    by (simp add: story_rows_def btm_get_of_list rev_map map_of_eq_Some_iff flip: rev_map)
  then show ?thesis unfolding entry .
qed

lemma store_story_map_ok: "btm_ok (store_story_map s)"
  by (simp add: store_story_map_def story_rows_def apply_computed_epic_states_def fold_project_ok)

lemma projected_relations:
  "map_option (\<lambda>t. (snap_id t, snap_relationships t)) (btm_get (store_story_map s) k)
     = map_option (\<lambda>t. (snap_id t, snap_relationships t)) (btm_get (story_rows s) k)"
proof -
  have "map_option epic_view (btm_get (store_story_map s) k) = map_option epic_view (btm_get (story_rows s) k)"
    by (simp add: store_story_map_def projection_view)
  moreover have "snap_id (epic_view t) = snap_id t" "snap_relationships (epic_view t) = snap_relationships t" for t
    by (simp_all add: epic_view_def)
  ultimately show ?thesis
    by (cases "btm_get (store_story_map s) k"; cases "btm_get (story_rows s) k") (simp_all, metis)
qed

lemma story_map_entry:
  assumes "store_ok s" and "btm_get (store_story_map s) k = Some t"
  obtains no where "story_row s no \<noteq> None" and "k = to_id no (st_prefix s)" and "snap_id t = k"
    and "snap_relationships t = row_relations s no"
proof -
  obtain u where u: "btm_get (story_rows s) k = Some u" "snap_id t = snap_id u" "snap_relationships t = snap_relationships u"
    using projected_relations [of s k] assms(2) by (cases "btm_get (story_rows s) k") auto
  then obtain no row where "story_row s no = Some row" "u = row_snapshot row" "k = to_id no (st_prefix s)"
    using story_rows_get [OF assms(1)] by blast
  then show thesis using that [of no] u stored_row(2) [OF assms(1)] by (simp add: row_relations_def)
qed

lemma story_map_stored:
  assumes "store_ok s" and "story_row s no \<noteq> None"
  obtains t where "btm_get (store_story_map s) (to_id no (st_prefix s)) = Some t" and "snap_id t = to_id no (st_prefix s)"
    and "snap_relationships t = row_relations s no"
proof -
  obtain row where row: "story_row s no = Some row" using assms(2) by blast
  then have "btm_get (story_rows s) (to_id no (st_prefix s)) = Some (row_snapshot row)"
    using story_rows_get [OF assms(1)] by blast
  then show thesis using that projected_relations [of s "to_id no (st_prefix s)"] row stored_row(2) [OF assms(1) row]
    by (auto simp: row_relations_def)
qed

definition reciprocal :: "edge set \<Rightarrow> bool" where
  "reciprocal C \<longleftrightarrow> (\<forall>e \<in> C. mirror e \<in> C)"

definition parent_arcs :: "string \<Rightarrow> edge set \<Rightarrow> (string \<times> string) set" where
  "parent_arcs pre C = {(to_id p pre, to_id c pre) | p c. (p, ''parent-of'', c) \<in> C \<or> (c, ''child-of'', p) \<in> C}"

lemma parent_arcsI:
  "(a, ''parent-of'', b) \<in> C \<Longrightarrow> (to_id a pre, to_id b pre) \<in> parent_arcs pre C"
  "(a, ''child-of'', b) \<in> C \<Longrightarrow> (to_id b pre, to_id a pre) \<in> parent_arcs pre C"
  unfolding parent_arcs_def by blast+

lemma claim_target:
  assumes "store_ok s" and "r \<in> set (row_relations s a)"
  obtains b where "r = StoryRelation (relation r) (to_id b (st_prefix s))" and "(a, relation r, b) \<in> claims s"
    and "story_row s b \<noteq> None" and "named (a, relation r, b)"
proof -
  have graph: "graph_ok s" using assms(1) by (simp add: store_ok_def)
  then obtain b where b: "valid_no b" "other_id r = to_id b (st_prefix s)" using assms(2) unfolding graph_ok_def by blast
  then have r: "r = StoryRelation (relation r) (to_id b (st_prefix s))" by (cases r) simp
  then have claim: "(a, relation r, b) \<in> claims s" using assms(2) b(1) by (simp add: claims_def)
  then have "edge_ok s (a, relation r, b)" using graph unfolding graph_ok_def by blast
  then show thesis using that r claim by (simp add: edge_ok_def)
qed

lemma claim_mem: "(a, rel, b) \<in> claims s \<Longrightarrow> StoryRelation rel (to_id b (st_prefix s)) \<in> set (row_relations s a) \<and> valid_no b"
  by (simp add: claims_def)

lemma claim_ends:
  assumes "store_ok s" and "(a, rel, b) \<in> claims s"
  shows "story_row s a \<noteq> None" and "story_row s b \<noteq> None" and "inverse_relation rel \<noteq> None" and "valid_no a" and "valid_no b" and "a \<noteq> b"
proof -
  have "edge_ok s (a, rel, b)" using assms unfolding store_ok_def graph_ok_def by blast
  then show "story_row s b \<noteq> None" and "inverse_relation rel \<noteq> None" and "a \<noteq> b" by (simp_all add: edge_ok_def named_def)
  show "story_row s a \<noteq> None" using claims_row assms(2) by blast
  then show "valid_no a" using stored_row(1) [OF assms(1)] by blast
  show "valid_no b" using claim_mem assms(2) by blast
qed

lemma consistent_iff_reciprocal:
  assumes ok: "store_ok s"
  shows "relations_consistent (store_story_map s) \<longleftrightarrow> reciprocal (claims s)"
proof
  assume cons: "relations_consistent (store_story_map s)"
  show "reciprocal (claims s)"
    unfolding reciprocal_def
  proof
    fix e assume e: "e \<in> claims s"
    obtain a rel b where abr: "e = (a, rel, b)" by (cases e)
    note ends = claim_ends [OF ok e [unfolded abr]]
    obtain t where t: "btm_get (store_story_map s) (to_id a (st_prefix s)) = Some t" "snap_id t = to_id a (st_prefix s)"
        "snap_relationships t = row_relations s a" by (rule story_map_stored [OF ok ends(1)])
    obtain u where u: "btm_get (store_story_map s) (to_id b (st_prefix s)) = Some u"
        "snap_relationships u = row_relations s b" by (rule story_map_stored [OF ok ends(2)])
    obtain opp where opp: "inverse_relation rel = Some opp" using ends(3) by blast
    have "t \<in> set (btm_values (store_story_map s))" using btm_values_mem [OF store_story_map_ok] t(1) by blast
    moreover have "StoryRelation rel (to_id b (st_prefix s)) \<in> set (snap_relationships t)"
      using claim_mem e unfolding abr t(3) by blast
    ultimately have "StoryRelation opp (to_id a (st_prefix s)) \<in> set (row_relations s b)"
      using cons u t(2) opp unfolding relations_consistent_def by fastforce
    then show "mirror e \<in> claims s" using ends(4) by (simp add: abr opp claims_def)
  qed
next
  assume rec: "reciprocal (claims s)"
  show "relations_consistent (store_story_map s)"
    unfolding relations_consistent_def
  proof (intro ballI)
    fix t r assume "t \<in> set (btm_values (store_story_map s))" and r: "r \<in> set (snap_relationships t)"
    then obtain k where "btm_get (store_story_map s) k = Some t" using btm_values_mem [OF store_story_map_ok] by blast
    then obtain a where a: "k = to_id a (st_prefix s)" "snap_id t = k" "snap_relationships t = row_relations s a"
      by (rule story_map_entry [OF ok])
    obtain b where b: "r = StoryRelation (relation r) (to_id b (st_prefix s))" "(a, relation r, b) \<in> claims s" "story_row s b \<noteq> None"
      "named (a, relation r, b)" using r unfolding a(3) by (rule claim_target [OF ok])
    obtain u where u: "btm_get (store_story_map s) (to_id b (st_prefix s)) = Some u"
        "snap_relationships u = row_relations s b" by (rule story_map_stored [OF ok b(3)])
    obtain opp where opp: "inverse_relation (relation r) = Some opp" using b(4) by (auto simp: named_def)
    have "other_id r = to_id b (st_prefix s)" using b(1) by (metis StoryRelation.sel(2))
    moreover have "(b, opp, a) \<in> claims s" using rec b(2) opp unfolding reciprocal_def by force
    ultimately show "case btm_get (store_story_map s) (other_id r) of None \<Rightarrow> False
        | Some other \<Rightarrow> (case inverse_relation (relation r) of None \<Rightarrow> True
            | Some expected \<Rightarrow> StoryRelation expected (snap_id t) \<in> set (snap_relationships other))"
      using u opp a(1,2) claim_mem by simp
  qed
qed

lemma arcs_of_claims:
  assumes ok: "store_ok s"
  shows "hierarchy_arcs (store_story_map s) [] = parent_arcs (st_prefix s) (claims s)"
proof (intro equalityI subsetI)
  fix x assume "x \<in> hierarchy_arcs (store_story_map s) []"
  then obtain t r p c where x: "x = (p, c)" and t: "t \<in> set (btm_values (store_story_map s))"
    and r: "r \<in> set (snap_relationships t)" and arc: "claimed_arc (store_story_map s) t r = Some (p, c)"
    by (cases x) (auto simp: hierarchy_arcs_def)
  obtain k where "btm_get (store_story_map s) k = Some t" using t btm_values_mem [OF store_story_map_ok] by blast
  then obtain a where a: "k = to_id a (st_prefix s)" "snap_id t = k" "snap_relationships t = row_relations s a"
    by (rule story_map_entry [OF ok])
  obtain b where b: "r = StoryRelation (relation r) (to_id b (st_prefix s))" "(a, relation r, b) \<in> claims s"
    using r unfolding a(3) by (rule claim_target [OF ok])
  have "other_id r = to_id b (st_prefix s)" using b(1) by (metis StoryRelation.sel(2))
  then have "relation r = ''parent-of'' \<and> x = (to_id a (st_prefix s), to_id b (st_prefix s))
      \<or> relation r = ''child-of'' \<and> x = (to_id b (st_prefix s), to_id a (st_prefix s))"
    using arc a(1,2) by (auto simp: x claimed_arc_def split: if_splits)
  then show "x \<in> parent_arcs (st_prefix s) (claims s)" using b(2) parent_arcsI by metis
next
  fix x assume "x \<in> parent_arcs (st_prefix s) (claims s)"
  then obtain a rel b where claim: "(a, rel, b) \<in> claims s"
    and x: "rel = ''parent-of'' \<and> x = (to_id a (st_prefix s), to_id b (st_prefix s))
      \<or> rel = ''child-of'' \<and> x = (to_id b (st_prefix s), to_id a (st_prefix s))"
    by (auto simp: parent_arcs_def)
  note ends = claim_ends [OF ok claim]
  obtain t where t: "btm_get (store_story_map s) (to_id a (st_prefix s)) = Some t" "snap_id t = to_id a (st_prefix s)"
      "snap_relationships t = row_relations s a" by (rule story_map_stored [OF ok ends(1)])
  obtain u where u: "btm_get (store_story_map s) (to_id b (st_prefix s)) = Some u" by (rule story_map_stored [OF ok ends(2)])
  have "t \<in> set (btm_values (store_story_map s))" using btm_values_mem [OF store_story_map_ok] t(1) by blast
  moreover have "StoryRelation rel (to_id b (st_prefix s)) \<in> set (snap_relationships t)" using claim_mem claim unfolding t(3) by blast
  moreover have "claimed_arc (store_story_map s) t (StoryRelation rel (to_id b (st_prefix s))) = Some x"
    using x t(2) u by (auto simp: claimed_arc_def btm_contains_def)
  ultimately show "x \<in> hierarchy_arcs (store_story_map s) []" by (cases x) (auto simp: hierarchy_arcs_def)
qed

section \<open>No service leaves a half edge or a cycle\<close>

definition graph_sound :: "Store \<Rightarrow> bool" where
  "graph_sound s \<longleftrightarrow> store_ok s \<and> compute_integrity_issues (store_story_map s) [] = []"

lemma graph_sound_iff:
  "graph_sound s \<longleftrightarrow> store_ok s \<and> reciprocal (claims s) \<and> acyclic (parent_arcs (st_prefix s) (claims s))"
  by (auto simp: graph_sound_def clean_report consistent_iff_reciprocal arcs_of_claims)

definition paired :: "edge set \<Rightarrow> bool" where
  "paired E \<longleftrightarrow> (\<forall>e. named e \<longrightarrow> e \<in> E \<longrightarrow> mirror e \<in> E) \<and> (\<forall>e. named e \<longrightarrow> mirror e \<in> E \<longrightarrow> e \<in> E)"

lemma paired_iff: "paired E \<Longrightarrow> named e \<Longrightarrow> mirror e \<in> E \<longleftrightarrow> e \<in> E"
  unfolding paired_def by blast

lemma reciprocal_set_edges:
  assumes "reciprocal C" and "\<And>e. e \<in> C \<Longrightarrow> named e" and "paired E" and "\<And>e. e \<in> E \<Longrightarrow> \<not> remove \<Longrightarrow> named e"
  shows "reciprocal (set_edges remove E C)"
  unfolding reciprocal_def
proof
  fix e assume e: "e \<in> set_edges remove E C"
  have C: "mirror e \<in> C \<and> named e" if "e \<in> C" using that assms(1,2) by (simp add: reciprocal_def)
  show "mirror e \<in> set_edges remove E C"
  proof (cases remove)
    case True
    then show ?thesis using e C paired_iff [OF assms(3), of e] unfolding set_edges_def by simp
  next
    case False
    then have "e \<in> C \<or> e \<in> E \<and> named e" using e assms(4) [of e] unfolding set_edges_def by auto
    then show ?thesis using C paired_iff [OF assms(3), of e] False unfolding set_edges_def by auto
  qed
qed

lemma reciprocal_diff:
  assumes "reciprocal C" and "\<And>e. e \<in> C \<Longrightarrow> named e" and "paired E"
  shows "reciprocal (C - E)"
  using reciprocal_set_edges [OF assms, of True] by (simp add: set_edges_def)

lemma paired_sym:
  assumes "\<And>e. named e \<Longrightarrow> e \<in> E \<Longrightarrow> mirror e \<in> E"
  shows "paired E"
  unfolding paired_def using assms mirror_mirror mirror_named by metis

lemma blocker_inverse: "inverse_relation ''blocks'' = Some ''blocked-by''" "inverse_relation ''blocked-by'' = Some ''blocks''"
  by (simp_all add: inverse_relation_def)

lemma paired_batch: "paired (batch_edges a B)"
  by (rule paired_sym) (auto simp: batch_edges_def blocker_inverse)

lemma paired_blocker: "paired (blocker_edges n)"
  by (rule paired_sym) (auto simp: blocker_edges_def blocker_inverse)

lemma paired_released: "paired (released ca a cb b)"
  using paired_blocker unfolding released_def paired_def by simp

lemma paired_relation: "inverse_relation r \<noteq> None \<Longrightarrow> paired (relation_pair a r b)"
  using mirror_mirror [of "(a, r, b)"] by (intro paired_sym) (simp add: relation_pair_def named_def del: mirror_simp, blast)

lemma claims_named: "store_ok s \<Longrightarrow> e \<in> claims s \<Longrightarrow> named e"
  using claim_ends(3) [of s "fst e" "fst (snd e)" "snd (snd e)"] by (simp add: named_def)

lemma parent_arcs_mono: "C \<subseteq> D \<Longrightarrow> parent_arcs pre C \<subseteq> parent_arcs pre D"
  by (auto simp: parent_arcs_def)

lemma parent_arcs_Un: "parent_arcs pre (C \<union> D) = parent_arcs pre C \<union> parent_arcs pre D"
  by (auto simp: parent_arcs_def)

lemma batch_arcs: "parent_arcs pre (batch_edges a B) = {}"
  by (auto simp: parent_arcs_def batch_edges_def)

lemma edge_batch_sound:
  assumes "graph_sound s" and "edge_batch g i blockers awaiting remove at s = Inr (touched, s')"
  shows "graph_sound s'"
proof -
  have ok: "store_ok s" and rec: "reciprocal (claims s)" and acyc: "acyclic (parent_arcs (st_prefix s) (claims s))"
    using assms(1) by (simp_all add: graph_sound_iff)
  obtain a B where s': "kept s s'" "claims s' = set_edges remove (batch_edges a B) (claims s)"
    using edge_batch_effect [OF assms(2) ok] by metis
  have "reciprocal (claims s')" unfolding s'(2)
    by (rule reciprocal_set_edges [OF rec claims_named [OF ok] paired_batch])
      (auto simp: batch_edges_def named_def blocker_inverse)
  moreover have "parent_arcs (st_prefix s) (claims s') \<subseteq> parent_arcs (st_prefix s) (claims s)"
    using parent_arcs_mono [of "claims s - batch_edges a B" "claims s"]
    by (simp add: s'(2) set_edges_def parent_arcs_Un batch_arcs)
  ultimately show ?thesis
    using s'(1) acyclic_subset [OF acyc] by (simp add: graph_sound_iff kept_def same_project_def)
qed

lemma parent_arcs_one:
  "parent_arcs pre {(a, r, b)} =
    (if r = ''parent-of'' then {(to_id a pre, to_id b pre)} else if r = ''child-of'' then {(to_id b pre, to_id a pre)} else {})"
  by (auto simp: parent_arcs_def)

lemma pair_arcs:
  assumes "inverse_relation r = Some opp"
  shows "parent_arcs pre (relation_pair a r b) =
    (if r = ''parent-of'' then {(to_id a pre, to_id b pre)} else if r = ''child-of'' then {(to_id b pre, to_id a pre)} else {})"
proof -
  have pair: "relation_pair a r b = {(a, r, b)} \<union> {(b, opp, a)}" using assms by (simp add: relation_pair_def insert_commute)
  have "opp = ''child-of'' \<longleftrightarrow> r = ''parent-of''" and "opp = ''parent-of'' \<longleftrightarrow> r = ''child-of''"
    using assms by (auto simp: inverse_relation_def split: if_splits)
  then show ?thesis unfolding pair parent_arcs_Un parent_arcs_one by simp
qed

lemma relation_word:
  "relation_edges rel = Some [(''parent-of'', opp)] \<Longrightarrow> rel = ''parent-of''"
  "relation_edges rel = Some [(''child-of'', opp)] \<Longrightarrow> rel = ''child-of''"
  by (simp_all add: relation_edges_def split: if_splits)

lemma admitted_arc_acyclic:
  assumes "acyclic (hierarchy_arcs stories [])" and "validate_parent_constraints stories a b rel = Inr ()"
    and "relation_edges rel = Some [(r, opp)]"
  shows "acyclic (hierarchy_arcs stories [] \<union>
    (if r = ''parent-of'' then {(a, b)} else if r = ''child-of'' then {(b, a)} else {}))"
  using assms relation_word [of rel opp] cycle_guard [of a b stories] cycle_guard [of b a stories]
  by (auto simp: validate_parent_constraints_def split: if_splits)

lemma relate_tx_sound:
  assumes "graph_sound s" and "relate_tx g a rel b remove at s = Inr (out, s')"
  shows "graph_sound s'"
proof -
  have ok: "store_ok s" and rec: "reciprocal (claims s)" and acyc: "acyclic (parent_arcs (st_prefix s) (claims s))"
    using assms(1) by (simp_all add: graph_sound_iff)
  obtain an bn r ca cb where ab: "a = to_id an (st_prefix s)" "b = to_id bn (st_prefix s)"
    and r: "relation_edges rel = Some [(r, the (inverse_relation r))]" "inverse_relation r \<noteq> None"
    and s': "kept s s'" "claims s' = set_edges remove (relation_pair an r bn) (claims s) - released ca an cb bn"
    and guard: "\<not> remove \<longrightarrow> \<not> ca \<and> \<not> cb \<and> validate_parent_constraints (store_story_map s) a b rel = Inr ()"
    using relate_tx_effect [OF assms(2) ok] by metis
  obtain opp where opp: "inverse_relation r = Some opp" using r(2) by blast
  have named: "named e" if "e \<in> relation_pair an r bn" for e
    using that opp inverse_relation_back [OF opp] by (auto simp: relation_pair_def named_def)
  let ?C = "set_edges remove (relation_pair an r bn) (claims s)"
  have rec': "reciprocal ?C" using rec claims_named [OF ok] paired_relation [OF r(2)] named by (intro reciprocal_set_edges) blast+
  have "named e" if "e \<in> ?C" for e using that named [of e] claims_named [OF ok, of e] by (auto simp: set_edges_def split: if_splits)
  then have "reciprocal (claims s')" unfolding s'(2) by (rule reciprocal_diff [OF rec' _ paired_released])
  moreover have "acyclic (parent_arcs (st_prefix s) (claims s'))"
  proof (cases remove)
    case True
    then have "claims s' \<subseteq> claims s" by (auto simp: s'(2) set_edges_def)
    then show ?thesis using acyclic_subset [OF acyc parent_arcs_mono] by blast
  next
    case False
    then have "claims s' = claims s \<union> relation_pair an r bn" using guard by (simp add: s'(2) set_edges_def released_def)
    then have "parent_arcs (st_prefix s) (claims s') = hierarchy_arcs (store_story_map s) []
        \<union> (if r = ''parent-of'' then {(a, b)} else if r = ''child-of'' then {(b, a)} else {})"
      by (simp add: parent_arcs_Un pair_arcs [OF opp] ab arcs_of_claims [OF ok])
    then show ?thesis using admitted_arc_acyclic [of "store_story_map s" a b rel r] acyc guard False r(1)
      by (simp add: arcs_of_claims [OF ok])
  qed
  ultimately show ?thesis using s'(1) by (simp add: graph_sound_iff kept_def same_project_def)
qed

lemma deriving_sound [simp]: "graph_sound (s\<lparr>st_deriving := d\<rparr>) \<longleftrightarrow> graph_sound s"
  by (simp add: graph_sound_def)

lemma write_stories_ok:
  assumes "write_stories g f s = (Inr x, s')"
  obtains t where "f (s\<lparr>st_deriving := True\<rparr>) = Inr (x, t)" and "s' = t\<lparr>st_deriving := False\<rparr>"
  using assms by (auto simp: write_stories_def Let_def result_bind_eq_Inr split: sum.splits if_splits prod.splits)

lemma write_stories_refused: "write_stories g f s = (Inl e, s') \<Longrightarrow> s' = s"
  by (auto simp: write_stories_def split: sum.splits prod.splits)

text \<open>
  A transaction body that keeps a property of the store: whatever it returns, the transaction leaves the
  property in place, as long as the property does not depend on the derivation flag.
\<close>

locale sound_tx =
  fixes ok :: "Store \<Rightarrow> bool" and tx :: "Store \<Rightarrow> ('a \<times> Store) result"
  assumes flag: "ok (s\<lparr>st_deriving := d\<rparr>) \<longleftrightarrow> ok s"
    and keeps: "ok s \<Longrightarrow> tx s = Inr (x, s') \<Longrightarrow> ok s'"
begin

lemma commit_sound:
  assumes "ok s"
  shows "ok (snd (write_stories g tx s))"
proof (cases "write_stories g tx s")
  case (Pair r s')
  show ?thesis
  proof (cases r)
    case (Inl e)
    then have "s' = s" using write_stories_refused Pair by metis
    then show ?thesis using Pair assms by simp
  next
    case (Inr x)
    then obtain t where "tx (s\<lparr>st_deriving := True\<rparr>) = Inr (x, t)" and "s' = t\<lparr>st_deriving := False\<rparr>"
      using Pair write_stories_ok [of g tx s x s'] by auto
    then show ?thesis using keeps [of "s\<lparr>st_deriving := True\<rparr>" x t] assms Pair by (simp add: flag)
  qed
qed

end

interpretation one_relation: sound_tx graph_sound "relate_tx g a rel b remove at" for g a rel b remove at
  by unfold_locales (simp, rule relate_tx_sound)

interpretation blocker_batch: sound_tx graph_sound "edge_batch g i blockers awaiting remove at" for g i blockers awaiting remove at
  by unfold_locales (simp, rule edge_batch_sound)

inductive service_step :: "Store \<Rightarrow> Store \<Rightarrow> bool" where
  relates: "service_step s (snd (relate g a rel b remove at s))"
| blocks: "service_step s (snd (block_on g i blockers awaiting at s))"
| unblocks: "service_step s (snd (unblock_from g i blockers at s))"

lemma service_step_sound: "service_step s s' \<Longrightarrow> graph_sound s \<Longrightarrow> graph_sound s'"
  by (induction rule: service_step.induct)
    (simp_all add: relate_def block_on_def unblock_from_def one_relation.commit_sound blocker_batch.commit_sound)

text \<open>
  However many relations are added and removed, by one relation or by a batch of blockers, accepted or
  refused, the integrity report of the project stays empty: every claimed edge names a story that exists
  and that claims the inverse, no story is its own ancestor, the relation table is exactly the claimed
  edges in both directions, and every row is the fold of its log.
\<close>

theorem relation_services_sound: "service_step\<^sup>*\<^sup>* s s' \<Longrightarrow> graph_sound s \<Longrightarrow> graph_sound s'"
  by (induction rule: rtranclp_induct) (simp_all add: service_step_sound)

text \<open>
  An accepted relation is recorded from both ends and changes nothing else of the graph: the claimed
  edges afterwards are those before, with the relation and its inverse.
\<close>

theorem relate_records_both_ends:
  assumes "relate g a rel b False at s = (Inr out, s')" and "store_ok s"
  shows "\<exists>an bn r. a = to_id an (st_prefix s) \<and> b = to_id bn (st_prefix s) \<and> an \<noteq> bn
    \<and> relation_edges rel = Some [(r, the (inverse_relation r))]
    \<and> claims s' = claims s \<union> {(an, r, bn), (bn, the (inverse_relation r), an)}"
proof -
  obtain t where t: "relate_tx g a rel b False at (s\<lparr>st_deriving := True\<rparr>) = Inr (out, t)" and s': "s' = t\<lparr>st_deriving := False\<rparr>"
    using assms(1) unfolding relate_def by (rule write_stories_ok)
  have "store_ok (s\<lparr>st_deriving := True\<rparr>)" using assms(2) by simp
  then obtain an bn r ca cb where "a = to_id an (st_prefix s)" "b = to_id bn (st_prefix s)" "an \<noteq> bn"
    "relation_edges rel = Some [(r, the (inverse_relation r))]"
    "claims t = set_edges False (relation_pair an r bn) (claims s) - released ca an cb bn" "\<not> ca \<and> \<not> cb"
    by (rule relate_tx_effect [OF t]) simp
  then show ?thesis by (auto simp: s' relation_pair_def set_edges_def released_def)
qed

lemma batch_commit:
  assumes "store_ok s" and "write_stories g (edge_batch g i blockers awaiting remove at) s = (Inr touched, s')"
  obtains a B where "i = to_id a (st_prefix s)" and "set blockers = (\<lambda>b. to_id b (st_prefix s)) ` B" and "a \<notin> B"
    and "claims s' = set_edges remove (batch_edges a B) (claims s)"
proof -
  obtain t where t: "edge_batch g i blockers awaiting remove at (s\<lparr>st_deriving := True\<rparr>) = Inr (touched, t)"
    and s': "s' = t\<lparr>st_deriving := False\<rparr>" using assms(2) by (rule write_stories_ok)
  have "store_ok (s\<lparr>st_deriving := True\<rparr>)" using assms(1) by simp
  then show thesis by (rule edge_batch_effect [OF t]) (use that s' in simp)
qed

lemma batch_edges_alt: "batch_edges a B = {(b, ''blocks'', a) | b. b \<in> B} \<union> {(a, ''blocked-by'', b) | b. b \<in> B}"
  by (auto simp: batch_edges_def)

text \<open>
  Naming blockers records exactly the edges named: after an accepted call the story is blocked by each
  of them and each of them blocks it, and no other edge changed.
\<close>

theorem block_on_records_edges:
  assumes "store_ok s" and "block_on g i blockers awaiting at s = (Inr touched, s')"
  shows "\<exists>a B. i = to_id a (st_prefix s) \<and> set blockers = (\<lambda>b. to_id b (st_prefix s)) ` B \<and> a \<notin> B
    \<and> claims s' = claims s \<union> ({(b, ''blocks'', a) | b. b \<in> B} \<union> {(a, ''blocked-by'', b) | b. b \<in> B})"
proof -
  obtain a B where "i = to_id a (st_prefix s)" "set blockers = (\<lambda>b. to_id b (st_prefix s)) ` B" "a \<notin> B"
    "claims s' = set_edges False (batch_edges a B) (claims s)"
    by (rule batch_commit [OF assms(1) assms(2) [unfolded block_on_def]])
  then show ?thesis unfolding set_edges_def batch_edges_alt by (intro exI [of _ a] exI [of _ B]) simp
qed

text \<open>
  The inverse call takes exactly the named edges away, from both ends.
\<close>

theorem unblock_from_removes_edges:
  assumes "store_ok s" and "unblock_from g i blockers at s = (Inr touched, s')"
  shows "\<exists>a B. i = to_id a (st_prefix s) \<and> set blockers = (\<lambda>b. to_id b (st_prefix s)) ` B \<and> a \<notin> B
    \<and> claims s' = claims s - ({(b, ''blocks'', a) | b. b \<in> B} \<union> {(a, ''blocked-by'', b) | b. b \<in> B})"
proof -
  obtain a B where "i = to_id a (st_prefix s)" "set blockers = (\<lambda>b. to_id b (st_prefix s)) ` B" "a \<notin> B"
    "claims s' = set_edges True (batch_edges a B) (claims s)"
    by (rule batch_commit [OF assms(1) assms(2) [unfolded unblock_from_def]])
  then show ?thesis unfolding set_edges_def batch_edges_alt by (intro exI [of _ a] exI [of _ B]) simp
qed

text \<open>
  When a blocker has closed, retracting its edges leaves no story blocked by it and touches no edge it
  does not block through, whichever of the two histories held the edge.
\<close>

theorem closed_blocker_retracted:
  assumes "retract_closed_blocker_edges g n at s = Inr (events, s')" and "store_ok s" and "valid_no n"
  shows "store_ok s' \<and> claims s' = {e \<in> claims s. \<not> (fst (snd e) = ''blocked-by'' \<and> snd (snd e) = n) \<and> \<not> (fst e = n \<and> fst (snd e) = ''blocks'')}"
proof -
  have "x \<in> blocker_edges n \<longleftrightarrow> fst (snd x) = ''blocked-by'' \<and> snd (snd x) = n \<or> fst x = n \<and> fst (snd x) = ''blocks''" for x
    by (cases x) (auto simp: blocker_edges_def)
  then show ?thesis using retract_effect [OF assms] by (auto simp: kept_def)
qed

text \<open>
  A parent that would become its own descendant is refused with the message that names both stories,
  and the store is left as it was.
\<close>

theorem relate_refuses_cycle:
  assumes "resolve_open_story a s = Inr (an, a_row)" and "resolve_story b s = Inr (bn, b_row)" and "a \<noteq> b"
    and "would_create_parent_cycle (store_story_map s) a b" and "\<not> st_deriving s"
  shows "relate g a ''parent-of'' b False at s =
    (Inl (Validation (''adding `parent-of` from `'' @ a @ ''` to `'' @ b @ ''` would create a cycle'')), s)"
proof -
  let ?s = "s\<lparr>st_deriving := True\<rparr>"
  have "resolve_open_story a ?s = Inr (an, a_row)" "resolve_story b ?s = Inr (bn, b_row)"
    using assms(1,2) by (simp_all add: resolve_open_story_iff resolve_story_iff)
  then have "relate_tx g a ''parent-of'' b False at ?s =
      Inl (Validation (''adding `parent-of` from `'' @ a @ ''` to `'' @ b @ ''` would create a cycle''))"
    using assms(3,4) by (simp add: relate_tx_def relation_edges_def validate_parent_constraints_def)
  then show ?thesis using assms(5) by (simp add: relate_def write_stories_def)
qed

section \<open>Two stories, related\<close>

definition sample_related :: "RelationOutcome result \<times> Store" where
  "sample_related = relate sample_guards ''SH-1'' ''parent-of'' ''SH-2'' False ''t2'' sample_store"

definition sample_blocked :: "string list result \<times> Store" where
  "sample_blocked = block_on sample_guards ''SH-1'' [''SH-2'', ''SH-2''] (Some '' review '') ''t3'' sample_store"

definition sample_unblocked :: "string list result \<times> Store" where
  "sample_unblocked = unblock_from sample_guards ''SH-1'' [''SH-2''] ''t4'' (snd sample_blocked)"

definition sample_retracted :: "(StoryEvent list \<times> Store) result" where
  "sample_retracted = retract_closed_blocker_edges sample_guards 2 ''t5'' ((snd sample_blocked)\<lparr>st_deriving := True\<rparr>)"

lemma sample_runs:
  "is_ok (fst sample_related)" "fst sample_blocked = Inr [''SH-2'']" "fst sample_unblocked = Inr [''SH-2'']"
  "st_relations (snd sample_blocked) = [(1, ''blocked-by'', 2), (2, ''blocks'', 1)]" "is_ok sample_retracted"
  by code_simp+

lemma sample_sound: "graph_sound sample_store"
proof -
  have "compute_integrity_issues (store_story_map sample_store) [] = []" by code_simp
  then show ?thesis using sample_store_ok by (simp add: graph_sound_def)
qed

theorem relation_services_sound_witness:
  "graph_sound (snd (unblock_from sample_guards ''SH-1'' [''SH-2''] ''t4'' (snd sample_blocked)))"
proof -
  have "service_step sample_store (snd sample_blocked)"
    unfolding sample_blocked_def by (rule service_step.blocks)
  moreover have "service_step (snd sample_blocked) (snd (unblock_from sample_guards ''SH-1'' [''SH-2''] ''t4'' (snd sample_blocked)))"
    by (rule service_step.unblocks)
  ultimately show ?thesis
    using relation_services_sound [OF _ sample_sound] by (meson converse_rtranclp_into_rtranclp r_into_rtranclp)
qed

lemma sample_related_ok: "\<exists>out. relate sample_guards ''SH-1'' ''parent-of'' ''SH-2'' False ''t2'' sample_store = (Inr out, snd sample_related)"
  using sample_runs(1) unfolding sample_related_def is_ok_iff by (metis prod.collapse)

theorem relate_records_both_ends_witness:
  "\<exists>an bn r. ''SH-1'' = to_id an ''SH'' \<and> ''SH-2'' = to_id bn ''SH'' \<and> an \<noteq> bn
    \<and> relation_edges ''parent-of'' = Some [(r, the (inverse_relation r))]
    \<and> claims (snd sample_related) = claims sample_store \<union> {(an, r, bn), (bn, the (inverse_relation r), an)}"
  using sample_related_ok relate_records_both_ends [OF _ sample_store_ok] by (auto simp: sample_store_def)

lemma sample_blocked_ok: "block_on sample_guards ''SH-1'' [''SH-2'', ''SH-2''] (Some '' review '') ''t3'' sample_store = (Inr [''SH-2''], snd sample_blocked)"
  using sample_runs(2) unfolding sample_blocked_def by (metis prod.collapse)

theorem block_on_records_edges_witness:
  "\<exists>a B. ''SH-1'' = to_id a ''SH'' \<and> {''SH-2''} = (\<lambda>b. to_id b ''SH'') ` B \<and> a \<notin> B
    \<and> claims (snd sample_blocked) = claims sample_store \<union> ({(b, ''blocks'', a) | b. b \<in> B} \<union> {(a, ''blocked-by'', b) | b. b \<in> B})"
  using block_on_records_edges [OF sample_store_ok sample_blocked_ok] by (simp add: sample_store_def)

lemma sample_blocked_sound: "graph_sound (snd sample_blocked)" "st_prefix (snd sample_blocked) = ''SH''"
  unfolding sample_blocked_def block_on_def by (rule blocker_batch.commit_sound [OF sample_sound]) code_simp

lemma sample_blocked_store_ok: "store_ok (snd sample_blocked)"
  using sample_blocked_sound by (simp add: graph_sound_def)

lemma sample_unblocked_ok: "unblock_from sample_guards ''SH-1'' [''SH-2''] ''t4'' (snd sample_blocked) = (Inr [''SH-2''], snd sample_unblocked)"
  using sample_runs(3) unfolding sample_unblocked_def by (metis prod.collapse)

theorem unblock_from_removes_edges_witness:
  "\<exists>a B. ''SH-1'' = to_id a ''SH'' \<and> {''SH-2''} = (\<lambda>b. to_id b ''SH'') ` B \<and> a \<notin> B
    \<and> claims (snd sample_unblocked) = claims (snd sample_blocked) - ({(b, ''blocks'', a) | b. b \<in> B} \<union> {(a, ''blocked-by'', b) | b. b \<in> B})"
  using unblock_from_removes_edges [OF sample_blocked_store_ok sample_unblocked_ok] by (simp add: sample_blocked_sound)

theorem closed_blocker_retracted_witness:
  "\<exists>events s'. sample_retracted = Inr (events, s') \<and> store_ok s'
    \<and> claims s' = {e \<in> claims (snd sample_blocked). \<not> (fst (snd e) = ''blocked-by'' \<and> snd (snd e) = 2) \<and> \<not> (fst e = 2 \<and> fst (snd e) = ''blocks'')}"
proof -
  obtain events s' where r: "sample_retracted = Inr (events, s')" using sample_runs(5) by (auto simp: is_ok_iff)
  have "store_ok ((snd sample_blocked)\<lparr>st_deriving := True\<rparr>)" using sample_blocked_store_ok by simp
  then show ?thesis using closed_blocker_retracted [OF r [unfolded sample_retracted_def] _ valid_one(2)] r
    by (intro exI [of _ events] exI [of _ s']) simp
qed

lemma sample_cycle:
  "is_ok (resolve_open_story ''SH-2'' (snd sample_related))" "is_ok (resolve_story ''SH-1'' (snd sample_related))"
  "would_create_parent_cycle (store_story_map (snd sample_related)) ''SH-2'' ''SH-1''" "\<not> st_deriving (snd sample_related)"
  by code_simp+

theorem relate_refuses_cycle_witness:
  "relate sample_guards ''SH-2'' ''parent-of'' ''SH-1'' False ''t3'' (snd sample_related) =
     (Inl (Validation (''adding `parent-of` from `'' @ ''SH-2'' @ ''` to `'' @ ''SH-1'' @ ''` would create a cycle'')), snd sample_related)"
proof -
  obtain an a_row bn b_row where "resolve_open_story ''SH-2'' (snd sample_related) = Inr (an, a_row)"
      "resolve_story ''SH-1'' (snd sample_related) = Inr (bn, b_row)"
    using sample_cycle(1,2) by (auto simp: is_ok_iff)
  then show ?thesis using relate_refuses_cycle sample_cycle(3,4) by simp
qed

end
