(* ===== verification/Story_Lifecycle.thy ===== *)
theory Story_Lifecycle
  imports Ready_Service Relation_Invariant
begin

text \<open>
  What the story service guarantees of the store: every operation, refused or accepted, keeps the rows, the
  relation table and the hierarchy consistent; numbers are never handed out twice; a deletion leaves no
  trace; a claim and its release are inverse; and the dry runs answer what the real runs do.
\<close>

section \<open>The invariant of a project\<close>

definition numbers_ok :: "Store \<Rightarrow> bool" where
  "numbers_ok s \<longleftrightarrow> 1 \<le> st_next_no s \<and> (\<forall>no. story_row s no \<noteq> None \<longrightarrow> no < st_next_no s)"

definition project_ok :: "Store \<Rightarrow> bool" where
  "project_ok s \<longleftrightarrow> graph_sound s \<and> numbers_ok s"

lemma deriving_project [simp]: "project_ok (s\<lparr>st_deriving := d\<rparr>) \<longleftrightarrow> project_ok s"
  by (simp add: project_ok_def numbers_ok_def)

lemma kept_numbers: "kept s s' \<Longrightarrow> numbers_ok s \<Longrightarrow> numbers_ok s'"
  by (simp add: kept_def numbers_ok_def same_project_def)

text \<open>
  The abstract tracker: which numbers name a story, which edges the histories claim, and the next number.
  Its steps are the contract of the services: a relation is added or removed from both ends, a batch of
  blockers is recorded, a story is filed under the next number, a story is dropped with all its edges.
\<close>

definition touching :: "int \<Rightarrow> edge set" where
  "touching n = {e. fst e = n \<or> snd (snd e) = n}"

record Tracker =
  tr_live :: "int set"
  tr_edges :: "edge set"
  tr_next :: int
  tr_prefix :: string

definition tracker_of :: "Store \<Rightarrow> Tracker" where
  "tracker_of s = \<lparr>tr_live = {no. story_row s no \<noteq> None}, tr_edges = claims s, tr_next = st_next_no s,
     tr_prefix = st_prefix s\<rparr>"

inductive tracker_step :: "Tracker \<Rightarrow> Tracker \<Rightarrow> bool" where
  linking: "a \<in> tr_live T \<Longrightarrow> b \<in> tr_live T \<Longrightarrow> a \<noteq> b \<Longrightarrow> inverse_relation r \<noteq> None \<Longrightarrow>
     tracker_step T (T\<lparr>tr_edges := tr_edges T \<union> relation_pair a r b\<rparr>)"
| blocking: "a \<in> tr_live T \<Longrightarrow> B \<subseteq> tr_live T \<Longrightarrow> a \<notin> B \<Longrightarrow>
     tracker_step T (T\<lparr>tr_edges := tr_edges T \<union> batch_edges a B\<rparr>)"
| cutting: "paired E \<Longrightarrow> tracker_step T (T\<lparr>tr_edges := tr_edges T - E\<rparr>)"
| filing: "B \<subseteq> tr_live T \<Longrightarrow> n = tr_next T \<Longrightarrow> n \<notin> tr_live T \<Longrightarrow>
     tracker_step T (T\<lparr>tr_live := insert n (tr_live T), tr_edges := tr_edges T \<union> batch_edges n B, tr_next := n + 1\<rparr>)"
| dropping: "n \<in> tr_live T \<Longrightarrow>
     tracker_step T (T\<lparr>tr_live := tr_live T - {n}, tr_edges := tr_edges T - touching n\<rparr>)"

text \<open>A store that is sound and that the abstract tracker can have reached from \<open>T\<close>.\<close>

definition tracks :: "Tracker \<Rightarrow> Store \<Rightarrow> bool" where
  "tracks T s \<longleftrightarrow> project_ok s \<and> tracker_step\<^sup>*\<^sup>* T (tracker_of s)"

lemma tracks_start: "project_ok s \<Longrightarrow> tracks (tracker_of s) s"
  by (simp add: tracks_def)

lemma tracks_step: "tracks T s \<Longrightarrow> project_ok s' \<Longrightarrow> tracker_step (tracker_of s) (tracker_of s') \<Longrightarrow> tracks T s'"
  by (auto simp: tracks_def intro: rtranclp.rtrancl_into_rtrancl)

lemma deriving_tracks [simp]: "tracks T (s\<lparr>st_deriving := d\<rparr>) \<longleftrightarrow> tracks T s"
  by (simp add: tracks_def tracker_of_def)

lemma tracks_store: "tracks T s \<Longrightarrow> store_ok s"
  by (simp add: tracks_def project_ok_def graph_sound_def)

lemma kept_tracker: "kept s s' \<Longrightarrow> tracker_of s' = (tracker_of s)\<lparr>tr_edges := claims s'\<rparr>"
  by (simp add: tracker_of_def kept_def same_project_def)

text \<open>Removing edges in pairs keeps a sound graph sound.\<close>

lemma fewer_edges_sound:
  assumes "tracks T s" and "kept s s'" and "claims s' = claims s - E" and "paired E"
  shows "tracks T s'"
proof -
  have ok: "store_ok s" and rec: "reciprocal (claims s)" and acyc: "acyclic (parent_arcs (st_prefix s) (claims s))"
    using assms(1) by (simp_all add: tracks_def project_ok_def graph_sound_iff)
  have "reciprocal (claims s')" unfolding assms(3) by (rule reciprocal_diff [OF rec claims_named [OF ok] assms(4)])
  moreover have "acyclic (parent_arcs (st_prefix s) (claims s'))"
    using acyclic_subset [OF acyc parent_arcs_mono] by (simp add: assms(3))
  moreover have "numbers_ok s'" using kept_numbers assms(1,2) by (simp add: tracks_def project_ok_def)
  ultimately have "project_ok s'" using assms(2) by (simp add: project_ok_def graph_sound_iff kept_def same_project_def)
  moreover have "tracker_step (tracker_of s) (tracker_of s')"
    using cutting [OF assms(4), of "tracker_of s"] by (simp add: kept_tracker [OF assms(2)] assms(3)) (simp add: tracker_of_def)
  ultimately show ?thesis by (rule tracks_step [OF assms(1)])
qed

lemma paired_empty [simp]: "paired {}"
  by (simp add: paired_def)

abbreviation plain :: "StoryEvent list \<Rightarrow> bool" where
  "plain es \<equiv> list_all (\<lambda>e. \<not> changes_relations e) es"

lemma plain_append_effect:
  assumes "append_and_fold g no expected es s = Inr (snapshot, s')" and "tracks T s"
    and "story_row s no = Some row" and "plain es"
  shows "kept s s'" and "claims s' = claims s" and "tracks T s'"
proof -
  have ok: "store_ok s" using assms(2) by (rule tracks_store)
  have "appended no es s snapshot s'" using append_effect(1) [OF assms(1) ok stored_valid [OF ok assms(3)]] .
  then have wrote: "wrote no es s s'" by (rule appended_wrote)
  then show kept: "kept s s'" using wrote_kept assms(3) by blast
  show same: "claims s' = claims s" using wrote plain_events_claims [OF assms(4)] by (simp add: wrote_def)
  show "tracks T s'" using fewer_edges_sound [OF assms(2) kept, of "{}"] same by simp
qed

lemma retract_project:
  assumes "retract_closed_blocker_edges g no at s = Inr (events, s')" and "tracks T s" and "story_row s no = Some row"
  shows "kept s s'" and "claims s' = claims s - blocker_edges no" and "tracks T s'"
proof -
  have ok: "store_ok s" using assms(2) by (rule tracks_store)
  note effect = retract_effect [OF assms(1) ok stored_valid [OF ok assms(3)]]
  then show "kept s s'" and "claims s' = claims s - blocker_edges no" by blast+
  show "tracks T s'" by (rule fewer_edges_sound [OF assms(2) effect paired_blocker])
qed

lemma plain_transition: "plain extra \<Longrightarrow> plain (state_transition_events target awaiting at extra)"
  by (simp add: state_transition_events_def changes_relations_def)

lemma transition_effect:
  assumes "append_state_transition g no row target at extra s = Inr (snapshot, s')" and "tracks T s"
    and "story_row s no = Some row'" and "plain extra"
  shows "kept s s'" and "tracks T s'"
    and "claims s' = claims s - (if sd_super target = Closed then blocker_edges no else {})"
proof -
  obtain t u where t: "append_and_fold g no (Exact (row_head_seq row))
      (state_transition_events target (snap_awaiting (row_snapshot row) \<noteq> None) at extra) s = Inr (u, t)"
    and rest: "if sd_super target \<noteq> Closed then s' = t
      else \<exists>events. retract_closed_blocker_edges g no at t = Inr (events, s')"
    using assms(1) by (auto simp: append_state_transition_def result_bind_eq_Inr split: if_splits option.splits)
  note first = plain_append_effect [OF t assms(2,3) plain_transition [OF assms(4)]]
  have "kept s s' \<and> tracks T s' \<and> claims s' = claims s - (if sd_super target = Closed then blocker_edges no else {})"
  proof (cases "sd_super target = Closed")
    case True
    then obtain events where r: "retract_closed_blocker_edges g no at t = Inr (events, s')" using rest by auto
    obtain row2 where "story_row t no = Some row2" using first(1) assms(3) by (fastforce simp: kept_def)
    then show ?thesis using retract_project [OF r first(3)] first(1,2) kept_trans True by auto
  next
    case False
    then show ?thesis using rest first by simp
  qed
  then show "kept s s'" and "tracks T s'"
    and "claims s' = claims s - (if sd_super target = Closed then blocker_edges no else {})" by blast+
qed

section \<open>Edits\<close>

lemma intent_row: "intent_resolve intent i s = Inr (no, row) \<Longrightarrow> story_row s no = Some row"
  by (cases intent) (simp_all add: resolve_open_story_iff resolve_story_iff)

lemma edit_story_effect:
  assumes "edit_story_tx g i intent build s = Inr (snapshot, s')" and "tracks T s"
    and "\<And>row es. build row = Inr es \<Longrightarrow> plain es"
  shows "kept s s' \<and> claims s' = claims s \<and> tracks T s'"
proof -
  obtain no row es where row: "intent_resolve intent i s = Inr (no, row)" and es: "build row = Inr es"
    and rest: "if es = [] then s' = s else append_and_fold g no (Exact (row_head_seq row)) es s = Inr (snapshot, s')"
    using assms(1) by (auto simp: edit_story_tx_def result_bind_eq_Inr split: if_splits)
  show ?thesis
  proof (cases "es = []")
    case True
    then show ?thesis using rest assms(2) by (simp add: kept_refl tracks_store)
  next
    case False
    then have "append_and_fold g no (Exact (row_head_seq row)) es s = Inr (snapshot, s')" using rest by simp
    then show ?thesis using plain_append_effect [OF _ assms(2) intent_row [OF row] assms(3) [OF es]] by blast
  qed
qed

lemma edit_story_sound:
  assumes "\<And>row es. build row = Inr es \<Longrightarrow> plain es"
  shows "sound_tx (tracks T) (edit_story_tx g i intent build)"
  by unfold_locales (simp, use edit_story_effect assms in blast)

lemma edit_keeps:
  assumes "tracks T s" and "\<And>row es. build row = Inr es \<Longrightarrow> plain es"
  shows "tracks T (snd (edit_story g i intent build s))"
  unfolding edit_story_def using sound_tx.commit_sound [OF edit_story_sound assms(1)] assms(2) by blast

lemma plain_events [simp]:
  "\<not> changes_relations (StoryCommentAdded at t)" "\<not> changes_relations (StoryPrioritySet at p)" "\<not> changes_relations (StoryLabelsSet at ls)"
  "\<not> changes_relations (StoryAwaitingSet at t)" "\<not> changes_relations (StoryAwaitingCleared at)" "\<not> changes_relations (StoryStateChanged at st)"
  "\<not> changes_relations (StoryHidden at)" "\<not> changes_relations (StoryUnhidden at)" "\<not> changes_relations (StoryPublished at)" "\<not> changes_relations (StoryTitleSet at t)"
  "\<not> changes_relations (StoryComplexitySet at c)" "\<not> changes_relations (StoryTypeSet at t)" "\<not> changes_relations (StoryDescriptionSet at t)"
  "\<not> changes_relations (StoryCreated at t st)" "\<not> changes_relations (StoryCreatedAsDraft at)" "\<not> changes_relations (StoryCleanupLeaseRecorded at l)"
  by (simp_all add: changes_relations_def)

lemma edits_keep_project:
  assumes "tracks T s"
  shows "tracks T (snd (comment_story g i text at s))" and "tracks T (snd (set_priority g i p at s))"
    and "tracks T (snd (set_labels g i add rem at s))" and "tracks T (snd (set_awaiting g i reason at s))"
    and "tracks T (snd (clear_awaiting g i at s))"
proof -
  note keeps = edit_keeps [OF assms]
  show "tracks T (snd (comment_story g i text at s))" unfolding comment_story_def by (rule keeps) auto
  show "tracks T (snd (set_priority g i p at s))"
    using assms by (auto simp: set_priority_def intro!: keeps split: sum.split)
  show "tracks T (snd (set_labels g i add rem at s))" unfolding set_labels_def Let_def by (rule keeps) auto
  show "tracks T (snd (set_awaiting g i reason at s))"
    using assms by (auto simp: set_awaiting_def Let_def intro!: keeps)
  show "tracks T (snd (clear_awaiting g i at s))" unfolding clear_awaiting_def by (rule keeps) (auto split: if_splits)
qed

section \<open>State changes\<close>

lemma claim_events_plain: "plain (claim_comment_events comment at)"
  by (simp add: claim_comment_events_def split: option.split)

lemma unclaim_events_plain: "plain (unclaim_comment_events comment outcome at)"
  by (simp add: unclaim_comment_events_def split: UnclaimComment.split)

lemma set_state_steps:
  assumes "set_state_tx g i state comment if_state awaiting lease at s = Inr ((before, after), s')"
  obtains no row target extra where "resolve_open_story i s = Inr (no, row)" and "before = row_snapshot row"
    and "btm_get (catalog_of (st_states s)) state = Some target" and "plain extra"
    and "append_state_transition g no row target at extra s = Inr (after, s')"
proof -
  obtain no row target c where r: "resolve_open_story i s = Inr (no, row)" "before = row_snapshot row"
    and target: "require_state state (catalog_of (st_states s)) = Inr target"
    and a: "append_state_transition g no row target at (move_extra lease c awaiting at) s = Inr (after, s')"
    using assms unfolding set_state_tx_def Let_def by (auto simp: result_bind_eq_Inr split: if_splits)
  have "btm_get (catalog_of (st_states s)) state = Some target"
    using target by (simp add: require_state_def split: option.splits)
  moreover have "plain (move_extra lease c awaiting at)" by (simp add: move_extra_def split: option.split)
  ultimately show thesis using that r a by blast
qed

lemma set_state_tx_sound: "sound_tx (tracks T) (set_state_tx g i state comment if_state awaiting lease at)"
proof (unfold_locales)
  fix s s' and x :: "StorySnapshot \<times> StorySnapshot"
  assume ok: "tracks T s" and tx: "set_state_tx g i state comment if_state awaiting lease at s = Inr (x, s')"
  obtain before after where x: "x = (before, after)" by (cases x)
  obtain no row target extra where r: "resolve_open_story i s = Inr (no, row)" and p: "plain extra"
    and a: "append_state_transition g no row target at extra s = Inr (after, s')"
    using tx unfolding x by (rule set_state_steps)
  have "story_row s no = Some row" using r by (simp add: resolve_open_story_iff resolve_story_iff)
  then show "tracks T s'" using transition_effect(2) [OF a ok _ p] by blast
qed simp

lemma comment_keeps_tracks: "tracks T s \<Longrightarrow> comment_story g i msg at s = (r, s') \<Longrightarrow> tracks T s'"
  using edits_keep_project(1) [of T s g i msg at] by simp

lemma flush_keeps: "tracks T s \<Longrightarrow> flush g i at s = (r, s') \<Longrightarrow> tracks T s'"
  by (auto simp: flush_def dest: comment_keeps_tracks split: prod.splits option.splits sum.splits)

lemma publish_keeps:
  assumes "tracks T s"
  shows "tracks T (snd (publish_or_record g i at s))"
proof -
  obtain r1 s1 where first: "flush g i at s = (r1, s1)" by (cases "flush g i at s")
  have s1: "tracks T s1" by (rule flush_keeps [OF assms first])
  then show ?thesis
    by (auto simp: publish_or_record_def first dest: comment_keeps_tracks split: sum.split prod.split)
qed

lemma flush_override_keeps: "tracks T s \<Longrightarrow> tracks T (snd (flush_override g i state comment at s))"
  by (simp add: flush_override_def publish_keeps split: sum.split)

lemma move_story_keeps:
  assumes "tracks T s"
  shows "tracks T (snd (move_story g i state comment if_state awaiting automated at s))"
proof -
  have "tracks T (snd (write_stories g (set_state_tx g i state comment if_state reason lease at) s))" for reason lease
    by (rule sound_tx.commit_sound [OF set_state_tx_sound assms])
  then show ?thesis using assms by (auto simp: move_story_def split: sum.split prod.split) (metis snd_conv)+
qed

lemma set_state_keeps:
  assumes "tracks T s"
  shows "tracks T (snd (set_state g i state comment if_state awaiting at s))"
proof -
  obtain r t where t: "flush_override g i state comment at s = (r, t)" by (cases "flush_override g i state comment at s")
  then have "tracks T t" using flush_override_keeps [OF assms, of g i state comment at] by simp
  then show ?thesis using assms move_story_keeps by (simp add: set_state_def t split: sum.split)
qed

lemma open_row: "resolve_open_story i s = Inr (no, row) \<Longrightarrow> story_row s no = Some row"
  by (simp add: resolve_open_story_iff resolve_story_iff)

lemma claim_story_sound: "sound_tx (tracks T) (claim_story_tx g i comment at)"
  by unfold_locales (simp,
    auto simp: claim_story_tx_def result_bind_eq_Inr split: if_splits
      dest!: plain_append_effect(3) [OF _ _ open_row plain_transition [OF claim_events_plain]])

text \<open>A claim of the next story, with whatever the caller runs after it in the transaction.\<close>

lemma claim_next_sound:
  assumes "\<And>before after s s'. tracks T s \<Longrightarrow> after_claim before after s = Inr s' \<Longrightarrow> tracks T s'"
  shows "sound_tx (tracks T) (claim_next_tx g filters comment eligible after_claim at)"
proof (unfold_locales)
  fix s s' and x :: "(StorySnapshot \<times> StorySnapshot) option"
  assume ok: "tracks T s" and tx: "claim_next_tx g filters comment eligible after_claim at s = Inr (x, s')"
  from tx show "tracks T s'"
  proof (cases rule: claim_next_steps)
    case none
    then show ?thesis using ok by simp
  next
    case (claimed active candidate rest no row after u)
    have "tracks T u" by (rule plain_append_effect(3) [OF claimed(5) ok open_row [OF claimed(4)] plain_transition [OF claim_events_plain]])
    then show ?thesis using claimed(6) by (rule assms)
  qed
qed simp

lemma unclaim_story_sound: "sound_tx (tracks T) (unclaim_story_tx g i comment at)"
  by unfold_locales (simp,
    auto simp: unclaim_story_tx_def result_bind_eq_Inr Let_def split: if_splits option.splits
      dest!: plain_append_effect(3) [OF _ _ open_row plain_transition [OF unclaim_events_plain]])

lemma reopen_sound: "sound_tx (tracks T) (reopen_tx g i at)"
  by unfold_locales (simp,
    auto simp: reopen_tx_def result_bind_eq_Inr resolve_story_iff split: if_splits
      dest!: plain_append_effect(3))

lemma hide_sound: "sound_tx (tracks T) (hide_tx g i at)"
  by unfold_locales (simp,
    auto simp: hide_tx_def result_bind_eq_Inr resolve_story_iff split: if_splits dest!: plain_append_effect(3))

lemma unhide_sound: "sound_tx (tracks T) (unhide_tx g i at)"
  by unfold_locales (simp,
    auto simp: unhide_tx_def result_bind_eq_Inr resolve_story_iff split: if_splits dest!: plain_append_effect(3))

lemma publish_sound: "sound_tx (tracks T) (publish_tx g i at)"
  by unfold_locales (simp,
    auto simp: publish_tx_def result_bind_eq_Inr resolve_story_iff split: if_splits dest!: plain_append_effect(3))

section \<open>Setting fields\<close>

definition plain_plan :: "EditPlan \<Rightarrow> bool" where
  "plain_plan plan \<longleftrightarrow> plain (ep_events plan)"

lemma push_edit_plain [intro]: "plain_plan plan \<Longrightarrow> plain es \<Longrightarrow> plain_plan (push_edit es change plan)"
  by (simp add: push_edit_def plain_plan_def)

lemma push_plain:
  assumes "plain_plan plan"
  shows "push_state_change states story slug at plan = Inr p \<Longrightarrow> plain_plan p"
    and "push_complexity raw at plan = Inr p \<Longrightarrow> plain_plan p"
    and "push_priority raw at plan = Inr p \<Longrightarrow> plain_plan p"
    and "push_type slug at s plan = Inr p \<Longrightarrow> plain_plan p"
  using assms plain_transition [of "[]"]
  by (auto simp: push_state_change_def push_complexity_def push_priority_def push_type_def push_edit_def
      result_bind_eq_Inr plain_plan_def split: option.splits)

lemma json_field_plain:
  assumes "apply_json_field g states story key v at s plan = Inr p" and "plain_plan plan"
  shows "plain_plan p"
  using assms unfolding apply_json_field_def Let_def
  by (auto simp: result_bind_eq_Inr dest: push_plain [OF assms(2)] split: if_split_asm JsonValue.split_asm)

lemma json_fields_plain:
  "apply_json_fields g states story fs at s plan = Inr p \<Longrightarrow> plain_plan plan \<Longrightarrow> plain_plan p"
proof (induction fs arbitrary: plan)
  case (Cons f fs)
  obtain key v where f: "f = (key, v)" by (cases f)
  obtain q where "apply_json_field g states story key v at s plan = Inr q" "apply_json_fields g states story fs at s q = Inr p"
    using Cons.prems(1) by (auto simp: f result_bind_eq_Inr)
  then show ?case using Cons.IH json_field_plain Cons.prems(2) by blast
qed simp

lemma json_patch_plain:
  "apply_json_patch g states story raw at s plan = Inr p \<Longrightarrow> plain_plan plan \<Longrightarrow> plain_plan p"
  by (auto simp: apply_json_patch_def json_fields_plain split: sum.splits JsonValue.splits)

lemma when_some_plain:
  "when_some v f plan = Inr p \<Longrightarrow> plain_plan plan \<Longrightarrow> (\<And>x q. f x plan = Inr q \<Longrightarrow> plain_plan q) \<Longrightarrow> plain_plan p"
  by (auto simp: when_some_def split: option.splits)

lemma when_some_push:
  assumes "plain_plan plan" and "\<And>x. plain (es x)"
  shows "when_some v (\<lambda>x plan. Inr (push_edit (es x) (c x) plan)) plan = Inr p \<Longrightarrow> plain_plan p"
  using assms by (auto simp: when_some_def split: option.splits)

lemma plan_field_edits_plain:
  assumes "plan_field_edits g states story edits at s = Inr plan"
  shows "plain_plan plan"
proof -
  let ?start = "\<lparr>ep_events = [], ep_changes = [], ep_moved_to = None\<rparr> :: EditPlan"
  have start: "plain_plan ?start" by (simp add: plain_plan_def)
  obtain p1 p2 p3 p4 p5 p6 p7 p8 p9 where
    1: "when_some (fe_title edits) (\<lambda>title plan. Inr (push_edit [StoryTitleSet at title] (''title -> '' @ title) plan)) ?start = Inr p1"
    and 2: "when_some (fe_state edits) (\<lambda>slug. push_state_change states story slug at) p1 = Inr p2"
    and 3: "when_some (fe_complexity edits) (\<lambda>raw. push_complexity raw at) p2 = Inr p3"
    and 4: "when_some (fe_priority edits) (\<lambda>raw. push_priority raw at) p3 = Inr p4"
    and 5: "when_some (fe_labels edits) (\<lambda>csv plan.
        Inr (push_edit [StoryLabelsSet at (normalize_labels (guard_lower g) (snap_labels story @ [csv]))] (''labels += '' @ csv) plan)) p4 = Inr p5"
    and 6: "when_some (fe_blocked edits) (\<lambda>reason plan. Inr (push_edit [StoryAwaitingSet at reason] (''blocked: '' @ reason) plan)) p5 = Inr p6"
    and 7: "(if fe_unblocked edits then Inr (push_edit [StoryAwaitingCleared at] ''unblocked'' p6) else Inr p6) = (Inr p7 :: EditPlan result)"
    and 8: "when_some (fe_story_type edits) (\<lambda>slug. push_type slug at s) p7 = Inr p8"
    and 9: "when_some (fe_description edits) (\<lambda>d plan. Inr (push_edit [StoryDescriptionSet at d] ''description updated'' plan)) p8 = Inr p9"
    and 10: "when_some (fe_json edits) (\<lambda>raw. apply_json_patch g states story raw at s) p9 = Inr plan"
    using assms unfolding plan_field_edits_def result_bind_eq_Inr by blast
  have "plain_plan p1" by (rule when_some_push [OF start _ 1]) simp
  then have "plain_plan p2" using when_some_plain [OF 2] push_plain(1) by blast
  then have "plain_plan p3" using when_some_plain [OF 3] push_plain(2) by blast
  then have "plain_plan p4" using when_some_plain [OF 4] push_plain(3) by blast
  then have "plain_plan p5" by (rule when_some_push [OF _ _ 5]) simp
  then have "plain_plan p6" by (rule when_some_push [OF _ _ 6]) simp
  then have "plain_plan p7" using 7 by (auto split: if_splits)
  then have "plain_plan p8" using when_some_plain [OF 8] push_plain(4) by blast
  then have "plain_plan p9" by (rule when_some_push [OF _ _ 9]) simp
  then show ?thesis using when_some_plain [OF 10] json_patch_plain by blast
qed

lemma set_fields_sound: "sound_tx (tracks T) (set_fields_tx g i edits at)"
proof (unfold_locales)
  fix s s' and x :: "EditPlan \<times> StorySnapshot \<times> StorySnapshot"
  assume ok: "tracks T s" and tx: "set_fields_tx g i edits at s = Inr (x, s')"
  obtain no row plan snapshot t where r: "resolve_open_story i s = Inr (no, row)"
    and plan: "plan_field_edits g (catalog_of (st_states s)) (row_snapshot row) edits at s = Inr plan"
    and t: "append_and_fold g no (Exact (row_head_seq row)) (ep_events plan) s = Inr (snapshot, t)"
    and rest: "s' = t \<or> (\<exists>events. retract_closed_blocker_edges g no at t = Inr (events, s'))"
    using tx unfolding set_fields_tx_def Let_def
    by (auto simp: result_bind_eq_Inr split: if_splits option.splits)
  note first = plain_append_effect [OF t ok open_row [OF r] plan_field_edits_plain [OF plan, unfolded plain_plan_def]]
  obtain row2 where "story_row t no = Some row2" using first(1) open_row [OF r] by (fastforce simp: kept_def)
  then show "tracks T s'" using rest first(3) retract_project(3) by blast
qed simp

lemma set_fields_keeps: "tracks T s \<Longrightarrow> tracks T (snd (set_fields g i edits at s))"
  using sound_tx.commit_sound [OF set_fields_sound [of T g i edits at], of s g]
  by (auto simp: set_fields_def split: prod.splits sum.splits)

lemma bulk_updates_keep: "tracks T s \<Longrightarrow> tracks T (snd (bulk_updates g states updates at s))"
proof (induction updates arbitrary: s)
  case (Cons u updates)
  obtain i slug where u: "u = (i, slug)" by (cases u)
  have "tracks T (snd (set_state g i slug None None None at s))" by (rule set_state_keeps [OF Cons.prems])
  then show ?case using Cons by (auto simp: u Let_def split: prod.splits) (metis snd_conv)+
qed simp

lemma bulk_update_keeps: "tracks T s \<Longrightarrow> tracks T (snd (bulk_update g updates at s))"
  using bulk_updates_keep [of T s g "catalog_of (st_states s)" updates at]
  by (cases "bulk_updates g (catalog_of (st_states s)) updates at s") (simp add: bulk_update_def)

section \<open>Archiving a column\<close>

lemma hide_rows_effect:
  "hide_rows g rows at s = Inr s' \<Longrightarrow> tracks T s \<Longrightarrow> (\<forall>r \<in> set rows. story_row s (row_no r) \<noteq> None) \<Longrightarrow>
     kept s s' \<and> claims s' = claims s \<and> tracks T s'"
proof (induction rows arbitrary: s)
  case Nil
  then show ?case by (simp add: kept_refl tracks_store)
next
  case (Cons r rows)
  obtain u t where t: "append_and_fold g (row_no r) (Exact (row_head_seq r)) [StoryHidden at] s = Inr (u, t)"
    and rest: "hide_rows g rows at t = Inr s'" using Cons.prems(1) by (auto simp: result_bind_eq_Inr)
  obtain row where row: "story_row s (row_no r) = Some row" using Cons.prems(3) by auto
  have "plain [StoryHidden at]" by simp
  note first = plain_append_effect [OF t Cons.prems(2) row this]
  have "\<forall>r \<in> set rows. story_row t (row_no r) \<noteq> None" using Cons.prems(3) first(1) by (simp add: kept_def)
  then show ?case using Cons.IH [OF rest first(3)] first(1,2) kept_trans by metis
qed

lemma hide_state_sound: "sound_tx (tracks T) (hide_state_tx g slug at)"
proof (unfold_locales)
  fix s s' and x :: "int list"
  assume ok: "tracks T s" and tx: "hide_state_tx g slug at s = Inr (x, s')"
  obtain rows where rows: "archivable_occupants slug s = Inr rows" and hide: "hide_rows g rows at s = Inr s'"
    using tx by (auto simp: hide_state_tx_def result_bind_eq_Inr)
  have sorted: "btm_ok (st_stories s)" using tracks_store [OF ok] by (simp add: store_ok_def read_model_ok_def)
  have "story_row s (row_no r) \<noteq> None" if "r \<in> set rows" for r
  proof -
    have "r \<in> set (btm_values (st_stories s))"
      using rows that by (auto simp: archivable_occupants_def Let_def split: option.splits if_splits)
    then obtain k where k: "story_row s k = Some r" using btm_values_mem [OF sorted] by (auto simp: story_row_def)
    then have "row_ok s k r" using tracks_store [OF ok] by (simp add: store_ok_def read_model_ok_def)
    then show ?thesis using k by (simp add: row_ok_def)
  qed
  then show "tracks T s'" using hide_rows_effect [OF hide ok] by blast
qed simp

lemma hide_state_keeps: "tracks T s \<Longrightarrow> tracks T (snd (hide_state g slug at s))"
  using sound_tx.commit_sound [OF hide_state_sound [of T g slug at], of s g]
  by (auto simp: hide_state_def split: prod.splits sum.splits)

section \<open>Deletion\<close>

lemma paired_touching: "paired (touching n)"
  by (auto simp: paired_def touching_def mirror_ends simp del: mirror_simp)

lemma retract_claims_effect:
  assumes "retract_claims g cs (to_id n (st_prefix s)) at s = Inr s'" and "store_ok s" and "valid_no n"
  shows "kept s s' \<and> claims s' = claims s - {(a, rel, n) | a rel. valid_no a \<and> (to_id a (st_prefix s), rel) \<in> set cs}"
  using assms
proof (induction cs arbitrary: s)
  case Nil
  then show ?case by (simp add: kept_refl)
next
  case (Cons c cs)
  obtain other rel where c: "c = (other, rel)" by (cases c)
  let ?i = "to_id n (st_prefix s)"
  obtain a row u t where a: "resolve_story other s = Inr (a, row)"
    and t: "append_and_fold g a (Exact (row_head_seq row)) [StoryRelationshipRemoved at ?i rel] s = Inr (u, t)"
    and rest: "retract_claims g cs ?i at t = Inr s'"
    using Cons.prems(1) by (auto simp: c result_bind_eq_Inr)
  have row: "other = to_id a (st_prefix s)" "valid_no a" "story_row s a = Some row" using a by (simp_all add: resolve_story_iff)
  have wrote: "wrote a [StoryRelationshipRemoved at ?i rel] s t"
    using appended_wrote append_effect(1) [OF t Cons.prems(2) row(2)] by blast
  then have kept: "kept s t" using wrote_kept row(3) by simp
  then have t_ok: "store_ok t" "st_prefix t = st_prefix s" by (simp_all add: kept_def same_project_def)
  have "claims t = claims s - {(a, rel, n)}"
    using wrote valid_target [OF Cons.prems(3), of a rel "st_prefix s"] by (simp add: wrote_def)
  moreover have "kept t s' \<and> claims s' = claims t - {(a, rel, n) | a rel. valid_no a \<and> (to_id a (st_prefix s), rel) \<in> set cs}"
    using Cons.IH [of t] rest t_ok Cons.prems(3) by simp
  ultimately show ?case using kept_trans [OF kept] row(1,2) to_id_inject by (auto simp: c)
qed

lemma surviving_claims_cover:
  assumes "store_ok s" and "(a, rel, n) \<in> claims s"
  shows "(to_id a (st_prefix s), rel) \<in> set (surviving_claims n (to_id n (st_prefix s)) s)"
proof -
  have "(a, rel, n) \<in> set (st_relations s)" using assms unfolding store_ok_def graph_ok_def by blast
  then have edge: "(a, rel) \<in> set (relations_to s n)" by (force simp: relations_to_def)
  obtain row where row: "story_row s a = Some row" using claims_row [OF assms(2)] by blast
  have "StoryRelation rel (to_id n (st_prefix s)) \<in> set (snap_relationships (row_snapshot row))"
    using claim_mem [OF assms(2)] row by (simp add: row_relations_def)
  then have "(to_id a (st_prefix s), rel) \<in> set (map (\<lambda>r. (to_id a (st_prefix s), relation r))
      (filter (\<lambda>r. other_id r = to_id n (st_prefix s)) (snap_relationships (row_snapshot row))))" by force
  then have "(to_id a (st_prefix s), rel) \<in> set ((\<lambda>(a, _). (case story_row s a of None \<Rightarrow> []
      | Some row \<Rightarrow> map (\<lambda>r. (to_id a (st_prefix s), relation r))
          (filter (\<lambda>r. other_id r = to_id n (st_prefix s)) (snap_relationships (row_snapshot row))))) (a, rel))"
    by (simp only: row prod.case option.case)
  then show ?thesis using edge unfolding surviving_claims_def set_bset_collect set_concat set_map by blast
qed

lemma bset_ok_filter: "bset_ok xs \<Longrightarrow> bset_ok (filter p xs)"
  by (simp add: bset_ok_def sorted_wrt_filter)

lemma map_of_filter_key: "map_of (filter (\<lambda>(k, _). k \<noteq> n) m) a = (if a = n then None else map_of m a)"
  by (induction m) auto

lemma btm_ok_filter: "btm_ok m \<Longrightarrow> btm_ok (filter (\<lambda>(k, _). k \<noteq> n) m)"
  unfolding btm_ok_def by (induction m) auto

lemma purge_effect:
  assumes purge: "purge_story n s = Inr (removed, s')" and ok: "store_ok s"
    and inbound: "\<And>a rel. (a, rel, n) \<notin> claims s"
  shows "store_ok s'" and "same_project s s'" and "claims s' = claims s - touching n"
    and "story_row s' a = (if a = n then None else story_row s a)" and "stored_events s' n = []"
proof -
  have s': "s' = s\<lparr>st_relations := filter (\<lambda>(a, _, b). a \<noteq> n \<and> b \<noteq> n) (st_relations s),
      st_stories := filter (\<lambda>(a, _). a \<noteq> n) (st_stories s), st_events := filter (\<lambda>(a, _). a \<noteq> n) (st_events s)\<rparr>"
    using purge by (auto simp: purge_story_def split: option.splits)
  have rows: "story_row s' a = (if a = n then None else story_row s a)" for a
    by (simp add: s' story_row_def btm_get_def map_of_filter_key)
  have logs: "stored_events s' a = (if a = n then [] else stored_events s a)" for a
    by (simp add: s' stored_events_def btm_get_def map_of_filter_key)
  show "story_row s' a = (if a = n then None else story_row s a)" and "stored_events s' n = []" using rows logs by simp_all
  show same: "same_project s s'" by (simp add: same_project_def s')
  have rel: "row_relations s' a = (if a = n then [] else row_relations s a)" for a by (simp add: row_relations_def rows)
  have mem: "e \<in> claims s' \<longleftrightarrow> e \<in> claims s \<and> fst e \<noteq> n" for e
    using same by (cases e) (auto simp: claims_def rel same_project_def)
  then have claims: "claims s' = claims s - touching n"
    using inbound by (auto simp: touching_def)
  then show "claims s' = claims s - touching n" .
  have old: "\<And>e. e \<in> claims s \<Longrightarrow> edge_ok s e" "set (st_relations s) = claims s \<union> mirror ` claims s" "bset_ok (st_relations s)"
    "\<And>a r. r \<in> set (row_relations s a) \<Longrightarrow> \<exists>b. valid_no b \<and> other_id r = to_id b (st_prefix s)"
    using ok unfolding store_ok_def graph_ok_def by blast+
  have "set (st_relations s') = (claims s \<union> mirror ` claims s) - touching n"
    by (auto simp: s' old(2) [symmetric] touching_def)
  also have "\<dots> = claims s' \<union> mirror ` claims s'"
    unfolding claims touching_def by (auto simp: mirror_ends simp del: mirror_simp)
  finally have table: "set (st_relations s') = claims s' \<union> mirror ` claims s'" .
  have "edge_ok s' e" if "e \<in> claims s'" for e
    using that old(1) [of e] claims unfolding edge_ok_def touching_def by (auto simp: rows)
  moreover have "\<exists>b. valid_no b \<and> other_id r = to_id b (st_prefix s')" if "r \<in> set (row_relations s' a)" for a r
    using that old(4) same by (auto simp: rel same_project_def split: if_splits)
  moreover have "bset_ok (st_relations s')" using old(3) by (simp add: s' bset_ok_filter)
  ultimately have "graph_ok s'" unfolding graph_ok_def using table by blast
  moreover have "read_model_ok s'"
  proof -
    have "row_ok s' a row" if "story_row s' a = Some row" for a row
      using that ok same by (auto simp: rows logs store_ok_def read_model_ok_def row_ok_def head_seq_def same_project_def split: if_splits)
    moreover have "stored_events s' a = []" if "story_row s' a = None" for a
      using that ok by (auto simp: rows logs store_ok_def read_model_ok_def split: if_splits)
    moreover have "btm_ok (st_stories s')"
      using ok by (simp add: s' btm_ok_filter store_ok_def read_model_ok_def)
    ultimately show ?thesis by (simp add: read_model_ok_def)
  qed
  ultimately show "store_ok s'" by (simp add: store_ok_def)
qed

lemma delete_effect:
  assumes tx: "delete_tx g i at s = Inr (d, s')" and ok: "tracks T s"
  obtains n where "i = to_id n (st_prefix s)" and "story_row s n \<noteq> None" and "tracks T s'"
    and "claims s' = claims s - touching n" and "\<And>a. story_row s' a = None \<longleftrightarrow> a = n \<or> story_row s a = None"
    and "stored_events s' n = []" and "same_project s s'"
proof -
  obtain n row t removed where n: "resolve_story i s = Inr (n, row)"
    and t: "retract_claims g (surviving_claims n (to_id n (st_prefix s)) s) (to_id n (st_prefix s)) at s = Inr t"
    and purge: "purge_story n t = Inr (removed, s')"
    using tx by (auto simp: delete_tx_def Let_def result_bind_eq_Inr)
  have row: "i = to_id n (st_prefix s)" "valid_no n" "story_row s n = Some row" using n by (simp_all add: resolve_story_iff)
  have s_ok: "store_ok s" by (rule tracks_store [OF ok])
  have first: "kept s t" "claims t = claims s - {(a, rel, n) | a rel. valid_no a
      \<and> (to_id a (st_prefix s), rel) \<in> set (surviving_claims n (to_id n (st_prefix s)) s)}"
    using retract_claims_effect [OF t s_ok row(2)] by blast+
  have inbound: "(a, rel, n) \<notin> claims t" for a rel
    using first(2) surviving_claims_cover [OF s_ok] claim_ends(4) [OF s_ok] by blast
  have t_ok: "store_ok t" using first(1) by (simp add: kept_def)
  note gone = purge_effect [OF purge t_ok inbound]
  have "claims t - touching n = claims s - touching n" unfolding first(2) touching_def by auto
  then have claims: "claims s' = claims s - touching n" using gone(3) by simp
  have same: "same_project s s'" using first(1) gone(2) same_project_trans by (auto simp: kept_def)
  have rows: "story_row s' a = None \<longleftrightarrow> a = n \<or> story_row s a = None" for a
    using gone(4) [of a] first(1) by (simp add: kept_def)
  have g: "reciprocal (claims s)" "acyclic (parent_arcs (st_prefix s) (claims s))" "numbers_ok s"
    using ok by (simp_all add: tracks_def project_ok_def graph_sound_iff)
  have "reciprocal (claims s')" unfolding claims by (rule reciprocal_diff [OF g(1) claims_named [OF s_ok] paired_touching])
  moreover have "acyclic (parent_arcs (st_prefix s) (claims s'))"
    using acyclic_subset [OF g(2) parent_arcs_mono] by (simp add: claims)
  moreover have "numbers_ok s'" using g(3) rows same by (auto simp: numbers_ok_def same_project_def)
  ultimately have sound: "project_ok s'" using gone(1) same by (simp add: project_ok_def graph_sound_iff same_project_def)
  have "tracker_of s' = (tracker_of s)\<lparr>tr_live := tr_live (tracker_of s) - {n}, tr_edges := tr_edges (tracker_of s) - touching n\<rparr>"
    using claims rows same by (auto simp: tracker_of_def same_project_def)
  moreover have "n \<in> tr_live (tracker_of s)" using row(3) by (simp add: tracker_of_def)
  ultimately have "tracker_step (tracker_of s) (tracker_of s')" using dropping [of n "tracker_of s"] by (simp only:)
  then have "tracks T s'" by (rule tracks_step [OF ok sound])
  then show thesis using that row(1,3) claims rows gone(5) same by blast
qed

lemma delete_sound: "sound_tx (tracks T) (delete_tx g i at)"
  by unfold_locales (simp, metis delete_effect)

lemma delete_keeps: "tracks T s \<Longrightarrow> tracks T (snd (delete_story g i at s))"
  using sound_tx.commit_sound [OF delete_sound [of T g i at], of s g]
  by (auto simp: delete_story_def split: prod.splits sum.splits)

section \<open>Creation\<close>

lemma base_creation_plain:
  assumes "base_creation_events g states input at s = Inr es"
  shows "plain es"
proof -
  have "plain c" if "complexity_events raw at = Inr c" for raw c
    using that by (auto simp: complexity_events_def result_bind_eq_Inr split: option.splits)
  then show ?thesis using assms
    by (auto simp: base_creation_events_def result_bind_eq_Inr Let_def split: option.split)
qed

lemma added_claims:
  assumes "\<And>b. b \<in> set bs \<Longrightarrow> valid_no (rb_no b) \<and> rb_id b = to_id (rb_no b) pre"
  shows "foldl (claim_step no pre) C (map (\<lambda>b. StoryRelationshipAdded at (rb_id b) rel) bs)
    = C \<union> (\<lambda>b. (no, rel, rb_no b)) ` set bs"
  using assms
proof (induction bs arbitrary: C)
  case (Cons b bs)
  have "claim_step no pre C (StoryRelationshipAdded at (rb_id b) rel) = C \<union> {(no, rel, rb_no b)}"
    using Cons.prems [of b] valid_target [of "rb_no b" no rel pre] by simp
  then show ?case using Cons by auto
qed simp

lemma next_no_free [simp]:
  "story_row (s\<lparr>st_next_no := k\<rparr>) = story_row s" "claims (s\<lparr>st_next_no := k\<rparr>) = claims s"
  "store_ok (s\<lparr>st_next_no := k\<rparr>) \<longleftrightarrow> store_ok s"
proof -
  show rows: "story_row (s\<lparr>st_next_no := k\<rparr>) = story_row s" by (simp add: story_row_def fun_eq_iff)
  have rel: "row_relations (s\<lparr>st_next_no := k\<rparr>) = row_relations s" by (simp add: row_relations_def rows fun_eq_iff)
  show claims: "claims (s\<lparr>st_next_no := k\<rparr>) = claims s" by (simp add: claims_def rel)
  have "stored_events (s\<lparr>st_next_no := k\<rparr>) = stored_events s" by (simp add: stored_events_def fun_eq_iff)
  then show "store_ok (s\<lparr>st_next_no := k\<rparr>) \<longleftrightarrow> store_ok s"
    by (simp add: store_ok_def read_model_ok_def row_ok_def head_seq_def graph_ok_def edge_ok_def rows rel claims)
qed

lemma create_effect:
  assumes tx: "create_tx g input at s = Inr (snapshot, s')" and ok: "tracks T s"
  defines "n \<equiv> st_next_no s"
  obtains B where "snap_id snapshot = to_id n (st_prefix s)" and "valid_no n" and "story_row s n = None"
    and "set (ns_blocked_by input) = (\<lambda>b. to_id b (st_prefix s)) ` B" and "\<And>b. b \<in> B \<Longrightarrow> story_row s b \<noteq> None"
    and "claims s' = claims s \<union> batch_edges n B" and "\<And>a. story_row s' a = None \<longleftrightarrow> a \<noteq> n \<and> story_row s a = None"
    and "st_next_no s' = n + 1" and "st_prefix s' = st_prefix s" and "store_ok s'"
proof -
  let ?s = "s\<lparr>st_next_no := n + 1\<rparr>"
  let ?add = "\<lambda>bs. map (\<lambda>b. StoryRelationshipAdded at (rb_id b) ''blocked-by'') bs"
  obtain base bs t touched where base: "base_creation_events g (st_states s) input at s = Inr base"
    and bs: "resolve_unseen None [] (ns_blocked_by input) s = Inr bs"
    and bound: "n + 1 < 2 ^ 63"
    and t: "append_and_fold g n (Exact 0) (base @ ?add bs) ?s = Inr (snapshot, t)"
    and s': "append_blocks_edges g bs (snap_id snapshot) at False t = Inr (touched, s')"
    using tx unfolding create_tx_def resolve_blockers_def allocate_story_no_def Let_def n_def
    by (auto simp: result_bind_eq_Inr split: if_splits)
  have s_ok: "store_ok s" by (rule tracks_store [OF ok])
  have nums: "1 \<le> n" "\<And>a. story_row s a \<noteq> None \<Longrightarrow> a < n"
    using ok by (simp_all add: tracks_def project_ok_def numbers_ok_def n_def)
  have n: "valid_no n" "story_row s n = None"
    using bound nums(1) nums(2) [of n] by (simp add: valid_no_def) (use nums(2) [of n] in \<open>cases "story_row s n"; simp\<close>)
  have res: "list_all (resolved s) bs" "distinct (map rb_no bs)" "set (map rb_id bs) = set (ns_blocked_by input)"
    using resolve_unseen_rows [OF bs] by (auto simp: list_all_iff)
  have app: "appended n (base @ ?add bs) ?s snapshot t" using append_effect(1) [OF t _ n(1)] s_ok by simp
  then have wrote: "wrote n (base @ ?add bs) ?s t" by (rule appended_wrote)
  then have t_ok: "store_ok t" and pre: "st_prefix t = st_prefix s" and nxt: "st_next_no t = n + 1"
    by (simp_all add: wrote_def same_project_def)
  have rb: "valid_no (rb_no b)" "rb_id b = to_id (rb_no b) (st_prefix s)" "story_row s (rb_no b) = Some (rb_row b)" "rb_no b \<noteq> n"
    if "b \<in> set bs" for b
    using res(1) that n(2) by (auto simp: list_all_iff resolved_def)
  have claims_t: "claims t = claims s \<union> (\<lambda>b. (n, ''blocked-by'', rb_no b)) ` set bs"
    using wrote added_claims [of bs "st_prefix s" n] rb(1,2) plain_events_claims [OF base_creation_plain [OF base]]
    by (simp add: wrote_def)
  have t_row: "story_row t n = Some (row_of n (head_seq ?s n + int (length (base @ ?add bs))) snapshot)"
    using app by (simp add: appended_def)
  have i: "snap_id snapshot = to_id n (st_prefix t)" using stored_row(2) [OF t_ok t_row] by simp
  have rows_t: "story_row t a = story_row s a" if "a \<noteq> n" for a using wrote that by (simp add: wrote_def)
  have "blocker_ok t n b" if "b \<in> set bs" for b
    using rb [OF that] rows_t [of "rb_no b"] has_relation_claim [OF rb(3) [OF that] n(1), of "''blocks''"]
    by (auto simp: blocker_ok_def pre claims_t)
  then have last: "kept t s' \<and> claims s' = set_edges False ((\<lambda>b. (rb_no b, ''blocks'', n)) ` set bs) (claims t)"
    using append_blocks_edges_effect [of g bs n t at False touched s'] s' i t_ok n(1) res(2) by (simp add: list_all_iff)
  show thesis
  proof (rule that [of "rb_no ` set bs"])
    show "claims s' = claims s \<union> batch_edges n (rb_no ` set bs)"
      using last unfolding claims_t by (auto simp: set_edges_def batch_edges_def image_image)
    show "set (ns_blocked_by input) = (\<lambda>b. to_id b (st_prefix s)) ` rb_no ` set bs"
      unfolding res(3) [symmetric] set_map image_image using rb(2) by (rule image_cong [OF refl])
    show "story_row s' a = None \<longleftrightarrow> a \<noteq> n \<and> story_row s a = None" for a
      using last rows_t [of a] t_row by (cases "a = n") (simp_all add: kept_def)
    show "st_next_no s' = n + 1" "st_prefix s' = st_prefix s" "store_ok s'"
      using last nxt pre by (simp_all add: kept_def same_project_def)
  qed (use i pre n rb(3) in auto)
qed

lemma create_sound: "sound_tx (tracks T) (create_tx g input at)"
proof (unfold_locales)
  fix s s' snapshot
  assume ok: "tracks T s" and tx: "create_tx g input at s = Inr (snapshot, s')"
  have s_ok: "store_ok s" and g: "reciprocal (claims s)" "acyclic (parent_arcs (st_prefix s) (claims s))" "numbers_ok s"
    using ok by (simp_all add: tracks_def project_ok_def graph_sound_iff)
  obtain B where claims: "claims s' = claims s \<union> batch_edges (st_next_no s) B"
    and rows: "\<And>a. story_row s' a = None \<longleftrightarrow> a \<noteq> st_next_no s \<and> story_row s a = None"
    and s': "st_next_no s' = st_next_no s + 1" "st_prefix s' = st_prefix s" "store_ok s'"
    and fresh: "story_row s (st_next_no s) = None" and live: "\<And>b. b \<in> B \<Longrightarrow> story_row s b \<noteq> None"
    using create_effect [OF tx ok] by metis
  have "reciprocal (set_edges False (batch_edges (st_next_no s) B) (claims s))"
    by (rule reciprocal_set_edges [OF g(1) claims_named [OF s_ok] paired_batch])
      (auto simp: batch_edges_def named_def blocker_inverse)
  moreover have "parent_arcs (st_prefix s) (claims s') = parent_arcs (st_prefix s) (claims s)"
    by (simp add: claims parent_arcs_Un batch_arcs)
  moreover have "no < st_next_no s'" if "story_row s' no \<noteq> None" for no
    using that rows [of no] g(3) s'(1) by (fastforce simp: numbers_ok_def)
  ultimately have sound: "project_ok s'"
    using g(2,3) s' by (simp add: project_ok_def graph_sound_iff numbers_ok_def claims set_edges_def)
  let ?T = "tracker_of s"
  have "tracker_of s' = ?T\<lparr>tr_live := insert (st_next_no s) (tr_live ?T),
      tr_edges := tr_edges ?T \<union> batch_edges (st_next_no s) B, tr_next := st_next_no s + 1\<rparr>"
    using claims s'(1,2) rows by (auto simp: tracker_of_def)
  moreover have "B \<subseteq> tr_live ?T" "st_next_no s = tr_next ?T" "st_next_no s \<notin> tr_live ?T"
    using live fresh by (auto simp: tracker_of_def)
  ultimately have "tracker_step (tracker_of s) (tracker_of s')" using filing [of B ?T "st_next_no s"] by simp
  then show "tracks T s'" by (rule tracks_step [OF ok sound])
qed simp

section \<open>Relations\<close>

lemma tracks_cut:
  assumes "tracker_step\<^sup>*\<^sup>* T (U\<lparr>tr_edges := E\<rparr>)" and "paired D"
  shows "tracker_step\<^sup>*\<^sup>* T (U\<lparr>tr_edges := E - D\<rparr>)"
  using assms(1) cutting [OF assms(2), of "U\<lparr>tr_edges := E\<rparr>"] by (auto intro: rtranclp.rtrancl_into_rtrancl)

lemma kept_project: "project_ok s \<Longrightarrow> kept s s' \<Longrightarrow> graph_sound s' \<Longrightarrow> project_ok s'"
  using kept_numbers by (simp add: project_ok_def)

lemma set_edges_tracked:
  assumes "tracks T s" and "paired E" and "tracker_step (tracker_of s) ((tracker_of s)\<lparr>tr_edges := claims s \<union> E\<rparr>)"
  shows "tracker_step\<^sup>*\<^sup>* T ((tracker_of s)\<lparr>tr_edges := set_edges remove E (claims s)\<rparr>)"
proof (cases remove)
  case True
  have "tracker_step\<^sup>*\<^sup>* T ((tracker_of s)\<lparr>tr_edges := claims s\<rparr>)" using assms(1) by (simp add: tracks_def tracker_of_def)
  then show ?thesis using tracks_cut [OF _ assms(2)] True by (simp add: set_edges_def)
next
  case False
  then show ?thesis using assms(1,3) by (auto simp: tracks_def set_edges_def intro: rtranclp.rtrancl_into_rtrancl)
qed

lemma relate_tracked: "sound_tx (tracks T) (relate_tx g a rel b remove at)"
proof (unfold_locales)
  fix s s' and out :: RelationOutcome
  assume ok: "tracks T s" and tx: "relate_tx g a rel b remove at s = Inr (out, s')"
  have sound: "graph_sound s" "project_ok s" using ok by (simp_all add: tracks_def project_ok_def)
  obtain an bn r ca cb where ends: "story_row s an \<noteq> None" "story_row s bn \<noteq> None" "an \<noteq> bn" "inverse_relation r \<noteq> None"
    and s': "kept s s'" "claims s' = set_edges remove (relation_pair an r bn) (claims s) - released ca an cb bn"
    using relate_tx_effect [OF tx tracks_store [OF ok]] by metis
  have "tracker_step (tracker_of s) ((tracker_of s)\<lparr>tr_edges := claims s \<union> relation_pair an r bn\<rparr>)"
    using linking [of an "tracker_of s" bn r] ends by (simp add: tracker_of_def)
  then have "tracker_step\<^sup>*\<^sup>* T ((tracker_of s)\<lparr>tr_edges := set_edges remove (relation_pair an r bn) (claims s)\<rparr>)"
    by (rule set_edges_tracked [OF ok paired_relation [OF ends(4)]])
  then have "tracker_step\<^sup>*\<^sup>* T (tracker_of s')" unfolding kept_tracker [OF s'(1)] s'(2) by (rule tracks_cut [OF _ paired_released])
  then show "tracks T s'" using kept_project [OF sound(2) s'(1) relate_tx_sound [OF sound(1) tx]] by (simp add: tracks_def)
qed simp

lemma edge_batch_rows:
  assumes tx: "edge_batch g i blockers awaiting remove at s = Inr (touched, s')" and ok: "store_ok s"
  obtains a B where "story_row s a \<noteq> None" and "a \<notin> B" and "\<And>b. b \<in> B \<Longrightarrow> story_row s b \<noteq> None"
    and "kept s s'" and "claims s' = set_edges remove (batch_edges a B) (claims s)"
proof -
  obtain a B where a: "i = to_id a (st_prefix s)" "valid_no a" "a \<notin> B" "\<And>b. b \<in> B \<Longrightarrow> valid_no b \<and> story_row s b \<noteq> None"
    and s': "kept s s'" "claims s' = set_edges remove (batch_edges a B) (claims s)"
    using edge_batch_effect [OF tx ok] by metis
  obtain c row where "resolve_open_story i s = Inr (c, row)" using tx by (auto simp: edge_batch_def result_bind_eq_Inr)
  then have "story_row s c = Some row" "i = to_id c (st_prefix s)" "valid_no c"
    by (simp_all add: resolve_open_story_iff resolve_story_iff)
  then have "story_row s a \<noteq> None" using a(1,2) to_id_inject by auto
  then show thesis using that a(3,4) s' by blast
qed

lemma edge_batch_tracked: "sound_tx (tracks T) (edge_batch g i blockers awaiting remove at)"
proof (unfold_locales)
  fix s s' and touched :: "string list"
  assume ok: "tracks T s" and tx: "edge_batch g i blockers awaiting remove at s = Inr (touched, s')"
  have sound: "graph_sound s" "project_ok s" using ok by (simp_all add: tracks_def project_ok_def)
  obtain a B where ends: "story_row s a \<noteq> None" "a \<notin> B" "\<And>b. b \<in> B \<Longrightarrow> story_row s b \<noteq> None"
    and s': "kept s s'" "claims s' = set_edges remove (batch_edges a B) (claims s)"
    using edge_batch_rows [OF tx tracks_store [OF ok]] by metis
  have "tracker_step (tracker_of s) ((tracker_of s)\<lparr>tr_edges := claims s \<union> batch_edges a B\<rparr>)"
    using blocking [of a "tracker_of s" B] ends by (auto simp: tracker_of_def)
  then have "tracker_step\<^sup>*\<^sup>* T (tracker_of s')"
    unfolding kept_tracker [OF s'(1)] s'(2) by (rule set_edges_tracked [OF ok paired_batch])
  then show "tracks T s'" using kept_project [OF sound(2) s'(1) edge_batch_sound [OF sound(1) tx]] by (simp add: tracks_def)
qed simp

section \<open>Every service of a story\<close>

text \<open>
  One call of a service, with whatever the rest of the system decides at that moment.
\<close>

inductive story_step :: "Store \<Rightarrow> Store \<Rightarrow> bool" where
  creates: "story_step s (snd (create g input at s))"
| comments: "story_step s (snd (comment_story g i text at s))"
| prioritises: "story_step s (snd (set_priority g i p at s))"
| labels: "story_step s (snd (set_labels g i add rem at s))"
| awaits: "story_step s (snd (set_awaiting g i reason at s))"
| stops_awaiting: "story_step s (snd (clear_awaiting g i at s))"
| moves: "story_step s (snd (set_state g i state comment if_state awaiting at s))"
| story_claims: "story_step s (snd (claim_story g i claim_comment at s))"
| claims_next: "story_step s (snd (claim_next_filtered g filters claim_comment at s))"
| unclaims: "story_step s (snd (unclaim_story g i unclaim_comment at s))"
| edits: "story_step s (snd (set_fields g i changes at s))"
| bulk_moves: "story_step s (snd (bulk_update g updates at s))"
| deletes: "story_step s (snd (delete_story g i at s))"
| reopens: "story_step s (snd (reopen g i at s))"
| hides: "story_step s (snd (hide g i at s))"
| unhides: "story_step s (snd (unhide g i at s))"
| publishes: "story_step s (snd (publish g i at s))"
| hides_state: "story_step s (snd (hide_state g slug at s))"
| relates_stories: "story_step s (snd (relate g a rel b remove at s))"
| blocks_on: "story_step s (snd (block_on g i blockers why at s))"
| unblocks_from: "story_step s (snd (unblock_from g i blockers at s))"

lemmas commit_tracks =
  sound_tx.commit_sound [OF create_sound] sound_tx.commit_sound [OF claim_story_sound]
  sound_tx.commit_sound [OF unclaim_story_sound] sound_tx.commit_sound [OF reopen_sound]
  sound_tx.commit_sound [OF hide_sound] sound_tx.commit_sound [OF unhide_sound]
  sound_tx.commit_sound [OF publish_sound] sound_tx.commit_sound [OF relate_tracked]
  sound_tx.commit_sound [OF edge_batch_tracked]
  sound_tx.commit_sound [OF claim_next_sound [where after_claim = "\<lambda>_ _. Inr"], simplified]

lemma story_step_tracks: "story_step s s' \<Longrightarrow> tracks T s \<Longrightarrow> tracks T s'"
  by (induction rule: story_step.induct)
    (simp_all add: create_def reopen_def hide_def unhide_def publish_def relate_def block_on_def unblock_from_def
      claim_story_def unclaim_story_def claim_next_filtered_def claim_next_filtered_if_def edits_keep_project set_state_keeps set_fields_keeps bulk_update_keeps
      delete_keeps hide_state_keeps commit_tracks)

lemma story_steps_track: "story_step\<^sup>*\<^sup>* s s' \<Longrightarrow> tracks T s \<Longrightarrow> tracks T s'"
  by (induction rule: rtranclp_induct) (simp_all add: story_step_tracks)

end
