(* ===== verification/Story_Guarantees.thy ===== *)
theory Story_Guarantees
  imports Story_Lifecycle
begin

text \<open>
  The contract of the story services (\<^verbatim>\<open>src/src/service/story.rs\<close>, \<^verbatim>\<open>src/src/service/relation.rs\<close>), stated
  on their definitions: the invariant over every sequence of calls, the refinement of the abstract tracker,
  the identity of numbers, what a deletion leaves, the release of a claim, the agreement of dry and real
  runs, and the refusals.
\<close>

section \<open>Every sequence of calls\<close>

lemma tracker_step_grows:
  assumes "tracker_step T U"
  shows "tr_prefix U = tr_prefix T" and "tr_next T \<le> tr_next U"
  using assms by (induction rule: tracker_step.induct) auto

lemma tracker_steps_grow: "tracker_step\<^sup>*\<^sup>* T U \<Longrightarrow> tr_prefix U = tr_prefix T \<and> tr_next T \<le> tr_next U"
  by (induction rule: rtranclp_induct) (use tracker_step_grows in fastforce)+

lemma steps_project:
  assumes "story_step\<^sup>*\<^sup>* s s'" and "project_ok s"
  shows "project_ok s'" and "tracker_step\<^sup>*\<^sup>* (tracker_of s) (tracker_of s')"
  using story_steps_track [OF assms(1) tracks_start [OF assms(2)]] by (simp_all add: tracks_def)

lemma steps_grow:
  assumes "story_step\<^sup>*\<^sup>* s s'" and "project_ok s"
  shows "st_prefix s' = st_prefix s" and "st_next_no s \<le> st_next_no s'"
  using tracker_steps_grow [OF steps_project(2) [OF assms]] by (simp_all add: tracker_of_def)

text \<open>
  C1. The project stays consistent through any sequence of calls of the story and relation services, each
  accepted or refused, whatever the rest of the system decides at each call: every row is the fold of its
  log, the relation table is exactly the edges the histories claim with their mirrors, the integrity report
  is empty, and every live number is below the next one.
\<close>

theorem services_keep_project: "story_step\<^sup>*\<^sup>* s s' \<Longrightarrow> project_ok s \<Longrightarrow> project_ok s'"
  by (rule steps_project)

text \<open>
  C2. The services implement the abstract tracker: seen as live numbers, claimed edges and the next number,
  every sequence of calls is a sequence of linking two live stories both ways, recording a batch of blockers,
  cutting edges in pairs, filing a story under the next number and dropping a story with all its edges.
\<close>

theorem services_refine_tracker:
  "story_step\<^sup>*\<^sup>* s s' \<Longrightarrow> project_ok s \<Longrightarrow> tracker_step\<^sup>*\<^sup>* (tracker_of s) (tracker_of s')"
  by (rule steps_project)

lemma create_committed:
  assumes "create g input at s = (Inr snapshot, s')" and "project_ok s"
  obtains B where "snap_id snapshot = to_id (st_next_no s) (st_prefix s)" and "valid_no (st_next_no s)"
    and "story_row s (st_next_no s) = None"
    and "set (ns_blocked_by input) = (\<lambda>b. to_id b (st_prefix s)) ` B" and "\<And>b. b \<in> B \<Longrightarrow> story_row s b \<noteq> None"
    and "claims s' = claims s \<union> batch_edges (st_next_no s) B"
    and "\<And>a. story_row s' a = None \<longleftrightarrow> a \<noteq> st_next_no s \<and> story_row s a = None" and "st_next_no s' = st_next_no s + 1"
proof -
  obtain t where t: "create_tx g input at (s\<lparr>st_deriving := True\<rparr>) = Inr (snapshot, t)" and s': "s' = t\<lparr>st_deriving := False\<rparr>"
    using assms(1) unfolding create_def by (rule write_stories_ok)
  have "tracks (tracker_of s) (s\<lparr>st_deriving := True\<rparr>)" using tracks_start [OF assms(2)] by simp
  then show thesis by (rule create_effect [OF t]) (use that s' in simp)
qed

text \<open>
  C10. A story number is never handed out twice: the identifier of a story created now differs from that of
  every story that was live at any earlier moment, the stories deleted since included.
\<close>

theorem numbers_never_reused:
  assumes "project_ok s0" and "story_row s0 n \<noteq> None" and "story_step\<^sup>*\<^sup>* s0 s"
    and "create g input at s = (Inr snapshot, s')"
  shows "snap_id snapshot \<noteq> to_id n (st_prefix s0)"
proof -
  have ok: "project_ok s" by (rule steps_project [OF assms(3,1)])
  have new: "snap_id snapshot = to_id (st_next_no s) (st_prefix s0)" "valid_no (st_next_no s)"
    using create_committed [OF assms(4) ok] steps_grow(1) [OF assms(3,1)] by metis+
  obtain row where row: "story_row s0 n = Some row" using assms(2) by blast
  have "n < st_next_no s0" using assms(1) row by (simp add: project_ok_def numbers_ok_def)
  then have "n \<noteq> st_next_no s" using steps_grow(2) [OF assms(3,1)] by simp
  moreover have "valid_no n"
    using row stored_valid [of s0 n row] assms(1) by (simp add: project_ok_def graph_sound_def)
  ultimately show ?thesis using new to_id_inject by metis
qed

text \<open>
  C16. Creating a story takes the next number, files the story there, and records every blocker named at
  creation from both ends; no other edge and no other story comes or goes.
\<close>

theorem create_files_story:
  assumes "create g input at s = (Inr snapshot, s')" and "project_ok s"
  shows "snap_id snapshot = to_id (st_next_no s) (st_prefix s) \<and> st_next_no s' = st_next_no s + 1
    \<and> {a. story_row s' a \<noteq> None} = insert (st_next_no s) {a. story_row s a \<noteq> None} \<and> story_row s (st_next_no s) = None
    \<and> (\<exists>B. set (ns_blocked_by input) = (\<lambda>b. to_id b (st_prefix s)) ` B
        \<and> claims s' = claims s \<union> ({(b, ''blocks'', st_next_no s) | b. b \<in> B} \<union> {(st_next_no s, ''blocked-by'', b) | b. b \<in> B}))"
proof -
  obtain B where B: "set (ns_blocked_by input) = (\<lambda>b. to_id b (st_prefix s)) ` B"
      "claims s' = claims s \<union> batch_edges (st_next_no s) B"
    and rest: "snap_id snapshot = to_id (st_next_no s) (st_prefix s)" "st_next_no s' = st_next_no s + 1"
      "story_row s (st_next_no s) = None"
    and rows: "\<And>a. story_row s' a = None \<longleftrightarrow> a \<noteq> st_next_no s \<and> story_row s a = None"
    using create_committed [OF assms] by metis
  have "{a. story_row s' a \<noteq> None} = insert (st_next_no s) {a. story_row s a \<noteq> None}"
    unfolding set_eq_iff mem_Collect_eq insert_iff rows by simp
  then show ?thesis using rest B unfolding batch_edges_alt by blast
qed

text \<open>
  C9. A deletion leaves no trace: the story's row and its log are gone, no surviving history claims an edge
  to it, and nothing else came or went.
\<close>

theorem delete_leaves_no_trace:
  assumes "delete_story g i at s = (Inr message, s')" and "project_ok s"
  shows "\<exists>n. i = to_id n (st_prefix s) \<and> story_row s n \<noteq> None \<and> stored_events s' n = []
    \<and> {a. story_row s' a \<noteq> None} = {a. story_row s a \<noteq> None} - {n}
    \<and> claims s' = {e \<in> claims s. fst e \<noteq> n \<and> snd (snd e) \<noteq> n} \<and> st_next_no s' = st_next_no s"
proof -
  obtain d where "write_stories g (delete_tx g i at) s = (Inr d, s')"
    using assms(1) by (auto simp: delete_story_def split: prod.splits sum.splits)
  then obtain t where t: "delete_tx g i at (s\<lparr>st_deriving := True\<rparr>) = Inr (d, t)" and s': "s' = t\<lparr>st_deriving := False\<rparr>"
    by (rule write_stories_ok)
  have ok: "tracks (tracker_of s) (s\<lparr>st_deriving := True\<rparr>)" using tracks_start [OF assms(2)] by simp
  obtain n where n: "i = to_id n (st_prefix s)" "story_row s n \<noteq> None" "claims s' = claims s - touching n"
      "stored_events s' n = []" "st_next_no s' = st_next_no s"
    and rows: "\<And>a. story_row s' a = None \<longleftrightarrow> a = n \<or> story_row s a = None"
    by (rule delete_effect [OF t ok]) (simp add: s' same_project_def)
  have "{a. story_row s' a \<noteq> None} = {a. story_row s a \<noteq> None} - {n}"
    unfolding set_eq_iff mem_Collect_eq Diff_iff singleton_iff rows by auto
  moreover have "claims s' = {e \<in> claims s. fst e \<noteq> n \<and> snd (snd e) \<noteq> n}" unfolding n(3) touching_def by auto
  ultimately show ?thesis using n by blast
qed

section \<open>Claiming and releasing\<close>

lemma known_log:
  assumes "appended no es s snapshot s'"
  shows "known_events s' no = known_events s no @ es"
  using assms by (simp add: appended_def known_append)

lemma open_row_state:
  assumes ok: "store_ok s" and row: "story_row s no = Some row" and live: "snap_superstate (row_snapshot row) = Open"
  shows "state_timeline (known_events s no) \<noteq> []"
    and "last (state_timeline (known_events s no)) = snap_state (row_snapshot row)"
    and "\<exists>d. btm_get (catalog_of (st_states s)) (snap_state (row_snapshot row)) = Some d \<and> sd_super d = Open"
proof -
  let ?cat = "catalog_of (st_states s)" and ?log = "known_events s no"
  have "row_ok s no row" using ok row by (simp add: store_ok_def read_model_ok_def)
  then have "fold_story (to_id no (st_prefix s)) ?log ?cat = Inr (row_snapshot row)" by (simp add: row_ok_def)
  note field = fold_story_fields(4) [OF this]
  obtain state where state: "f_state (replay ?cat ?log) = Some state"
    and super: "resolve_superstate (to_id no (st_prefix s)) ?cat (f_deletion_active (replay ?cat ?log)) state
      = Inr (snap_state (row_snapshot row), snap_superstate (row_snapshot row))"
    using field by blast
  show nonempty: "state_timeline ?log \<noteq> []" using state by (auto simp: replay_state)
  have d: "\<exists>d. btm_get ?cat state = Some d \<and> sd_super d = Open \<and> snap_state (row_snapshot row) = state"
    using super live by (auto simp: resolve_superstate_def split: if_splits option.splits)
  then show "\<exists>d. btm_get ?cat (snap_state (row_snapshot row)) = Some d \<and> sd_super d = Open" by auto
  have "state = historical_slug (last (state_timeline ?log)) ?cat" using state nonempty by (simp add: replay_state)
  then show "last (state_timeline ?log) = snap_state (row_snapshot row)"
    using d by (auto simp: historical_slug_def split: if_splits option.splits)
qed

lemma comment_keeps [simp]:
  "f_state (on_comment_added at text f) = f_state f" "f_closed_at (on_comment_added at text f) = f_closed_at f"
  "f_deletion_active (on_comment_added at text f) = f_deletion_active f"
  by (simp_all add: on_comment_added_def split: option.split)

lemma open_transition_log:
  assumes "sd_super target = Open" and "btm_get states (sd_slug target) = Some target"
    and "fold_story i (log @ state_transition_events target awaiting at (claim_comment_events comment at)) states = Inr snapshot"
  shows "snap_state snapshot = sd_slug target" and "snap_closed_at snapshot = None"
proof -
  let ?f = "replay states (log @ state_transition_events target awaiting at (claim_comment_events comment at))"
  have "f_state ?f = Some (sd_slug target)" "f_closed_at ?f = None" "\<not> f_deletion_active ?f"
    using assms(1,2)
    by (simp_all add: replay_append state_transition_events_def claim_comment_events_def on_state_changed_def
        is_open_slug_def historical_slug_defined Let_def split: option.split)
  then show "snap_state snapshot = sd_slug target" "snap_closed_at snapshot = None"
    using fold_story_fields(4,17) [OF assms(3)] assms(2) by (auto simp: resolve_superstate_def)
qed

lemma claim_timeline:
  assumes "sd_super target = Open"
  shows "state_timeline (log @ state_transition_events target awaiting at (claim_comment_events comment at))
    = state_timeline log @ [sd_slug target]"
  using assms by (simp add: state_timeline_def List.map_filter_def state_transition_events_def claim_comment_events_def
      split: option.split)

lemma claim_committed:
  assumes "claim_story g i comment at s = (Inr (before, after), s')" and "store_ok s"
    and "active_state (st_states s) = Some active"
  defines "es \<equiv> state_transition_events active (snap_awaiting before \<noteq> None) at (claim_comment_events comment at)"
  obtains no row head where "i = to_id no (st_prefix s)" and "valid_no no" and "story_row s no = Some row" and "before = row_snapshot row"
    and "snap_state before \<noteq> sd_slug active" and "st_prefix s' = st_prefix s" and "st_states s' = st_states s"
    and "story_row s' no = Some (row_of no head after)"
    and "known_events s' no = known_events s no @ es"
    and "fold_story i (known_events s no @ es) (catalog_of (st_states s)) = Inr after"
proof -
  let ?s = "s\<lparr>st_deriving := True\<rparr>"
  obtain t where tx: "claim_story_tx g i comment at ?s = Inr ((before, after), t)" and s': "s' = t\<lparr>st_deriving := False\<rparr>"
    using assms(1) unfolding claim_story_def by (rule write_stories_ok)
  obtain no row where r: "resolve_open_story i ?s = Inr (no, row)" and before: "before = row_snapshot row"
    and moved: "snap_state before \<noteq> sd_slug active" and t: "append_and_fold g no (Exact (row_head_seq row)) es ?s = Inr (after, t)"
    using tx by (auto simp: claim_story_tx_def require_active_def assms(3) result_bind_eq_Inr es_def split: if_splits)
  have row: "i = to_id no (st_prefix s)" "valid_no no" "story_row s no = Some row"
    using r by (simp_all add: resolve_open_story_iff resolve_story_iff)
  have app: "appended no es ?s after t" using append_effect(1) [OF t _ row(2)] assms(2) by simp
  then have t_ok: "store_ok t" "st_prefix s' = st_prefix s" "st_states s' = st_states s"
    and t_row: "story_row t no = Some (row_of no (head_seq ?s no + int (length es)) after)"
    by (simp_all add: appended_def same_project_def s')
  have log: "known_events t no = known_events s no @ es" using known_log [OF app] by simp
  have "row_ok t no (row_of no (head_seq ?s no + int (length es)) after)"
    using t_ok(1) t_row by (simp add: store_ok_def read_model_ok_def)
  then have "fold_story i (known_events s no @ es) (catalog_of (st_states s)) = Inr after"
    using t_ok(2,3) by (simp add: row_ok_def row_of_def log row(1) s')
  then show thesis using that [OF row before moved t_ok(2,3)] t_row log by (simp add: s')
qed


section \<open>Dry runs\<close>

lemma write_stories_start: "\<not> st_deriving s \<Longrightarrow> f (s\<lparr>st_deriving := True\<rparr>) = Inl e \<Longrightarrow> write_stories g f s = (Inl e, s)"
  by (simp add: write_stories_def)

lemma resolve_deriving [simp]:
  "resolve_story i (s\<lparr>st_deriving := d\<rparr>) = resolve_story i s" "resolve_open_story i (s\<lparr>st_deriving := d\<rparr>) = resolve_open_story i s"
  unfolding resolve_open_story_def resolve_story_def deriving_store by simp_all

text \<open>
  The dry run of a release and the release agree: what the plan refuses the release refuses with the same
  error, leaving the store as it was, and a release that goes through reports the outcome the plan announced.
\<close>

theorem unclaim_dry_run_agrees:
  assumes "\<not> st_deriving s"
  shows "(\<forall>e. plan_unclaim i s = Inl e \<longrightarrow> unclaim_story g i comment at s = (Inl e, s))
    \<and> (\<forall>before after outcome s'. unclaim_story g i comment at s = (Inr (before, after, outcome), s')
        \<longrightarrow> plan_unclaim i s = Inr outcome)"
proof (intro conjI allI impI)
  fix e
  assume "plan_unclaim i s = Inl e"
  then have "unclaim_story_tx g i comment at (s\<lparr>st_deriving := True\<rparr>) = Inl e"
    by (cases "active_state (st_states s)"; cases "resolve_open_story i s")
      (auto simp: plan_unclaim_def unclaim_story_tx_def require_active_def require_state_def btm_contains_def Let_def
        split: if_splits option.splits)
  then show "unclaim_story g i comment at s = (Inl e, s)"
    unfolding unclaim_story_def by (rule write_stories_start [OF assms])
next
  fix before after outcome s'
  assume "unclaim_story g i comment at s = (Inr (before, after, outcome), s')"
  then obtain t where "unclaim_story_tx g i comment at (s\<lparr>st_deriving := True\<rparr>) = Inr ((before, after, outcome), t)"
    unfolding unclaim_story_def by (rule write_stories_ok)
  then show "plan_unclaim i s = Inr outcome"
    by (auto simp: plan_unclaim_def unclaim_story_tx_def require_active_def require_state_def btm_contains_def result_bind_eq_Inr
        Let_def split: option.splits if_splits)
qed

lemma retract_claims_elsewhere:
  assumes "retract_claims g cs (to_id n (st_prefix s)) at s = Inr s'" and "store_ok s" and "valid_no n"
    and "\<forall>c \<in> set cs. fst c \<noteq> to_id n (st_prefix s)"
  shows "stored_events s' n = stored_events s n"
  using assms
proof (induction cs arbitrary: s)
  case (Cons c cs)
  obtain other rel where c: "c = (other, rel)" by (cases c)
  let ?i = "to_id n (st_prefix s)"
  obtain a row u t where a: "resolve_story other s = Inr (a, row)"
    and t: "append_and_fold g a (Exact (row_head_seq row)) [StoryRelationshipRemoved at ?i rel] s = Inr (u, t)"
    and rest: "retract_claims g cs ?i at t = Inr s'"
    using Cons.prems(1) by (auto simp: c result_bind_eq_Inr)
  have row: "other = to_id a (st_prefix s)" "valid_no a" using a by (simp_all add: resolve_story_iff)
  have app: "appended a [StoryRelationshipRemoved at ?i rel] s u t" by (rule append_effect(1) [OF t Cons.prems(2) row(2)])
  then have "stored_events t n = stored_events s n" using Cons.prems(4) row(1) by (auto simp: appended_def c)
  moreover have "stored_events s' n = stored_events t n"
    using Cons.IH [of t] rest app Cons.prems(3,4) by (simp add: appended_def same_project_def)
  ultimately show ?case by simp
qed simp

lemma surviving_claims_others:
  assumes "store_ok s" and "valid_no n"
  shows "\<forall>c \<in> set (surviving_claims n (to_id n (st_prefix s)) s). fst c \<noteq> to_id n (st_prefix s)"
proof
  fix c
  assume "c \<in> set (surviving_claims n (to_id n (st_prefix s)) s)"
  then obtain a rel row where c: "fst c = to_id a (st_prefix s)" and edge: "(a, rel, n) \<in> set (st_relations s)"
    and row: "story_row s a = Some row"
    by (auto simp: surviving_claims_def set_bset_collect relations_to_def split: option.splits) metis
  have "(a, rel, n) \<in> claims s \<union> mirror ` claims s" using assms(1) edge unfolding store_ok_def graph_ok_def by blast
  then have "(a, rel, n) \<in> claims s \<or> (\<exists>r. (n, r, a) \<in> claims s)" by auto
  then have "a \<noteq> n" using claim_ends(6) [OF assms(1)] by blast
  moreover have "valid_no a" using stored_valid [OF assms(1) row] .
  ultimately show "fst c \<noteq> to_id n (st_prefix s)" using c to_id_inject assms(2) by metis
qed

text \<open>
  What the plan of a deletion announces is what the deletion does: an accepted deletion reports exactly
  the story, the number of events and the retracted relations of the plan made on the same store.
\<close>

theorem delete_reports_its_plan:
  assumes "delete_story g i at s = (Inr message, s')" and "store_ok s"
  shows "\<exists>d. delete_plan g i s = Inr d \<and> message = delete_message d"
proof -
  let ?s = "s\<lparr>st_deriving := True\<rparr>"
  obtain d where d: "write_stories g (delete_tx g i at) s = (Inr d, s')" and message: "message = delete_message d"
    using assms(1) by (auto simp: delete_story_def split: prod.splits sum.splits)
  obtain t where "delete_tx g i at ?s = Inr (d, t)" using d by (rule write_stories_ok)
  then obtain n row u removed where n: "resolve_story i s = Inr (n, row)" and guard: "guard_deletion g n = Inr ()"
    and u: "retract_claims g (surviving_claims n (to_id n (st_prefix s)) ?s) (to_id n (st_prefix s)) at ?s = Inr u"
    and purge: "purge_story n u = Inr (removed, t)"
    and plan: "d = \<lparr>dp_id = to_id n (st_prefix s), dp_title = snap_title (row_snapshot row), dp_events = removed,
        dp_retracted = surviving_claims n (to_id n (st_prefix s)) ?s\<rparr>"
    by (auto simp: delete_tx_def Let_def result_bind_eq_Inr)
  have flag: "st_prefix ?s = st_prefix s" "st_relations ?s = st_relations s" by simp_all
  have same: "surviving_claims n j ?s = surviving_claims n j s" for j
    unfolding surviving_claims_def relations_to_def deriving_store flag ..
  have valid: "valid_no n" using n by (simp add: resolve_story_iff)
  have "stored_events u n = stored_events s n"
    using retract_claims_elsewhere [of g _ n ?s at u] u surviving_claims_others [OF assms(2) valid] assms(2) valid
    by (simp add: same)
  then have "removed = int (length (stored_events s n))" using purge by (simp add: purge_story_def split: option.splits)
  then show ?thesis using n guard message plan by (simp add: delete_plan_def Let_def same)
qed

section \<open>Moves and refusals\<close>

definition quiet :: "Store \<Rightarrow> Store \<Rightarrow> bool" where
  "quiet s s' \<longleftrightarrow> claims s' = claims s \<and> st_prefix s' = st_prefix s \<and> st_states s' = st_states s"

lemma quiet_refl [simp]: "quiet s s"
  by (simp add: quiet_def)

lemma quiet_trans: "quiet s t \<Longrightarrow> quiet t u \<Longrightarrow> quiet s u"
  by (simp add: quiet_def)

lemma comment_quiet:
  assumes "tracks T s" and "comment_story g i msg at s = (r, s')"
  shows "quiet s s'"
proof (cases r)
  case (Inl e)
  then show ?thesis using assms(2) by (auto simp: comment_story_def edit_story_def dest!: write_stories_refused)
next
  case (Inr x)
  let ?tx = "edit_story_tx g i AppendIntent (\<lambda>_. Inr [StoryCommentAdded at msg])"
  have "write_stories g ?tx s = (Inr x, s')" using assms(2) Inr by (simp add: comment_story_def edit_story_def)
  then obtain t where t: "?tx (s\<lparr>st_deriving := True\<rparr>) = Inr (x, t)" and s': "s' = t\<lparr>st_deriving := False\<rparr>" by (rule write_stories_ok)
  have "kept (s\<lparr>st_deriving := True\<rparr>) t \<and> claims t = claims (s\<lparr>st_deriving := True\<rparr>) \<and> tracks T t"
    by (rule edit_story_effect [OF t]) (use assms(1) in auto)
  then show ?thesis by (simp add: s' quiet_def kept_def same_project_def)
qed

lemma flush_quiet: "tracks T s \<Longrightarrow> flush g i at s = (r, s') \<Longrightarrow> quiet s s'"
  by (auto simp: flush_def dest: comment_quiet split: prod.splits option.splits sum.splits)

lemma publish_quiet:
  assumes "tracks T s"
  shows "quiet s (snd (publish_or_record g i at s))"
proof -
  obtain r1 s1 where first: "flush g i at s = (r1, s1)" by (cases "flush g i at s")
  have s1: "tracks T s1" "quiet s s1" using flush_keeps [OF assms first] flush_quiet [OF assms first] by blast+
  then show ?thesis
    by (auto simp: publish_or_record_def first dest: comment_quiet intro: quiet_trans split: sum.split prod.split)
qed

lemma flush_override_quiet: "tracks T s \<Longrightarrow> quiet s (snd (flush_override g i state comment at s))"
  by (simp add: flush_override_def publish_quiet split: sum.split)

lemma move_story_committed:
  assumes "move_story g i state comment if_state awaiting automated at s = (Inr snapshot, s')"
  obtains before reason lease t where "set_state_tx g i state comment if_state reason lease at (s\<lparr>st_deriving := True\<rparr>)
      = Inr ((before, snapshot), t)" and "s' = t\<lparr>st_deriving := False\<rparr>"
proof -
  obtain before reason lease where "write_stories g (set_state_tx g i state comment if_state reason lease at) s = (Inr (before, snapshot), s')"
    using assms by (auto simp: move_story_def split: prod.splits sum.splits)
  then show thesis by (rule write_stories_ok) (rule that)
qed

text \<open>
  C7. Closing a story frees what it blocked: when a move into a closed state goes through, no story is
  blocked by it any more, from either history, and every edge it did not block through is as it was.
\<close>

theorem closing_frees_dependents:
  assumes "set_state g i state comment if_state awaiting at s = (Inr snapshot, s')" and "project_ok s"
    and "\<not> dropped_merge_move g comment s"
    and "btm_get (catalog_of (st_states s)) state = Some target" and "sd_super target = Closed"
  shows "\<exists>n. i = to_id n (st_prefix s) \<and> claims s' = {e \<in> claims s. \<not> (fst (snd e) = ''blocked-by'' \<and> snd (snd e) = n)
    \<and> \<not> (fst e = n \<and> fst (snd e) = ''blocks'')}"
proof -
  obtain r u where u: "flush_override g i state comment at s = (r, u)" by (cases "flush_override g i state comment at s")
  note start = tracks_start [OF assms(2)]
  have u_ok: "tracks (tracker_of s) u" "quiet s u"
    using flush_override_keeps [OF start, of g i state comment at] flush_override_quiet [OF start, of g i state comment at] u by simp_all
  have "move_story g i state comment if_state awaiting (st_automations s) at u = (Inr snapshot, s')"
    using assms(1,3) by (simp add: set_state_def u split: sum.splits)
  then obtain before reason lease t where tx: "set_state_tx g i state comment if_state reason lease at (u\<lparr>st_deriving := True\<rparr>) = Inr ((before, snapshot), t)"
    and s': "s' = t\<lparr>st_deriving := False\<rparr>" by (rule move_story_committed)
  obtain no row target' extra where r: "resolve_open_story i (u\<lparr>st_deriving := True\<rparr>) = Inr (no, row)"
    and target: "btm_get (catalog_of (st_states (u\<lparr>st_deriving := True\<rparr>))) state = Some target'"
    and extra: "plain extra" and a: "append_state_transition g no row target' at extra (u\<lparr>st_deriving := True\<rparr>) = Inr (snapshot, t)"
    using tx by (rule set_state_steps)
  have closed: "sd_super target' = Closed" using target assms(4,5) u_ok(2) by (simp add: quiet_def)
  have "tracks (tracker_of s) (u\<lparr>st_deriving := True\<rparr>)" using u_ok(1) by simp
  from transition_effect(3) [OF a this open_row [OF r] extra]
  have claims: "claims s' = claims s - blocker_edges no" using closed u_ok(2) by (simp add: s' quiet_def)
  have "i = to_id no (st_prefix s)" using r u_ok(2) by (simp add: resolve_open_story_iff resolve_story_iff quiet_def)
  moreover have "x \<in> blocker_edges no \<longleftrightarrow> fst (snd x) = ''blocked-by'' \<and> snd (snd x) = no \<or> fst x = no \<and> fst (snd x) = ''blocks''" for x
    by (cases x) (auto simp: blocker_edges_def)
  ultimately show ?thesis unfolding claims by (intro exI [of _ no]) auto
qed

lemma plain_move:
  "set_state g i state None if_state awaiting at s = move_story g i state None if_state awaiting (st_automations s) at s"
  by (simp add: set_state_def dropped_merge_move_def flush_override_def)

text \<open>
  A guarded move is refused when the story has moved on: if the state the caller expected is not the
  one the story is in, the answer is the conflict that names both, and the store is left as it was.
\<close>

theorem stale_move_refused:
  assumes "resolve_story i s = Inr (no, row)" and "snap_state (row_snapshot row) \<noteq> expected"
    and "\<not> st_deriving s" and "marked_lease g (st_automations s) state = Inr lease" and "awaiting_reason awaiting = Inr reason"
  shows "set_state g i state None (Some expected) awaiting at s
    = (Inl (StateConflict expected (snap_state (row_snapshot row))), s)"
proof -
  have "set_state_tx g i state None (Some expected) reason lease at (s\<lparr>st_deriving := True\<rparr>)
      = Inl (StateConflict expected (snap_state (row_snapshot row)))"
    using assms(1,2) by (simp add: set_state_tx_def check_if_state_def)
  then have "write_stories g (set_state_tx g i state None (Some expected) reason lease at) s
      = (Inl (StateConflict expected (snap_state (row_snapshot row))), s)" by (rule write_stories_start [OF assms(3)])
  then show ?thesis using assms(4,5) by (simp add: plain_move move_story_def)
qed


section \<open>A small project, evaluated\<close>

definition sample_input :: NewStoryInput where
  "sample_input =
     \<lparr>ns_title = ''Ship it again'', ns_state = None, ns_story_type = None, ns_description = Some ''More'', ns_priority = Some ''high'',
      ns_complexity = None, ns_labels = Some [''ui'', ''api''], ns_draft = False, ns_blocked_by = [''SH-1'', ''SH-2'']\<rparr>"

definition sample_filed :: "StorySnapshot result \<times> Store" where
  "sample_filed = create sample_guards sample_input ''t2'' sample_store"

definition sample_deleted :: "string result \<times> Store" where
  "sample_deleted = delete_story sample_guards ''SH-2'' ''t4'' (snd sample_blocked)"

definition sample_refiled :: "StorySnapshot result \<times> Store" where
  "sample_refiled = create sample_guards (sample_input\<lparr>ns_blocked_by := []\<rparr>) ''t5'' (snd sample_deleted)"

definition sample_dropped :: "StorySnapshot result \<times> Store" where
  "sample_dropped = set_state sample_guards ''SH-2'' ''dropped'' None (Some ''todo'') None ''t4'' (snd sample_blocked)"

lemma sample_service_runs:
  "is_ok (fst sample_filed)" "is_ok (fst sample_deleted)" "is_ok (fst sample_refiled)" "is_ok (fst sample_dropped)"
  by code_simp+

lemma sample_project: "project_ok sample_store"
  by (simp add: project_ok_def sample_sound numbers_ok_def sample_rows) (simp add: sample_store_def)

lemma run_ok: "is_ok (fst r) \<Longrightarrow> \<exists>x. r = (Inr x, snd r)"
  by (cases r) (auto simp: is_ok_iff)

lemma sample_steps:
  "story_step\<^sup>*\<^sup>* sample_store (snd sample_blocked)" "story_step\<^sup>*\<^sup>* sample_store (snd sample_deleted)"
  "story_step\<^sup>*\<^sup>* sample_store (snd sample_filed)"
proof -
  have "story_step sample_store (snd sample_blocked)" "story_step (snd sample_blocked) (snd sample_deleted)"
    "story_step sample_store (snd sample_filed)"
    unfolding sample_blocked_def sample_deleted_def sample_filed_def by (rule story_step.intros)+
  then show "story_step\<^sup>*\<^sup>* sample_store (snd sample_blocked)" "story_step\<^sup>*\<^sup>* sample_store (snd sample_deleted)"
    "story_step\<^sup>*\<^sup>* sample_store (snd sample_filed)" by (meson converse_rtranclp_into_rtranclp r_into_rtranclp)+
qed

lemma sample_blocked_project: "project_ok (snd sample_blocked)"
  using steps_project(1) [OF sample_steps(1) sample_project] .

theorem services_keep_project_witness: "project_ok (snd sample_deleted) \<and> is_ok (fst sample_deleted)"
  using services_keep_project [OF sample_steps(2) sample_project] sample_service_runs(2) by blast

theorem services_refine_tracker_witness:
  "tracker_step\<^sup>*\<^sup>* (tracker_of sample_store) (tracker_of (snd sample_filed)) \<and> is_ok (fst sample_filed)"
  using services_refine_tracker [OF sample_steps(3) sample_project] sample_service_runs(1) by blast

theorem numbers_never_reused_witness: "\<exists>snapshot. fst sample_refiled = Inr snapshot \<and> snap_id snapshot \<noteq> to_id 2 ''SH''"
proof -
  obtain snapshot where r: "sample_refiled = (Inr snapshot, snd sample_refiled)" using run_ok sample_service_runs(3) by blast
  have "story_row sample_store 2 \<noteq> None" "st_prefix sample_store = ''SH''" by (simp_all add: sample_rows) (simp add: sample_store_def)
  then have "snap_id snapshot \<noteq> to_id 2 ''SH''"
    using numbers_never_reused [OF sample_project _ sample_steps(2) r [unfolded sample_refiled_def]] by simp
  then show ?thesis using r by (metis fst_conv)
qed

theorem create_files_story_witness:
  "\<exists>snapshot. fst sample_filed = Inr snapshot \<and> snap_id snapshot = to_id 3 ''SH'' \<and> st_next_no (snd sample_filed) = 4"
proof -
  obtain snapshot where r: "sample_filed = (Inr snapshot, snd sample_filed)" using run_ok sample_service_runs(1) by blast
  have "st_next_no sample_store = 3" "st_prefix sample_store = ''SH''" by (simp_all add: sample_store_def)
  then have "snap_id snapshot = to_id 3 ''SH'' \<and> st_next_no (snd sample_filed) = 4"
    using create_files_story [OF r [unfolded sample_filed_def] sample_project] by (simp add: sample_filed_def)
  then show ?thesis using r by (metis fst_conv)
qed

lemma sample_deleted_ok: "\<exists>message. delete_story sample_guards ''SH-2'' ''t4'' (snd sample_blocked) = (Inr message, snd sample_deleted)"
  using run_ok [OF sample_service_runs(2)] by (simp add: sample_deleted_def)

theorem delete_leaves_no_trace_witness:
  "\<exists>n. ''SH-2'' = to_id n ''SH'' \<and> story_row (snd sample_blocked) n \<noteq> None \<and> stored_events (snd sample_deleted) n = []
    \<and> claims (snd sample_deleted) = {e \<in> claims (snd sample_blocked). fst e \<noteq> n \<and> snd (snd e) \<noteq> n}"
proof -
  obtain message where "delete_story sample_guards ''SH-2'' ''t4'' (snd sample_blocked) = (Inr message, snd sample_deleted)"
    using sample_deleted_ok by blast
  from delete_leaves_no_trace [OF this sample_blocked_project]
  show ?thesis unfolding sample_blocked_sound(2) by (elim exE conjE) (rule exI, intro conjI)
qed

theorem delete_reports_its_plan_witness:
  "\<exists>d. delete_plan sample_guards ''SH-2'' (snd sample_blocked) = Inr d \<and> fst sample_deleted = Inr (delete_message d)"
proof -
  obtain message where m: "delete_story sample_guards ''SH-2'' ''t4'' (snd sample_blocked) = (Inr message, snd sample_deleted)"
    using sample_deleted_ok by blast
  have "fst sample_deleted = Inr message" unfolding sample_deleted_def using m by (metis fst_conv)
  then show ?thesis using delete_reports_its_plan [OF m sample_blocked_store_ok] by auto
qed

theorem closing_frees_dependents_witness:
  "\<exists>n. ''SH-2'' = to_id n ''SH'' \<and> claims (snd sample_dropped) = {e \<in> claims (snd sample_blocked).
      \<not> (fst (snd e) = ''blocked-by'' \<and> snd (snd e) = n) \<and> \<not> (fst e = n \<and> fst (snd e) = ''blocks'')}"
proof -
  obtain snapshot where r: "sample_dropped = (Inr snapshot, snd sample_dropped)" using run_ok sample_service_runs(4) by blast
  have "st_states (snd sample_blocked) = sample_states" by code_simp
  moreover have "btm_get (catalog_of sample_states) ''dropped'' = Some (sample_state ''dropped'' Closed)" by code_simp
  ultimately have target: "btm_get (catalog_of (st_states (snd sample_blocked))) ''dropped'' = Some (sample_state ''dropped'' Closed)" by simp
  have "sd_super (sample_state ''dropped'' Closed) = Closed" by (simp add: sample_state_def)
  moreover have "\<not> dropped_merge_move sample_guards None (snd sample_blocked)" by (simp add: dropped_merge_move_def)
  ultimately have "\<exists>n. ''SH-2'' = to_id n (st_prefix (snd sample_blocked)) \<and> claims (snd sample_dropped) = {e \<in> claims (snd sample_blocked).
      \<not> (fst (snd e) = ''blocked-by'' \<and> snd (snd e) = n) \<and> \<not> (fst e = n \<and> fst (snd e) = ''blocks'')}"
    using closing_frees_dependents [OF r [unfolded sample_dropped_def] sample_blocked_project _ target] by (simp add: sample_dropped_def)
  then show ?thesis unfolding sample_blocked_sound(2) .
qed

lemma sample_two:
  "resolve_story ''SH-2'' sample_store = Inr (2, row_of 2 1 (sample_story ''SH-2''))" "\<not> st_deriving sample_store"
  by code_simp+

theorem stale_move_refused_witness:
  "set_state sample_guards ''SH-2'' ''in-progress'' None (Some ''blocked'') None ''t2'' sample_store
    = (Inl (StateConflict ''blocked'' ''todo''), sample_store)"
proof -
  have "snap_state (row_snapshot (row_of 2 1 (sample_story ''SH-2''))) = ''todo''" by (simp add: row_of_def sample_story_def)
  moreover have "marked_lease sample_guards (st_automations sample_store) ''in-progress'' = Inr None" "awaiting_reason None = Inr None" by code_simp+
  ultimately show ?thesis using stale_move_refused [OF sample_two(1) _ sample_two(2), of "''blocked''" sample_guards "''in-progress''" None None None] by simp
qed

lemma sample_closed:
  "case resolve_story ''SH-2'' (snd sample_dropped) of Inl _ \<Rightarrow> False | Inr (_, row) \<Rightarrow> row_archived row" "\<not> st_deriving (snd sample_dropped)"
  "assignable_priority ''high'' = Inr High" "trim ''why'' \<noteq> []"
  "marked_lease sample_guards (st_automations (snd sample_dropped)) ''todo'' = Inr None"
  by code_simp+


theorem unclaim_dry_run_agrees_witness:
  "unclaim_story sample_guards ''SH-2'' Suppressed ''t2'' sample_store = (Inl no_active_state_error, sample_store)"
proof -
  have "plan_unclaim ''SH-2'' sample_store = Inl no_active_state_error" by code_simp
  then show ?thesis using unclaim_dry_run_agrees [OF sample_two(2), of "''SH-2''" sample_guards Suppressed "''t2''"] by blast
qed

text \<open>The same project with a state that claims resolve into.\<close>

definition sample_active :: StateDef where
  "sample_active = (sample_state ''in-progress'' Open)\<lparr>sd_role := Some STATE_ROLE_ACTIVE\<rparr>"

definition claimable_states :: "StateDef list" where
  "claimable_states = [sample_state ''todo'' Open, sample_active, sample_state ''done'' Closed, sample_state ''dropped'' Closed]"

definition claimable_store :: Store where
  "claimable_store = sample_store\<lparr>st_states := claimable_states\<rparr>"

definition sample_claimed :: "(StorySnapshot \<times> StorySnapshot) result \<times> Store" where
  "sample_claimed = claim_story sample_guards ''SH-1'' (Some ''mine'') ''t2'' claimable_store"

lemma claimable_same:
  "story_row claimable_store = story_row sample_store" "stored_events claimable_store = stored_events sample_store"
  "claims claimable_store = claims sample_store" "st_prefix claimable_store = ''SH''" "st_stories claimable_store = st_stories sample_store"
  "st_relations claimable_store = st_relations sample_store" "row_relations claimable_store = row_relations sample_store"
  by (simp_all add: claimable_store_def story_row_def stored_events_def claims_def row_relations_def fun_eq_iff)
    (simp add: sample_store_def)

lemma claimable_ok: "store_ok claimable_store"
proof -
  have known: "fst (partition_known sample_created) = [StoryCreated ''t1'' ''Ship it'' ''todo'']" by code_simp
  have folds: "fold_story ''SH-1'' [StoryCreated ''t1'' ''Ship it'' ''todo''] (catalog_of claimable_states) = Inr (sample_story ''SH-1'')"
    "fold_story ''SH-2'' [StoryCreated ''t1'' ''Ship it'' ''todo''] (catalog_of claimable_states) = Inr (sample_story ''SH-2'')" by code_simp+
  have states: "st_states claimable_store = claimable_states" by (simp add: claimable_store_def)
  have "row_ok claimable_store 1 (row_of 1 1 (sample_story ''SH-1''))" "row_ok claimable_store 2 (row_of 2 1 (sample_story ''SH-2''))"
    by (simp_all add: row_ok_def row_of_def valid_no_def head_seq_def claimable_same sample_rows known sample_ids states folds)
      (simp_all add: sample_created_def)
  then have "row_ok claimable_store no row" if "story_row claimable_store no = Some row" for no row
    using that by (auto simp: claimable_same sample_rows split: if_splits)
  then show ?thesis using sample_store_ok
    by (simp add: store_ok_def read_model_ok_def graph_ok_def edge_ok_def claimable_same claims_def sample_relations)
qed


end
