(* ===== verification/Ready_Guarantees.thy ===== *)
theory Ready_Guarantees
  imports Story_Guarantees
begin

text \<open>
  What a worker that asks for work is promised: the claim of the next story takes the first story that can
  start, its dry run announces it, and two claims in a row never hand out the same story.
\<close>

section \<open>The views of a consistent store\<close>

lemma btm_ext:
  assumes "btm_ok a" and "btm_ok b" and "\<And>k. btm_get a k = btm_get b k"
  shows "a = b"
proof -
  have mem: "(k, v) \<in> set a \<longleftrightarrow> (k, v) \<in> set b" for k v using assms by (simp add: btm_get_mem)
  then have "set (map fst a) = set (map fst b)" by force
  then have "map fst a = map fst b" using assms(1,2) by (intro strict_sorted_equal) (simp_all add: btm_ok_def)
  moreover have "m = map (\<lambda>k. (k, the (btm_get m k))) (map fst m)" if "btm_ok m" for m :: "('a, 'b) btree_map"
    using that by (auto simp: btm_get_mem intro!: nth_equalityI) (metis btm_get_mem nth_mem option.sel prod.collapse)
  ultimately show ?thesis using assms by (metis (no_types, lifting) map_eq_conv)
qed

lemma view_of_map: "store_ok s \<Longrightarrow> (k, v) \<in> set (store_story_map s) \<Longrightarrow> snap_id v = k"
  using story_map_entry btm_get_mem [OF store_story_map_ok] by metis

lemma views_distinct:
  assumes "store_ok s"
  shows "distinct (map snap_id (btm_values (store_story_map s)))"
proof -
  have "map snap_id (btm_values (store_story_map s)) = map fst (store_story_map s)"
    using view_of_map [OF assms] by (auto simp: btm_values_def)
  then show ?thesis using store_story_map_ok [of s] by (simp add: btm_ok_def strict_sorted_iff)
qed

lemma view_map_views:
  assumes "store_ok s"
  shows "view_map (btm_values (store_story_map s)) = store_story_map s"
proof (rule btm_ext)
  show "btm_ok (store_story_map s)" by (rule store_story_map_ok)
  fix k
  have same: "map (\<lambda>v. (snap_id v, v)) (btm_values (store_story_map s)) = store_story_map s"
    using view_of_map [OF assms] by (auto simp: btm_values_def intro!: map_idI)
  have "distinct (map fst (store_story_map s))" using store_story_map_ok [of s] by (simp add: btm_ok_def strict_sorted_iff)
  then have "map_of (rev (store_story_map s)) k = Some v \<longleftrightarrow> map_of (store_story_map s) k = Some v" for v
    by (simp add: map_of_eq_Some_iff rev_map [symmetric])
  then show "btm_get (view_map (btm_values (store_story_map s))) k = btm_get (store_story_map s) k"
    unfolding view_map_def same btm_get_of_list by (metis btm_get_def not_Some_eq)
qed (simp add: view_map_def)

text \<open>A story that is not an epic is shown as its row has it.\<close>

lemma view_row:
  assumes "store_ok s" and "v \<in> set (btm_values (store_story_map s))" and "\<not> is_epic v"
  obtains no row where "story_row s no = Some row" and "row_snapshot row = v" and "snap_id v = to_id no (st_prefix s)"
proof -
  obtain k where k: "btm_get (store_story_map s) k = Some v"
    using assms(2) btm_values_mem [OF store_story_map_ok] by blast
  have "map_option epic_view (btm_get (story_rows s) k) = map_option epic_view (btm_get (store_story_map s) k)"
    by (simp add: store_story_map_def projection_view)
  then obtain u where u: "btm_get (story_rows s) k = Some u" "epic_view u = epic_view v" using k by auto
  have "is_epic (epic_view t) = is_epic t" for t by (simp add: epic_view_def is_epic_def)
  then have "\<not> is_epic u" using u(2) assms(3) by metis
  then have "u = v" using u(2) assms(3) by (simp add: epic_view_def)
  then obtain no row where "story_row s no = Some row" "row_snapshot row = v"
    using u(1) story_rows_get [OF assms(1), of k u] by auto
  then show thesis using that stored_row(2) [OF assms(1)] by metis
qed

section \<open>The next story\<close>

lemma reads_deriving [simp]:
  "next_filtered g count filters (s\<lparr>st_deriving := d\<rparr>) = next_filtered g count filters s"
  "require_active (s\<lparr>st_deriving := d\<rparr>) = require_active s"
  by (simp_all add: next_filtered_def reset_ids_def require_active_def)

text \<open>What a story has to be to be handed out: no reset owns it, and the queue offers it.\<close>

definition up_for_grabs :: "Guards \<Rightarrow> ReadyQueueFilters \<Rightarrow> string list \<Rightarrow> string list option \<Rightarrow> Store \<Rightarrow> StorySnapshot \<Rightarrow> bool" where
  "up_for_grabs g filters reserved descendants s v \<longleftrightarrow>
     v \<in> set (btm_values (store_story_map s)) \<and> snap_id v \<notin> set reserved
     \<and> offered (store_story_map s) (active_state (st_states s)) (rq_phase filters) descendants (excluded_labels g filters) v"

lemma next_head:
  assumes "store_ok s" and "next_filtered g 1 filters s = Inr views"
  obtains reserved descendants where "reset_ids g s = Inr reserved"
    and "epic_scope (rq_epic filters) (store_story_map s) = Inr descendants"
    and "case views of [] \<Rightarrow> \<not> (\<exists>v. up_for_grabs g filters reserved descendants s v)
      | v # rest \<Rightarrow> rest = [] \<and> up_for_grabs g filters reserved descendants s v
          \<and> (\<forall>t. up_for_grabs g filters reserved descendants s t \<and> t \<noteq> v \<longrightarrow> ready_order v t (ranking_new (store_story_map s)) = Less)"
proof -
  let ?m = "store_story_map s"
  obtain reserved descendants where reads: "reset_ids g s = Inr reserved" "epic_scope (rq_epic filters) ?m = Inr descendants"
    and views: "views = take 1 (execution_queue (filter (\<lambda>v. snap_id v \<notin> set reserved) (btm_values ?m)) ?m (active_state (st_states s))
      (rq_phase filters) descendants (excluded_labels g filters))"
    using assms(2) by (auto simp: next_filtered_def Let_def result_bind_eq_Inr view_map_views [OF assms(1)])
  have "distinct (map snap_id (filter (\<lambda>v. snap_id v \<notin> set reserved) (btm_values ?m)))"
    by (rule distinct_map_filter [OF views_distinct [OF assms(1)]])
  from queue_head [OF this, of ?m "active_state (st_states s)" "rq_phase filters" descendants "excluded_labels g filters"]
  show thesis using that [OF reads] unfolding views up_for_grabs_def
    by (cases "execution_queue (filter (\<lambda>v. snap_id v \<notin> set reserved) (btm_values ?m)) ?m (active_state (st_states s))
      (rq_phase filters) descendants (excluded_labels g filters)") auto
qed

lemma grabs_row:
  assumes "store_ok s" and "up_for_grabs g filters reserved descendants s v"
  obtains no row where "story_row s no = Some row" and "row_snapshot row = v" and "snap_id v = to_id no (st_prefix s)"
  using assms view_row [OF assms(1), of v] by (auto simp: up_for_grabs_def offered_def queue_candidate_def is_claimable_def split: if_splits)

section \<open>Claiming it\<close>

lemma nothing_claimed:
  assumes "claim_next_tx g filters comment (\<lambda>_. Inr True) after_claim at s = Inr (None, s')"
  shows "next_filtered g 1 filters s = Inr []"
proof -
  obtain views where views: "next_filtered g 1 filters s = Inr views"
    using assms by (auto simp: claim_next_tx_def result_bind_eq_Inr)
  then show ?thesis using assms by (cases views) (auto simp: claim_next_tx_def result_bind_eq_Inr)
qed

lemma next_row:
  assumes "store_ok s" and "next_filtered g 1 filters s = Inr (v # rest)" and "resolve_story (snap_id v) s = Inr (no, row)"
  shows "row_snapshot row = v" and "rest = []"
proof -
  obtain reserved descendants where "rest = []" "up_for_grabs g filters reserved descendants s v"
    by (rule next_head [OF assms(1,2)]) (simp, blast)
  moreover obtain no' row' where "story_row s no' = Some row'" "row_snapshot row' = v" "snap_id v = to_id no' (st_prefix s)"
    using grabs_row [OF assms(1) calculation(2)] by blast
  moreover have "no' = no"
    using assms(3) calculation(3,5) stored_row(1) [OF assms(1) calculation(3)] to_id_inject [of no' "st_prefix s" no]
    by (simp add: resolve_story_iff)
  ultimately show "row_snapshot row = v" "rest = []" using assms(3) by (simp_all add: resolve_story_iff)
qed

lemma claim_next_committed:
  assumes "claim_next_filtered g filters comment at s = (Inr claimed, s')" and "store_ok s"
  obtains (none) "claimed = None" and "s' = s" and "next_filtered g 1 filters s = Inr []"
  | (took) active before after no row head where "claimed = Some (before, after)"
      and "active_state (st_states s) = Some active" and "next_filtered g 1 filters s = Inr [before]"
      and "snap_id before = to_id no (st_prefix s)" and "story_row s no = Some row" and "row_snapshot row = before"
      and "valid_no no" and "story_row s' no = Some (row_of no head after)"
      and "\<And>a. a \<noteq> no \<Longrightarrow> story_row s' a = story_row s a"
      and "st_states s' = st_states s" and "st_prefix s' = st_prefix s" and "store_ok s'"
      and "known_events s' no = known_events s no @
          state_transition_events active (snap_awaiting before \<noteq> None) at (claim_comment_events comment at)"
proof -
  let ?s = "s\<lparr>st_deriving := True\<rparr>"
  have idle: "\<not> st_deriving s"
    using assms(1) by (auto simp: claim_next_filtered_def claim_next_filtered_if_def write_stories_def)
  obtain t where tx: "claim_next_tx g filters comment (\<lambda>_. Inr True) (\<lambda>_ _ s. Inr s) at ?s = Inr (claimed, t)"
    and s': "s' = t\<lparr>st_deriving := False\<rparr>"
    using assms(1) unfolding claim_next_filtered_def claim_next_filtered_if_def by (rule write_stories_ok)
  from tx show thesis
  proof (cases rule: claim_next_steps)
    case none
    have "next_filtered g 1 filters s = Inr []" using nothing_claimed [OF tx [unfolded none]] by simp
    moreover have "s' = s" using s' none(2) idle by (cases s) simp
    ultimately show thesis using none(1) that(1) by blast
  next
    case (claimed active v rest no row after u)
    have t: "u = t" using claimed(6) by simp
    have active: "active_state (st_states s) = Some active" using claimed(2) by (simp add: require_active_def split: option.splits)
    have found: "next_filtered g 1 filters s = Inr (v # rest)" using claimed(3) by simp
    have r: "resolve_story (snap_id v) s = Inr (no, row)" using claimed(4) by (simp add: resolve_open_story_iff)
    have row: "snap_id v = to_id no (st_prefix s)" "valid_no no" "story_row s no = Some row"
      using r by (simp_all add: resolve_story_iff)
    note v = next_row [OF assms(2) found r]
    have app: "appended no (state_transition_events active (snap_awaiting v \<noteq> None) at (claim_comment_events comment at)) ?s after t"
      using append_effect(1) [OF claimed(5) _ row(2)] assms(2) by (simp add: t v)
    show thesis
      by (rule that(2) [of v after active no row]) (use app v claimed(1) active found row known_log [OF app] in
        \<open>auto simp: appended_def same_project_def s'\<close>)
  qed
qed

text \<open>
  C12. A claim of the next story takes the first story, in the order of ready work, among those no reset owns
  and the queue offers, exactly as its history has it; it appends the transition into the active state to that
  story and touches no other row; and it takes nothing, and writes nothing, only when no story is up for grabs.
\<close>

theorem claim_next_takes_first:
  assumes "claim_next_filtered g filters comment at s = (Inr claimed, s')" and "store_ok s"
  shows "\<exists>reserved descendants. reset_ids g s = Inr reserved
    \<and> epic_scope (rq_epic filters) (store_story_map s) = Inr descendants
    \<and> (case claimed of
         None \<Rightarrow> s' = s \<and> \<not> (\<exists>t. up_for_grabs g filters reserved descendants s t)
       | Some (before, after) \<Rightarrow> up_for_grabs g filters reserved descendants s before
           \<and> (\<forall>t. up_for_grabs g filters reserved descendants s t \<and> t \<noteq> before
                \<longrightarrow> ready_order before t (ranking_new (store_story_map s)) = Less)
           \<and> (\<exists>no active head. snap_id before = to_id no (st_prefix s) \<and> active_state (st_states s) = Some active
                \<and> story_row s' no = Some (row_of no head after)
                \<and> known_events s' no = known_events s no @
                    state_transition_events active (snap_awaiting before \<noteq> None) at (claim_comment_events comment at)
                \<and> (\<forall>a. a \<noteq> no \<longrightarrow> story_row s' a = story_row s a)))"
  using assms
proof (cases rule: claim_next_committed)
  case none
  show ?thesis by (rule next_head [OF assms(2) none(3)]) (use none in auto)
next
  case (took active before after no row head)
  show ?thesis by (rule next_head [OF assms(2) took(3)]) (use took in auto)
qed

text \<open>
  C23. The dry run of a claim of the next story and the claim agree: what the plan refuses the claim refuses with
  the same error and an unchanged store, and a claim that goes through took what the plan announced.
\<close>

theorem claim_next_dry_run_agrees:
  assumes "\<not> st_deriving s" and "store_ok s"
  shows "(\<forall>e. plan_claim_next_filtered g filters s = Inl e \<longrightarrow> claim_next_filtered g filters comment at s = (Inl e, s))
    \<and> (\<forall>claimed s'. claim_next_filtered g filters comment at s = (Inr claimed, s')
        \<longrightarrow> (\<exists>active. active_state (st_states s) = Some active
          \<and> plan_claim_next_filtered g filters s = Inr (map_option (\<lambda>(before, _).
              \<lparr>cp_id = snap_id before, cp_from = snap_state before, cp_to = sd_slug active\<rparr>) claimed)))"
proof (intro conjI allI impI)
  fix e
  assume "plan_claim_next_filtered g filters s = Inl e"
  then have "claim_next_tx g filters comment (\<lambda>_. Inr True) (\<lambda>_ _. Inr) at (s\<lparr>st_deriving := True\<rparr>) = Inl e"
    by (cases "require_active s"; cases "next_filtered g 1 filters s") (simp_all add: plan_claim_next_filtered_def claim_next_tx_def)
  then show "claim_next_filtered g filters comment at s = (Inl e, s)"
    unfolding claim_next_filtered_def claim_next_filtered_if_def by (rule write_stories_start [OF assms(1)])
next
  fix claimed s'
  assume "claim_next_filtered g filters comment at s = (Inr claimed, s')"
  then obtain t where "claim_next_tx g filters comment (\<lambda>_. Inr True) (\<lambda>_ _. Inr) at (s\<lparr>st_deriving := True\<rparr>) = Inr (claimed, t)"
    unfolding claim_next_filtered_def claim_next_filtered_if_def by (rule write_stories_ok)
  then obtain active where active: "active_state (st_states s) = Some active"
    by (auto simp: claim_next_tx_def result_bind_eq_Inr require_active_def split: option.splits)
  from \<open>claim_next_filtered g filters comment at s = (Inr claimed, s')\<close> assms(2)
  have "plan_claim_next_filtered g filters s = Inr (map_option (\<lambda>(before, _).
      \<lparr>cp_id = snap_id before, cp_from = snap_state before, cp_to = sd_slug active\<rparr>) claimed)"
    by (cases rule: claim_next_committed) (simp_all add: plan_claim_next_filtered_def require_active_def active)
  then show "\<exists>active. active_state (st_states s) = Some active
      \<and> plan_claim_next_filtered g filters s = Inr (map_option (\<lambda>(before, _).
          \<lparr>cp_id = snap_id before, cp_from = snap_state before, cp_to = sd_slug active\<rparr>) claimed)"
    using active by blast
qed

text \<open>
  C13. Two workers that claim the next story one after the other never get the same story.
\<close>

theorem claims_in_a_row_differ:
  assumes "claim_next_filtered g filters comment at s = (Inr (Some (before, after)), t)"
    and "claim_next_filtered g' filters' comment' at' t = (Inr (Some (before', after')), u)"
    and "store_ok s" and "active_state (st_states s) = Some active" and "sd_super active = Open"
    and "btm_get (catalog_of (st_states s)) (sd_slug active) = Some active"
  shows "snap_id before' \<noteq> snap_id before"
proof
  assume same: "snap_id before' = snap_id before"
  obtain no head where first: "snap_id before = to_id no (st_prefix s)" "valid_no no" "story_row t no = Some (row_of no head after)"
      "st_states t = st_states s" "st_prefix t = st_prefix s" "store_ok t"
      "known_events t no = known_events s no @
          state_transition_events active (snap_awaiting before \<noteq> None) at (claim_comment_events comment at)"
    using assms(1,3) by (rule claim_next_committed) (use assms(4) in auto)
  have "row_ok t no (row_of no head after)" using first(3,6) by (simp add: store_ok_def read_model_ok_def)
  then have "fold_story (to_id no (st_prefix s)) (known_events t no) (catalog_of (st_states s)) = Inr after"
    using first(4,5) by (simp add: row_ok_def row_of_def)
  then have now: "snap_state after = sd_slug active" using open_transition_log(1) [OF assms(5,6)] unfolding first(7) by blast
  have "next_filtered g' 1 filters' t = Inr [before'] \<and> (\<exists>k row. snap_id before' = to_id k (st_prefix t) \<and> valid_no k
      \<and> story_row t k = Some row \<and> row_snapshot row = before')"
    using assms(2) first(6) by (rule claim_next_committed) auto
  then obtain k row where second: "next_filtered g' 1 filters' t = Inr [before']" "snap_id before' = to_id k (st_prefix t)"
      "valid_no k" "story_row t k = Some row" "row_snapshot row = before'" by blast
  have "k = no" using same second(2,3) first(1,2,5) to_id_inject by metis
  then have "snap_state before' = sd_slug active" using second(4,5) first(3) now by (auto simp: row_of_def)
  moreover obtain reserved descendants where "up_for_grabs g' filters' reserved descendants t before'"
    by (rule next_head [OF first(6) second(1)]) auto
  ultimately show False
    using assms(4) first(4) by (simp add: up_for_grabs_def offered_def is_claimable_def split: if_splits)
qed

section \<open>Two workers on a small project\<close>

definition no_filters :: ReadyQueueFilters where
  "no_filters = \<lparr>rq_phase = None, rq_epic = None, rq_exclude_label = None\<rparr>"

definition first_claim :: "(StorySnapshot \<times> StorySnapshot) option result \<times> Store" where
  "first_claim = claim_next_filtered sample_guards no_filters None ''t2'' claimable_store"

definition second_claim :: "(StorySnapshot \<times> StorySnapshot) option result \<times> Store" where
  "second_claim = claim_next_filtered sample_guards no_filters None ''t3'' (snd first_claim)"

lemma claims_run:
  "case fst first_claim of Inr (Some (b, _)) \<Rightarrow> snap_id b = ''SH-1'' | _ \<Rightarrow> False"
  "case fst second_claim of Inr (Some _) \<Rightarrow> True | _ \<Rightarrow> False"
  by code_simp+

lemma first_claimed:
  obtains before after where "first_claim = (Inr (Some (before, after)), snd first_claim)" and "snap_id before = ''SH-1''"
proof -
  obtain before after where "fst first_claim = Inr (Some (before, after))" "snap_id before = ''SH-1''"
    using claims_run(1) by (auto split: sum.splits option.splits)
  then show thesis using that by (metis prod.collapse)
qed

theorem claim_next_takes_first_witness:
  "\<exists>before reserved. fst first_claim = Inr (Some before) \<and> reset_ids sample_guards claimable_store = Inr reserved
    \<and> up_for_grabs sample_guards no_filters reserved None claimable_store (fst before)"
proof -
  obtain before after where r: "first_claim = (Inr (Some (before, after)), snd first_claim)" by (rule first_claimed)
  have "epic_scope (rq_epic no_filters) (store_story_map claimable_store) = Inr descendants \<longleftrightarrow> descendants = None" for descendants
    by (auto simp: no_filters_def epic_scope_def)
  then obtain reserved where "reset_ids sample_guards claimable_store = Inr reserved"
      "up_for_grabs sample_guards no_filters reserved None claimable_store before"
    using claim_next_takes_first [OF r [unfolded first_claim_def] claimable_ok] by auto
  then show ?thesis using r by (metis fst_conv)
qed

lemma claimable_active:
  "active_state (st_states claimable_store) = Some sample_active" "sd_super sample_active = Open"
  "btm_get (catalog_of (st_states claimable_store)) (sd_slug sample_active) = Some sample_active"
  "\<not> st_deriving claimable_store"
  by code_simp+

theorem claim_next_dry_run_agrees_witness:
  "\<exists>plan. plan_claim_next_filtered sample_guards no_filters claimable_store = Inr (Some plan) \<and> cp_id plan = ''SH-1''"
proof -
  obtain before after where r: "first_claim = (Inr (Some (before, after)), snd first_claim)" "snap_id before = ''SH-1''" by (rule first_claimed)
  from claim_next_dry_run_agrees [OF claimable_active(4) claimable_ok, of sample_guards no_filters None "''t2''"] r [unfolded first_claim_def]
  show ?thesis by auto
qed

theorem claims_in_a_row_differ_witness:
  "\<exists>first second. fst first_claim = Inr (Some first) \<and> fst second_claim = Inr (Some second) \<and> snap_id (fst second) \<noteq> ''SH-1''"
proof -
  obtain before after where r: "first_claim = (Inr (Some (before, after)), snd first_claim)" "snap_id before = ''SH-1''" by (rule first_claimed)
  obtain before' after' where r': "second_claim = (Inr (Some (before', after')), snd second_claim)"
    using claims_run(2) by (auto split: sum.splits option.splits) (metis prod.collapse)
  have "snap_id before' \<noteq> ''SH-1''"
    using claims_in_a_row_differ [OF r(1) [unfolded first_claim_def] r' [unfolded second_claim_def first_claim_def] claimable_ok
      claimable_active(1-3)] r(2) by simp
  then show ?thesis using r(1) r' by (metis fst_conv)
qed

end
