(* ===== verification/Verification_Batch.thy ===== *)
theory Verification_Batch
  imports Story_Store
begin

text \<open>
  The durable record of a verification batch (\<^verbatim>\<open>src/src/store/verification_batch.rs\<close> and its modules,
  \<^verbatim>\<open>src/src/domain/gate_verdict.rs\<close>): its members, gate, resolution and bisection, what makes a record valid,
  and the order of its phases.  The serialised form of a record is not modelled.
\<close>

section \<open>Records\<close>

datatype GateVerdict =
    GateAlreadyLanded | GateVerificationSkipped | GateCertified | GateTestsFailed | GateConflict
  | GateInvalidSubmission | GateProjectFault | GateInfrastructureFailure | GateCancelled
  | GateRepairDeferred | GateCleanupFailed | GateWithdrawn | GateInterrupted | GateError

fun verdict_as_str :: "GateVerdict \<Rightarrow> string" where
  "verdict_as_str GateAlreadyLanded = ''already-landed''"
| "verdict_as_str GateVerificationSkipped = ''verification-skipped''"
| "verdict_as_str GateCertified = ''certified''"
| "verdict_as_str GateTestsFailed = ''tests-failed''"
| "verdict_as_str GateConflict = ''conflict''"
| "verdict_as_str GateInvalidSubmission = ''invalid-submission''"
| "verdict_as_str GateProjectFault = ''project-fault''"
| "verdict_as_str GateInfrastructureFailure = ''infrastructure-failure''"
| "verdict_as_str GateCancelled = ''cancelled''"
| "verdict_as_str GateRepairDeferred = ''repair-deferred''"
| "verdict_as_str GateCleanupFailed = ''cleanup-failed''"
| "verdict_as_str GateWithdrawn = ''withdrawn''"
| "verdict_as_str GateInterrupted = ''interrupted''"
| "verdict_as_str GateError = ''error''"

datatype BatchPhase = Assembled | Submitted | Gating | Landing | Landed | Released | Abandoned

definition phase_is_live :: "BatchPhase \<Rightarrow> bool" where
  "phase_is_live p \<longleftrightarrow> p = Assembled \<or> p = Submitted \<or> p = Gating \<or> p = Landing"

definition is_abandonable :: "BatchPhase \<Rightarrow> bool" where
  "is_abandonable p \<longleftrightarrow> phase_is_live p \<and> p \<noteq> Landing"

definition may_become :: "BatchPhase \<Rightarrow> BatchPhase \<Rightarrow> bool" where
  "may_become p q \<longleftrightarrow>
     (if p = q then True
      else if (p, q) \<in> {(Assembled, Submitted), (Submitted, Gating), (Gating, Landing), (Landing, Landed), (Landing, Released)} then True
      else if q = Released \<or> q = Abandoned then is_abandonable p
      else False)"

fun phase_as_str :: "BatchPhase \<Rightarrow> string" where
  "phase_as_str Assembled = ''assembled''"
| "phase_as_str Submitted = ''submitted''"
| "phase_as_str Gating = ''gating''"
| "phase_as_str Landing = ''landing''"
| "phase_as_str Landed = ''landed''"
| "phase_as_str Released = ''released''"
| "phase_as_str Abandoned = ''abandoned''"

text \<open>A batch id is the text of the Rust newtype; only \<open>batch_id_of\<close> and the generator make one.\<close>

definition BATCH_ID_HEX :: nat where
  "BATCH_ID_HEX = 12"

definition BATCH_BRANCH_PREFIX :: string where
  "BATCH_BRANCH_PREFIX = ''storyhook/verify-batch/''"

definition batch_branch :: "string \<Rightarrow> string" where
  "batch_branch i = BATCH_BRANCH_PREFIX @ i"

definition lower_hex :: "char \<Rightarrow> bool" where
  "lower_hex c \<longleftrightarrow> c \<in> set ''0123456789abcdef''"

definition batch_id_of :: "(string \<Rightarrow> string) \<Rightarrow> string \<Rightarrow> StoreError + string" where
  "batch_id_of debug t =
     (if length t = BATCH_ID_HEX \<and> list_all lower_hex t then Inr t
      else Inl (StoreValidation (''a batch id is '' @ nat_str BATCH_ID_HEX @ '' lowercase hex digits, not '' @ debug t)))"

record ResolvedFile =
  rf_path :: string
  rf_base :: string
  rf_ours :: string
  rf_theirs :: string
  rf_resolved :: string

record BatchResolution =
  br_strategy :: string
  br_conflicted_with :: "string list"
  br_auto_merge_tree :: string
  br_files :: "ResolvedFile list"

record BatchMember =
  bm_story :: int
  bm_story_id :: string
  bm_generation :: int
  bm_head_commit :: string
  bm_pull_request :: string
  bm_position :: nat
  bm_branch :: "string option"
  bm_merge_commit :: "string option"
  bm_merge_tree :: "string option"
  bm_resolution :: "BatchResolution option"

datatype BatchExclusionReason =
    WorkspaceBusy | SubmissionRefused | SubmissionFailed | Superseded | PullRequestMismatch
  | HeadMoved | BaseMismatch | ConflictNotSmoothable | ResolutionFailed

record BatchExclusion =
  bx_story_id :: string
  bx_reason :: BatchExclusionReason
  bx_detail :: string

record BatchPullRequest =
  bp_url :: string
  bp_number :: nat

record BatchGate =
  bg_verdict :: GateVerdict
  bg_tree :: "string option"
  bg_detail :: string
  bg_seconds :: nat

record BisectionOf =
  bo_parent :: string
  bo_prefix :: nat

datatype ProbeKind = SearchProbe | ReceiptProbe | LandingProbe

record BisectionProbe =
  pr_prefix :: nat
  pr_kind :: ProbeKind
  pr_batch :: "string option"
  pr_tree :: string
  pr_verdict :: GateVerdict
  pr_log :: "string option"
  pr_detail :: string
  pr_seconds :: nat

text \<open>The outcomes carry, in this order, the culprit's id, position, tree, log, certified prefix and detail.\<close>

datatype BisectionOutcome =
    CulpritFound string nat string string nat string
  | Inconclusive string
  | SearchInterrupted string

record BatchBisection =
  bs_probes :: "BisectionProbe list"
  bs_outcome :: "BisectionOutcome option"

definition bisection_is_unfinished :: "BatchBisection \<Rightarrow> bool" where
  "bisection_is_unfinished b \<longleftrightarrow> bs_outcome b = None"

record VerificationBatch =
  vb_id :: string
  vb_project :: int
  vb_project_slug :: string
  vb_head :: string
  vb_base_branch :: string
  vb_base_commit :: string
  vb_branch :: string
  vb_tip :: string
  vb_pull_request :: "BatchPullRequest option"
  vb_phase :: BatchPhase
  vb_members :: "BatchMember list"
  vb_excluded :: "BatchExclusion list"
  vb_withdrawn :: "int list"
  vb_gate :: "BatchGate option"
  vb_detail :: "string option"
  vb_bisects :: "BisectionOf option"
  vb_bisection :: "BatchBisection option"
  vb_retired :: bool
  vb_revision :: int
  vb_created_at :: string
  vb_updated_at :: string

section \<open>What a record must satisfy\<close>

definition hex_any :: "char \<Rightarrow> bool" where
  "hex_any c \<longleftrightarrow> c \<in> set ''0123456789abcdefABCDEF''"

definition pinned :: "string \<Rightarrow> bool" where
  "pinned oid \<longleftrightarrow> (length oid = 40 \<or> length oid = 64) \<and> list_all hex_any oid"

text \<open>Sorting and removing adjacent duplicates, as the code counts distinct values.\<close>

definition dedup_count :: "('a :: linorder) list \<Rightarrow> nat" where
  "dedup_count xs = length (remdups_adj (sort xs))"

definition resolution_refusal :: "BatchResolution \<Rightarrow> string option" where
  "resolution_refusal r =
     (let paths = map rf_path (br_files r);
          oids = concat (map (\<lambda>f. [rf_base f, rf_ours f, rf_theirs f, rf_resolved f]) (br_files r)) in
      if br_strategy r = [] then Some ''a resolution names its strategy''
      else if br_files r = [] then Some ''a resolution resolves at least one path''
      else if dedup_count paths \<noteq> length (br_files r) \<or> list_ex (\<lambda>p. p = []) paths
      then Some ''a resolution resolves each path once''
      else if \<not> pinned (br_auto_merge_tree r) \<or> list_ex (\<lambda>oid. \<not> pinned oid) oids
      then Some ''a resolution's trees and blobs are full object ids''
      else None)"

definition unpinned :: "string option \<Rightarrow> bool" where
  "unpinned oid \<longleftrightarrow> (case oid of None \<Rightarrow> False | Some o' \<Rightarrow> \<not> pinned o')"

text \<open>The refusals of a record, in the order the code tries them; \<open>None\<close> accepts it.\<close>

definition tail_refusal :: "VerificationBatch \<Rightarrow> string option" where
  "tail_refusal b =
     (let final = last (vb_members b); earlier = butlast (vb_members b) in
      if list_ex (\<lambda>m. bm_resolution m \<noteq> None) earlier then Some ''only the last member's merge carries a resolution''
      else
        (case bm_resolution final of
           None \<Rightarrow> None
         | Some resolution \<Rightarrow>
             if vb_bisects b \<noteq> None then Some ''a bisection probe carries no resolution''
             else if bm_merge_commit final = None \<or> bm_merge_tree final = None
             then Some ''a resolved member records its merge commit and tree''
             else resolution_refusal resolution))"

definition bisection_refusal :: "VerificationBatch \<Rightarrow> string option" where
  "bisection_refusal b =
     (case (case vb_bisects b of
              None \<Rightarrow> None
            | Some of' \<Rightarrow>
                if bo_prefix of' < 2 \<or> bo_prefix of' \<noteq> length (vb_members b)
                then Some ''a bisection probe has exactly its prefix of two or more members''
                else if bo_parent of' = vb_id b then Some ''a bisection probe is not its own parent''
                else None) of
        Some why \<Rightarrow> Some why
      | None \<Rightarrow>
          (case vb_bisection b of
             None \<Rightarrow> None
           | Some bisection \<Rightarrow>
               if list_ex (\<lambda>p. pr_prefix p = 0 \<or> length (vb_members b) \<le> pr_prefix p) (bs_probes bisection)
               then Some ''a bisection probes prefixes shorter than the batch''
               else None))"

definition shape_refusal :: "VerificationBatch \<Rightarrow> string option" where
  "shape_refusal b =
     (let ms = vb_members b in
      if length ms < 2 then Some ''a batch has two or more members''
      else if bm_story_id (ms ! 0) \<noteq> vb_head b then Some ''the head is the first member''
      else if list_ex (\<lambda>(i, m). bm_position m \<noteq> i) (enumerate 0 ms)
      then Some ''member positions run 0, 1, 2... in queue order''
      else if dedup_count (map bm_story ms) \<noteq> length ms then Some ''a story is a member once''
      else if vb_branch b \<noteq> batch_branch (vb_id b) then Some ''the branch is named for the batch id''
      else if dedup_count (vb_withdrawn b) \<noteq> length (vb_withdrawn b)
        \<or> list_ex (\<lambda>story. \<not> list_ex (\<lambda>m. bm_story m = story) ms) (vb_withdrawn b)
      then Some ''a withdrawn story is a member, withdrawn once''
      else if \<not> pinned (vb_base_commit b) \<or> \<not> pinned (vb_tip b) \<or> list_ex (\<lambda>m. \<not> pinned (bm_head_commit m)) ms
      then Some ''base, tip and member heads are full object ids''
      else if vb_revision b < 0 then Some ''the revision is never negative''
      else if list_ex (\<lambda>m. unpinned (bm_merge_commit m) \<or> unpinned (bm_merge_tree m)) ms
      then Some ''member merge commits and trees are full object ids''
      else if (case bm_merge_commit (last ms) of None \<Rightarrow> False | Some c \<Rightarrow> c \<noteq> vb_tip b)
      then Some ''the last member's merge commit is the tip''
      else None)"

definition batch_refusal :: "VerificationBatch \<Rightarrow> string option" where
  "batch_refusal b =
     (case shape_refusal b of
        Some why \<Rightarrow> Some why
      | None \<Rightarrow> (case tail_refusal b of Some why \<Rightarrow> Some why | None \<Rightarrow> bisection_refusal b))"

definition batch_validate :: "VerificationBatch \<Rightarrow> StoreError + unit" where
  "batch_validate b =
     (case batch_refusal b of
        None \<Rightarrow> Inr ()
      | Some why \<Rightarrow> Inl (StoreValidation (''verification batch '' @ vb_id b @ '': '' @ why)))"

definition needs_finalization :: "VerificationBatch \<Rightarrow> bool" where
  "needs_finalization b \<longleftrightarrow>
     is_abandonable (vb_phase b)
     \<or> (case vb_bisection b of None \<Rightarrow> False | Some bisection \<Rightarrow> bisection_is_unfinished bisection)"

definition merge_chain :: "VerificationBatch \<Rightarrow> (string \<times> string) list option" where
  "merge_chain b =
     those (map (\<lambda>m. case (bm_merge_commit m, bm_merge_tree m) of (Some c, Some t) \<Rightarrow> Some (c, t) | _ \<Rightarrow> None) (vb_members b))"

definition batch_advance :: "VerificationBatch \<Rightarrow> BatchPhase \<Rightarrow> string \<Rightarrow> StoreError + VerificationBatch" where
  "batch_advance b phase now =
     (if \<not> may_become (vb_phase b) phase
      then Inl (StoreValidation (''verification batch '' @ vb_id b @ '' cannot move from '' @ phase_as_str (vb_phase b)
        @ '' to '' @ phase_as_str phase))
      else Inr (b\<lparr>vb_phase := phase, vb_revision := vb_revision b + 1, vb_updated_at := now\<rparr>))"

end
