(* ===== verification/Batch_Table.thy ===== *)
theory Batch_Table
  imports Verification_Batch
begin

text \<open>
  The table of verification batches and the writes of the verifier over it: recording a new batch, moving it
  through its phases, annotating and retiring it, settling what an interrupted verifier left, and retention.
  The table is the list of its records in the order of their row ids, over all projects; a record of a project
  that is gone is removed with the project, which is not modelled.  Errors of the store are written as the
  errors they become for the caller.
\<close>

section \<open>The table\<close>

text \<open>
  What the code outside the model decides: the error a constraint of the schema raises, the ids of the batches a
  landing intent names, and the checks of the store before a commit.
\<close>

record BatchGuards =
  bt_constraint :: "string \<Rightarrow> AppError"
  bt_landing :: "string list"
  bt_commit :: "VerificationBatch list \<Rightarrow> unit result"

abbreviation batch_live :: "VerificationBatch \<Rightarrow> bool" where
  "batch_live b \<equiv> phase_is_live (vb_phase b)"

definition checked :: "VerificationBatch \<Rightarrow> unit result" where
  "checked b = (case batch_validate b of Inl e \<Rightarrow> Inl (app_error_of e) | Inr u \<Rightarrow> Inr u)"

definition project_batches :: "int \<Rightarrow> VerificationBatch list \<Rightarrow> VerificationBatch list" where
  "project_batches project t = filter (\<lambda>b. vb_project b = project) t"

definition insert_batch :: "BatchGuards \<Rightarrow> VerificationBatch \<Rightarrow> VerificationBatch list \<Rightarrow> VerificationBatch list result" where
  "insert_batch g b t =
     result_bind (checked b) (\<lambda>_.
     if vb_revision b \<noteq> 0 \<or> \<not> batch_live b
     then Inl (Validation (''verification batch '' @ vb_id b @ '' must be recorded live at revision zero''))
     else if length (vb_id b) \<noteq> 12 \<or> list_ex (\<lambda>r. vb_id r = vb_id b) t
        \<or> list_ex (\<lambda>r. vb_project r = vb_project b \<and> batch_live r) t
     then Inl (bt_constraint g ''recording verification batch'')
     else Inr (t @ [b]))"

text \<open>
  The conditional update: the row of the record at the expected revision, which stays in its phase once it has
  ended.  The revision is a signed 64-bit integer, so the largest has no successor.
\<close>

definition owns_row :: "VerificationBatch \<Rightarrow> int \<Rightarrow> VerificationBatch \<Rightarrow> bool" where
  "owns_row b expected r \<longleftrightarrow>
     vb_id r = vb_id b \<and> vb_project r = vb_project b \<and> vb_revision r = expected
     \<and> (batch_live r \<or> vb_phase r = vb_phase b)"

definition update_batch :: "VerificationBatch \<Rightarrow> int \<Rightarrow> VerificationBatch list \<Rightarrow> (bool \<times> VerificationBatch list) result" where
  "update_batch b expected t =
     result_bind (checked b) (\<lambda>_.
     if expected < 0 \<or> 2 ^ 63 - 1 \<le> expected \<or> expected + 1 \<noteq> vb_revision b
     then Inl (Validation (''verification batch '' @ vb_id b @ '' revision must advance exactly once''))
     else Inr (list_ex (owns_row b expected) t, map (\<lambda>r. if owns_row b expected r then b else r) t))"

definition prunable :: "int \<Rightarrow> VerificationBatch \<Rightarrow> bool" where
  "prunable project b \<longleftrightarrow> vb_project b = project \<and> \<not> batch_live b \<and> vb_retired b"

definition prune_batches :: "BatchGuards \<Rightarrow> int \<Rightarrow> nat \<Rightarrow> VerificationBatch list \<Rightarrow> (nat \<times> VerificationBatch list) result" where
  "prune_batches g project keep t =
     (if 2 ^ 63 \<le> int keep then Inl (Validation ''batch retention is out of range'')
      else
        (let newest = map vb_id (take keep (rev (filter (prunable project) t)));
             kept = filter (\<lambda>b. \<not> (prunable project b \<and> vb_id b \<notin> set (bt_landing g) \<and> vb_id b \<notin> set newest)) t
         in Inr (length t - length kept, kept)))"

text \<open>A write transaction: an error of the work or of the checks before the commit leaves the table as it was.\<close>

definition batch_tx ::
  "BatchGuards \<Rightarrow> (VerificationBatch list \<Rightarrow> ('a \<times> VerificationBatch list) result) \<Rightarrow> VerificationBatch list
     \<Rightarrow> 'a result \<times> VerificationBatch list" where
  "batch_tx g f t =
     (case result_bind (f t) (\<lambda>(x, t'). result_bind (bt_commit g t') (\<lambda>_. Inr (x, t'))) of
        Inl e \<Rightarrow> (Inl e, t)
      | Inr (x, t') \<Rightarrow> (Inr x, t'))"

section \<open>The writes of the verifier\<close>

definition RETAINED_BATCHES :: nat where
  "RETAINED_BATCHES = 100"

definition INTERRUPTED :: string where
  "INTERRUPTED = ''the verifier that formed this batch stopped before the batch ended; its members keep their ''
     @ ''generations and are verified again from the queue''"

definition BISECTION_INTERRUPTED :: string where
  "BISECTION_INTERRUPTED = ''the verifier stopped before this bisection ended; no story was blamed, and every ''
     @ ''member is verified again from the queue''"

definition NEWER :: string where
  "NEWER = ''a newer batch of the project was recorded while this one was still live''"

definition interrupt_bisection :: "VerificationBatch \<Rightarrow> VerificationBatch" where
  "interrupt_bisection b =
     (case vb_bisection b of
        None \<Rightarrow> b
      | Some bisection \<Rightarrow>
          if bisection_is_unfinished bisection
          then b\<lparr>vb_bisection := Some (bisection\<lparr>bs_outcome := Some (SearchInterrupted BISECTION_INTERRUPTED)\<rparr>)\<rparr>
          else b)"

definition advanced :: "VerificationBatch \<Rightarrow> BatchPhase \<Rightarrow> string \<Rightarrow> VerificationBatch result" where
  "advanced b phase now = (case batch_advance b phase now of Inl e \<Rightarrow> Inl (app_error_of e) | Inr n \<Rightarrow> Inr n)"

definition settled_record :: "string \<Rightarrow> string \<Rightarrow> VerificationBatch \<Rightarrow> VerificationBatch result" where
  "settled_record detail now b =
     result_bind
       (if is_abandonable (vb_phase b)
        then result_bind (advanced b Abandoned now) (\<lambda>n. Inr (n\<lparr>vb_detail := Some detail\<rparr>))
        else Inr (b\<lparr>vb_revision := vb_revision b + 1, vb_updated_at := now\<rparr>))
       (\<lambda>n. Inr (interrupt_bisection n))"

fun settle_loop ::
  "string \<Rightarrow> string \<Rightarrow> VerificationBatch list \<Rightarrow> VerificationBatch list \<Rightarrow> (string list \<times> VerificationBatch list) result" where
  "settle_loop detail now [] t = Inr ([], t)"
| "settle_loop detail now (b # bs) t =
     (if \<not> needs_finalization b then settle_loop detail now bs t
      else
        result_bind (settled_record detail now b) (\<lambda>n.
        result_bind (update_batch n (vb_revision b) t) (\<lambda>(written, t).
        result_bind (settle_loop detail now bs t) (\<lambda>(ids, t).
          Inr (if written then vb_id n # ids else ids, t)))))"

definition settle_unfinished ::
  "int \<Rightarrow> string \<Rightarrow> string \<Rightarrow> VerificationBatch list \<Rightarrow> (string list \<times> VerificationBatch list) result" where
  "settle_unfinished project detail now t = settle_loop detail now (project_batches project t) t"

fun abandon_loop ::
  "string \<Rightarrow> string \<Rightarrow> VerificationBatch list \<Rightarrow> VerificationBatch list \<Rightarrow> (string list \<times> VerificationBatch list) result" where
  "abandon_loop detail now [] t = Inr ([], t)"
| "abandon_loop detail now (b # bs) t =
     (if \<not> is_abandonable (vb_phase b) then abandon_loop detail now bs t
      else
        result_bind (advanced b Abandoned now) (\<lambda>n.
        result_bind (update_batch (n\<lparr>vb_detail := Some detail\<rparr>) (vb_revision b) t) (\<lambda>(written, t).
        result_bind (abandon_loop detail now bs t) (\<lambda>(ids, t).
          Inr (if written then vb_id n # ids else ids, t)))))"

definition abandon_live ::
  "int \<Rightarrow> string \<Rightarrow> string \<Rightarrow> VerificationBatch list \<Rightarrow> (string list \<times> VerificationBatch list) result" where
  "abandon_live project detail now t = abandon_loop detail now (project_batches project t) t"

definition abandon_interrupted_batches ::
  "BatchGuards \<Rightarrow> int \<Rightarrow> string \<Rightarrow> VerificationBatch list \<Rightarrow> string list result \<times> VerificationBatch list" where
  "abandon_interrupted_batches g project now t =
     (if \<not> list_ex needs_finalization (project_batches project t) then (Inr [], t)
      else batch_tx g (settle_unfinished project INTERRUPTED now) t)"

datatype Backstop = SettleUnfinished | AbandonLive

definition store_new_tx ::
  "BatchGuards \<Rightarrow> VerificationBatch \<Rightarrow> Backstop \<Rightarrow> VerificationBatch list \<Rightarrow> (unit \<times> VerificationBatch list) result" where
  "store_new_tx g b backstop t =
     (let project = vb_project b; now = vb_created_at b in
      result_bind (case backstop of
          SettleUnfinished \<Rightarrow> settle_unfinished project NEWER now t
        | AbandonLive \<Rightarrow> abandon_live project NEWER now t) (\<lambda>(_, t).
      result_bind (insert_batch g b t) (\<lambda>t.
      result_bind (prune_batches g project RETAINED_BATCHES t) (\<lambda>(_, t). Inr ((), t)))))"

definition store_new ::
  "BatchGuards \<Rightarrow> VerificationBatch \<Rightarrow> Backstop \<Rightarrow> VerificationBatch list \<Rightarrow> unit result \<times> VerificationBatch list" where
  "store_new g b backstop t = batch_tx g (store_new_tx g b backstop) t"

definition write_batch ::
  "BatchGuards \<Rightarrow> VerificationBatch \<Rightarrow> int \<Rightarrow> VerificationBatch list \<Rightarrow> unit result \<times> VerificationBatch list" where
  "write_batch g b expected t =
     (case batch_tx g (update_batch b expected) t of
        (Inl e, t) \<Rightarrow> (Inl e, t)
      | (Inr written, t) \<Rightarrow>
          (if written then Inr () else Inl (Storage (''verification batch '' @ vb_id b @ '' changed under its verifier'')), t))"

definition advance_record ::
  "BatchGuards \<Rightarrow> VerificationBatch \<Rightarrow> BatchPhase \<Rightarrow> (VerificationBatch \<Rightarrow> VerificationBatch) \<Rightarrow> string
     \<Rightarrow> VerificationBatch list \<Rightarrow> VerificationBatch result \<times> VerificationBatch list" where
  "advance_record g current phase change now t =
     (case advanced current phase now of
        Inl e \<Rightarrow> (Inl e, t)
      | Inr n \<Rightarrow>
          (case write_batch g (change n) (vb_revision current) t of
             (Inl e, t) \<Rightarrow> (Inl e, t)
           | (Inr _, t) \<Rightarrow> (Inr (change n), t)))"

text \<open>A record is read again, changed and written in its phase.\<close>

definition update_parent ::
  "BatchGuards \<Rightarrow> VerificationBatch \<Rightarrow> (VerificationBatch \<Rightarrow> VerificationBatch) \<Rightarrow> string
     \<Rightarrow> VerificationBatch list \<Rightarrow> VerificationBatch result \<times> VerificationBatch list" where
  "update_parent g parent change now t =
     (case find (\<lambda>b. vb_id b = vb_id parent) (project_batches (vb_project parent) t) of
        None \<Rightarrow> (Inl (Storage (''verification batch '' @ vb_id parent @ '' is gone'')), t)
      | Some current \<Rightarrow>
          (let n = (change current)\<lparr>vb_revision := vb_revision current + 1, vb_updated_at := now\<rparr> in
           case write_batch g n (vb_revision current) t of
             (Inl e, t) \<Rightarrow> (Inl e, t)
           | (Inr _, t) \<Rightarrow> (Inr n, t)))"

text \<open>
  The retirement of a batch that did not land, once the pull request is closed and the branch is gone: \<open>merged\<close>
  says that a person merged the pull request.  A failed write is only journaled.
\<close>

definition MERGED_OUTSIDE :: string where
  "MERGED_OUTSIDE = '' A person merged the batch pull request outside the verifier.''"

definition retire_write ::
  "BatchGuards \<Rightarrow> bool \<Rightarrow> string \<Rightarrow> VerificationBatch \<Rightarrow> VerificationBatch list \<Rightarrow> VerificationBatch list" where
  "retire_write g merged now b t =
     (let n = b\<lparr>vb_retired := True, vb_revision := vb_revision b + 1, vb_updated_at := now\<rparr>;
          n = (if merged then n\<lparr>vb_detail := Some ((case vb_detail n of None \<Rightarrow> [] | Some d \<Rightarrow> d) @ MERGED_OUTSIDE)\<rparr> else n)
      in snd (write_batch g n (vb_revision b) t))"

text \<open>
  The retirement of a landed batch; \<open>kept\<close> describes the member branches that stay on origin.
\<close>

definition retire_landed_write ::
  "BatchGuards \<Rightarrow> string list \<Rightarrow> string \<Rightarrow> VerificationBatch \<Rightarrow> VerificationBatch list \<Rightarrow> VerificationBatch list" where
  "retire_landed_write g kept now b t =
     (let n = b\<lparr>vb_retired := True, vb_revision := vb_revision b + 1, vb_updated_at := now\<rparr>;
          n = (if kept \<noteq> [] then n\<lparr>vb_detail := Some ((case vb_detail n of None \<Rightarrow> [] | Some d \<Rightarrow> d)
                 @ '' Member branches kept on origin: '' @ join '', '' kept @ ''.'')\<rparr> else n)
      in snd (write_batch g n (vb_revision b) t))"

section \<open>The table stays consistent\<close>

definition table_ok :: "VerificationBatch list \<Rightarrow> bool" where
  "table_ok t \<longleftrightarrow>
     distinct (map vb_id t) \<and> (\<forall>b \<in> set t. batch_refusal b = None)
     \<and> (\<forall>b \<in> set t. \<forall>c \<in> set t. batch_live b \<and> batch_live c \<and> vb_project b = vb_project c \<longrightarrow> vb_id b = vb_id c)"

lemma checked_ok [simp]: "checked b = Inr u \<longleftrightarrow> batch_refusal b = None"
  by (simp add: checked_def batch_validate_def split: option.split)

lemma row_unique: "table_ok t \<Longrightarrow> r \<in> set t \<Longrightarrow> q \<in> set t \<Longrightarrow> vb_id r = vb_id q \<Longrightarrow> r = q"
  by (auto simp: table_ok_def distinct_map inj_on_def)

lemma update_rows:
  assumes "update_batch b expected t = Inr (written, t')"
  shows "batch_refusal b = None" and "0 \<le> expected" and "vb_revision b = expected + 1"
    and "written \<longleftrightarrow> (\<exists>r \<in> set t. owns_row b expected r)"
    and "t' = map (\<lambda>r. if owns_row b expected r then b else r) t"
  using assms by (auto simp: update_batch_def result_bind_eq_Inr list_ex_iff split: if_splits)

lemma update_table_ok:
  assumes "update_batch b expected t = Inr (written, t')" and "table_ok t"
  shows "table_ok t'"
proof -
  note u = update_rows [OF assms(1)]
  define f where "f = (\<lambda>r. if owns_row b expected r then b else r)"
  have same: "vb_id (f r) = vb_id r" "vb_project (f r) = vb_project r" "batch_live (f r) \<Longrightarrow> batch_live r" for r
    by (auto simp: f_def owns_row_def split: if_splits)
  have valid: "batch_refusal (f r) = None" if "r \<in> set t" for r using that u(1) assms(2) by (simp add: table_ok_def f_def)
  have t': "t' = map f t" using u(5) by (simp add: f_def)
  have "map vb_id t' = map vb_id t" by (simp add: t' same(1))
  then have "distinct (map vb_id t')" using assms(2) by (simp add: table_ok_def)
  moreover have "\<forall>r \<in> set t'. batch_refusal r = None" using valid by (simp add: t')
  moreover have "\<forall>r \<in> set t'. \<forall>q \<in> set t'. batch_live r \<and> batch_live q \<and> vb_project r = vb_project q \<longrightarrow> vb_id r = vb_id q"
    unfolding t' set_map ball_simps same(1,2) using assms(2) same(3) unfolding table_ok_def by blast
  ultimately show ?thesis unfolding table_ok_def by (intro conjI)
qed

lemma insert_rows:
  assumes "insert_batch g b t = Inr t'"
  shows "t' = t @ [b]" and "batch_refusal b = None" and "vb_revision b = 0" and "batch_live b"
    and "\<forall>r \<in> set t. vb_id r \<noteq> vb_id b" and "\<forall>r \<in> set t. vb_project r = vb_project b \<longrightarrow> \<not> batch_live r"
  using assms by (auto simp: insert_batch_def result_bind_eq_Inr list_ex_iff split: if_splits)

lemma insert_table_ok:
  assumes "insert_batch g b t = Inr t'" and "table_ok t"
  shows "table_ok t'"
proof -
  note i = insert_rows [OF assms(1)]
  have "distinct (map vb_id t')" using assms(2) i(1,5) by (auto simp: table_ok_def)
  moreover have "\<forall>r \<in> set t'. batch_refusal r = None" using assms(2) i(1,2) by (auto simp: table_ok_def)
  moreover have "vb_id r = vb_id q"
    if "r \<in> set t'" "q \<in> set t'" "batch_live r" "batch_live q" "vb_project r = vb_project q" for r q
  proof -
    have "r = b \<or> r \<in> set t" "q = b \<or> q \<in> set t" using that(1,2) i(1) by auto
    moreover have "vb_id r = vb_id q" if "r \<in> set t" "q \<in> set t"
      using that \<open>batch_live r\<close> \<open>batch_live q\<close> \<open>vb_project r = vb_project q\<close> assms(2) unfolding table_ok_def by blast
    moreover have "r \<notin> set t" if "q = b" using that \<open>batch_live r\<close> \<open>vb_project r = vb_project q\<close> i(6) by metis
    moreover have "q \<notin> set t" if "r = b" using that \<open>batch_live q\<close> \<open>vb_project r = vb_project q\<close> i(6) by metis
    ultimately show ?thesis by blast
  qed
  ultimately show ?thesis unfolding table_ok_def by (intro conjI ballI impI) blast+
qed

lemma prune_rows:
  assumes "prune_batches g project keep t = Inr (n, t')"
  obtains P where "t' = filter P t" and "\<And>r. \<not> P r \<Longrightarrow> prunable project r \<and> vb_id r \<notin> set (bt_landing g)"
proof -
  let ?P = "\<lambda>b. \<not> (prunable project b \<and> vb_id b \<notin> set (bt_landing g)
    \<and> vb_id b \<notin> set (map vb_id (take keep (rev (filter (prunable project) t)))))"
  have "t' = filter ?P t" using assms by (auto simp: prune_batches_def Let_def split: if_splits)
  then show thesis by (rule that) blast
qed

lemma filter_table_ok: "table_ok t \<Longrightarrow> table_ok (filter P t)"
  by (auto simp: table_ok_def distinct_map_filter)

lemma table_ok_empty: "table_ok []"
  by (simp add: table_ok_def)

end
