(* ===== verification/Batch_History.thy ===== *)
theory Batch_History
  imports Batch_Table
begin

text \<open>
  The life of a verification batch: whatever the verifiers write, and whichever records they hold, every record
  of a batch ever read or written leads to the current one along the order of the phases, and two records of the
  same batch at the same revision are the same record.  The argument is that of any table of versioned rows with
  a conditional update, stated once as a locale.
\<close>

section \<open>Versioned rows with a conditional update\<close>

locale versioned =
  fixes key :: "'r \<Rightarrow> 'k" and version :: "'r \<Rightarrow> int" and hits :: "'r \<Rightarrow> int \<Rightarrow> 'r \<Rightarrow> bool" and follows :: "'r \<Rightarrow> 'r \<Rightarrow> bool"
  assumes hits_row: "hits n e r \<Longrightarrow> key r = key n \<and> version r = e"
begin

text \<open>The table \<open>t\<close>, among all the records \<open>K\<close> known so far.\<close>

definition lineage :: "'r list \<Rightarrow> 'r set \<Rightarrow> bool" where
  "lineage t K \<longleftrightarrow>
     distinct (map key t) \<and> set t \<subseteq> K
     \<and> (\<forall>j \<in> K. \<forall>k \<in> K. key j = key k \<longrightarrow>
          (version j = version k \<longrightarrow> j = k) \<and> (version j \<le> version k \<longrightarrow> follows\<^sup>*\<^sup>* j k))
     \<and> (\<forall>r \<in> set t. \<forall>k \<in> K. key k = key r \<longrightarrow> version k \<le> version r)"

lemma lineage_empty: "lineage [] {}"
  by (simp add: lineage_def)

lemma lineage_known: "lineage t K \<Longrightarrow> set t \<subseteq> L \<Longrightarrow> L \<subseteq> K \<Longrightarrow> lineage t L"
  unfolding lineage_def by (meson subsetD)

lemma lineage_filter: "lineage t K \<Longrightarrow> lineage (filter P t) K"
  by (auto simp: lineage_def distinct_map_filter)

lemma lineage_insert:
  assumes "lineage t K" and "\<And>k. k \<in> K \<Longrightarrow> key k \<noteq> key n"
  shows "lineage (t @ [n]) (insert n K)"
proof -
  have "set t \<subseteq> K" using assms(1) by (simp add: lineage_def)
  then have "key n \<notin> key ` set t" using assms(2) by force
  then have "distinct (map key (t @ [n]))" using assms(1) by (simp add: lineage_def)
  moreover have "\<forall>j \<in> insert n K. \<forall>k \<in> insert n K. key j = key k \<longrightarrow>
      (version j = version k \<longrightarrow> j = k) \<and> (version j \<le> version k \<longrightarrow> follows\<^sup>*\<^sup>* j k)"
    using assms unfolding lineage_def by (metis insert_iff rtranclp.rtrancl_refl)
  moreover have "\<forall>r \<in> set (t @ [n]). \<forall>k \<in> insert n K. key k = key r \<longrightarrow> version k \<le> version r"
    using assms \<open>set t \<subseteq> K\<close> unfolding lineage_def by (simp, metis in_mono order_refl)
  ultimately show ?thesis using assms(1) by (auto simp: lineage_def)
qed

lemma lineage_swap:
  assumes lin: "lineage t K" and c: "c \<in> K" "key c = key n" "version c = e" "follows c n" and n: "version n = e + 1"
  defines "t' \<equiv> map (\<lambda>r. if hits n e r then n else r) t"
  shows "lineage t' (K \<union> set t')"
proof (cases "\<exists>r \<in> set t. hits n e r")
  case False
  then have "t' = t" unfolding t'_def by (intro map_idI) auto
  then show ?thesis using lin by (simp add: lineage_def Un_absorb2)
next
  case True
  have order: "\<And>j k. j \<in> K \<Longrightarrow> k \<in> K \<Longrightarrow> key j = key k \<Longrightarrow> version j = version k \<Longrightarrow> j = k"
    "\<And>j k. j \<in> K \<Longrightarrow> k \<in> K \<Longrightarrow> key j = key k \<Longrightarrow> version j \<le> version k \<Longrightarrow> follows\<^sup>*\<^sup>* j k"
    "\<And>r k. r \<in> set t \<Longrightarrow> k \<in> K \<Longrightarrow> key k = key r \<Longrightarrow> version k \<le> version r"
    and rows: "distinct (map key t)" "set t \<subseteq> K"
    using lin unfolding lineage_def by blast+
  obtain r where r: "r \<in> set t" "hits n e r" using True by blast
  have same: "key r = key n" "version r = e" using hits_row r(2) by blast+
  then have "r = c" using order(1) rows(2) r(1) c(1-3) by auto
  have below: "version k < version n" "follows\<^sup>*\<^sup>* k n" if "k \<in> K" "key k = key n" for k
  proof -
    have "version k \<le> version r" using order(3) [OF r(1) that(1)] that(2) same(1) by simp
    then show "version k < version n" using same(2) n by simp
    have "follows\<^sup>*\<^sup>* k c" using order(2) [OF that(1) c(1)] that(2) c(2) \<open>version k \<le> version r\<close> \<open>r = c\<close> by simp
    then show "follows\<^sup>*\<^sup>* k n" using c(4) by (rule rtranclp.rtrancl_into_rtrancl)
  qed
  have keys: "map key t' = map key t" unfolding t'_def using hits_row by auto
  have elems: "set t' \<subseteq> insert n (set t)" "n \<in> set t'" using r by (auto simp: t'_def)
  have known: "K \<union> set t' = insert n K" using elems rows(2) by auto
  have ordered: "(version j = version k \<longrightarrow> j = k) \<and> (version j \<le> version k \<longrightarrow> follows\<^sup>*\<^sup>* j k)"
    if "j \<in> insert n K" "k \<in> insert n K" "key j = key k" for j k
  proof -
    have "j = n \<or> j \<in> K" "k = n \<or> k \<in> K" using that(1,2) by blast+
    then consider "j = n" "k = n" | "j = n" "k \<in> K" | "j \<in> K" "k = n" | "j \<in> K" "k \<in> K" by blast
    then show ?thesis
    proof cases
      case 1
      then show ?thesis by simp
    next
      case 2
      then show ?thesis using below(1) [of k] that(3) by auto
    next
      case 3
      then show ?thesis using below [of j] that(3) by auto
    next
      case 4
      then show ?thesis using order(1,2) that(3) by blast
    qed
  qed
  have newest: "version k \<le> version q" if "q \<in> set t'" "k \<in> insert n K" "key k = key q" for q k
  proof (cases "q = n")
    case True
    then show ?thesis using that below(1) [of k] by (cases "k = n") auto
  next
    case False
    then have q: "q \<in> set t" "\<not> hits n e q" using that(1) by (auto simp: t'_def split: if_splits)
    show ?thesis
    proof (cases "k = n")
      case True
      then have "key q = key r" using that(3) same(1) by simp
      then have "q = r" using rows(1) q(1) r(1) by (auto simp: distinct_map inj_on_def)
      then show ?thesis using q(2) r(2) by simp
    next
      case False
      then show ?thesis using order(3) [OF q(1)] that(2,3) by simp
    qed
  qed
  have "set t' \<subseteq> insert n K" using elems(1) rows(2) by blast
  then show ?thesis unfolding lineage_def keys known using rows(1) ordered newest by (intro conjI ballI impI) simp_all
qed

end

section \<open>The life of a batch\<close>

definition batch_follows :: "VerificationBatch \<Rightarrow> VerificationBatch \<Rightarrow> bool" where
  "batch_follows a b \<longleftrightarrow> vb_project b = vb_project a \<and> may_become (vb_phase a) (vb_phase b)"

interpretation batches: versioned vb_id vb_revision owns_row batch_follows
  by unfold_locales (simp add: owns_row_def)

lemma follows_phases: "batch_follows\<^sup>*\<^sup>* a b \<Longrightarrow> vb_project b = vb_project a \<and> may_become\<^sup>*\<^sup>* (vb_phase a) (vb_phase b)"
  by (induction rule: rtranclp_induct) (auto simp: batch_follows_def intro: rtranclp.rtrancl_into_rtrancl)

text \<open>A table and the records known, both consistent.\<close>

definition history_ok :: "VerificationBatch list \<Rightarrow> VerificationBatch set \<Rightarrow> bool" where
  "history_ok t K \<longleftrightarrow> table_ok t \<and> batches.lineage t K"

lemma history_known: "history_ok t K \<Longrightarrow> set t \<subseteq> L \<Longrightarrow> L \<subseteq> K \<Longrightarrow> history_ok t L"
  unfolding history_ok_def using batches.lineage_known by blast

lemma history_rows: "history_ok t K \<Longrightarrow> set t \<subseteq> K"
  by (simp add: history_ok_def batches.lineage_def)

lemma update_history:
  assumes "update_batch n (vb_revision c) t = Inr (written, t')" and "history_ok t K" and "c \<in> K"
    and "vb_id n = vb_id c" and "batch_follows c n"
  shows "history_ok t' (K \<union> set t')"
proof -
  note u = update_rows [OF assms(1)]
  have "table_ok t'" by (rule update_table_ok [OF assms(1)]) (use assms(2) in \<open>simp add: history_ok_def\<close>)
  moreover have "batches.lineage t' (K \<union> set t')" unfolding u(5)
    by (rule batches.lineage_swap [of t K c]) (use assms(2-5) u(3) in \<open>simp_all add: history_ok_def\<close>)
  ultimately show ?thesis by (simp add: history_ok_def)
qed

lemma update_ids: "update_batch n e t = Inr (written, t') \<Longrightarrow> map vb_id t' = map vb_id t"
  by (drule update_rows(5)) (auto simp: owns_row_def)

lemma insert_history:
  assumes "insert_batch g b t = Inr t'" and "history_ok t K" and "\<And>k. k \<in> K \<Longrightarrow> vb_id k \<noteq> vb_id b"
  shows "history_ok t' (K \<union> set t')"
proof -
  have t': "t' = t @ [b]" by (rule insert_rows(1) [OF assms(1)])
  have "table_ok t'" using insert_table_ok assms(1,2) by (simp add: history_ok_def)
  moreover have "batches.lineage t' (insert b K)" unfolding t'
    by (rule batches.lineage_insert) (use assms(2,3) in \<open>simp_all add: history_ok_def\<close>)
  moreover have "K \<union> set t' = insert b K" using history_rows [OF assms(2)] by (auto simp: t')
  ultimately show ?thesis by (simp add: history_ok_def)
qed

lemma prune_history:
  assumes "prune_batches g project keep t = Inr (n, t')" and "history_ok t K"
  shows "history_ok t' K" and "set t' \<subseteq> set t"
proof -
  obtain P where "t' = filter P t" by (rule prune_rows [OF assms(1)]) blast
  then show "history_ok t' K" "set t' \<subseteq> set t"
    using assms(2) by (auto simp: history_ok_def filter_table_ok batches.lineage_filter)
qed

text \<open>Settling and abandoning.\<close>

lemma advanced_iff: "advanced b phase now = Inr n \<longleftrightarrow> may_become (vb_phase b) phase
    \<and> n = b\<lparr>vb_phase := phase, vb_revision := vb_revision b + 1, vb_updated_at := now\<rparr>"
  by (auto simp: advanced_def batch_advance_def)

lemma interrupt_frame [simp]:
  "vb_id (interrupt_bisection b) = vb_id b" "vb_project (interrupt_bisection b) = vb_project b"
  "vb_phase (interrupt_bisection b) = vb_phase b" "vb_revision (interrupt_bisection b) = vb_revision b"
  by (simp_all add: interrupt_bisection_def split: option.split)

lemma abandonable_may_end: "is_abandonable p \<Longrightarrow> may_become p Abandoned"
  by (cases p) (simp_all add: may_become_def is_abandonable_def phase_is_live_def)

lemma may_become_refl [simp]: "may_become p p"
  by (simp add: may_become_def)

lemma settled_follows:
  assumes "settled_record detail now b = Inr n"
  shows "vb_id n = vb_id b" and "batch_follows b n"
  using assms by (auto simp: settled_record_def result_bind_eq_Inr advanced_iff batch_follows_def abandonable_may_end split: if_splits)

lemma widen_history:
  assumes "history_ok u (K \<union> set v \<union> set u)"
  shows "history_ok u (K \<union> set u)"
  by (rule history_known [OF assms]) auto

lemma settle_history:
  "settle_loop detail now bs t = Inr (ids, t') \<Longrightarrow> history_ok t K \<Longrightarrow> set bs \<subseteq> K
    \<Longrightarrow> history_ok t' (K \<union> set t') \<and> map vb_id t' = map vb_id t"
proof (induction bs arbitrary: t ids K)
  case Nil
  then show ?case using history_rows by (simp add: Un_absorb2)
next
  case (Cons b bs)
  show ?case
  proof (cases "needs_finalization b")
    case False
    then show ?thesis using Cons by simp
  next
    case True
    obtain n written u rest where n: "settled_record detail now b = Inr n"
      and u: "update_batch n (vb_revision b) t = Inr (written, u)" and rest: "settle_loop detail now bs u = Inr (rest, t')"
      using Cons.prems(1) True by (auto simp: result_bind_eq_Inr)
    have "history_ok u (K \<union> set u)"
      using update_history [OF u Cons.prems(2) _ settled_follows [OF n]] Cons.prems(3) by simp
    then have "history_ok t' (K \<union> set u \<union> set t') \<and> map vb_id t' = map vb_id u" using Cons.IH [OF rest] Cons.prems(3) by auto
    then show ?thesis using widen_history [of t' K u] update_ids [OF u] by simp
  qed
qed

lemma abandon_history:
  "abandon_loop detail now bs t = Inr (ids, t') \<Longrightarrow> history_ok t K \<Longrightarrow> set bs \<subseteq> K
    \<Longrightarrow> history_ok t' (K \<union> set t') \<and> map vb_id t' = map vb_id t"
proof (induction bs arbitrary: t ids K)
  case Nil
  then show ?case using history_rows by (simp add: Un_absorb2)
next
  case (Cons b bs)
  show ?case
  proof (cases "is_abandonable (vb_phase b)")
    case False
    then show ?thesis using Cons by simp
  next
    case True
    obtain n written u rest where n: "advanced b Abandoned now = Inr n"
      and u: "update_batch (n\<lparr>vb_detail := Some detail\<rparr>) (vb_revision b) t = Inr (written, u)"
      and rest: "abandon_loop detail now bs u = Inr (rest, t')"
      using Cons.prems(1) True by (auto simp: result_bind_eq_Inr)
    have "history_ok u (K \<union> set u)"
      by (rule update_history [OF u Cons.prems(2)]) (use n Cons.prems(3) in \<open>simp_all add: advanced_iff batch_follows_def\<close>)
    then have "history_ok t' (K \<union> set u \<union> set t') \<and> map vb_id t' = map vb_id u" using Cons.IH [OF rest] Cons.prems(3) by auto
    then show ?thesis using widen_history [of t' K u] update_ids [OF u] by simp
  qed
qed

lemma store_new_history:
  assumes "store_new_tx g b backstop t = Inr ((), t')" and "history_ok t K" and "\<And>k. k \<in> K \<Longrightarrow> vb_id k \<noteq> vb_id b"
  shows "history_ok t' (K \<union> set t')"
proof -
  obtain ids u v n where u: "(case backstop of SettleUnfinished \<Rightarrow> settle_unfinished (vb_project b) NEWER (vb_created_at b) t
        | AbandonLive \<Rightarrow> abandon_live (vb_project b) NEWER (vb_created_at b) t) = Inr (ids, u)"
    and v: "insert_batch g b u = Inr v" and t': "prune_batches g (vb_project b) RETAINED_BATCHES v = Inr (n, t')"
    using assms(1) by (auto simp: store_new_tx_def Let_def result_bind_eq_Inr)
  have rows: "set (project_batches p t) \<subseteq> K" for p using history_rows [OF assms(2)] by (auto simp: project_batches_def)
  have h: "history_ok u (K \<union> set u) \<and> map vb_id u = map vb_id t"
    using u settle_history [OF _ assms(2) rows] abandon_history [OF _ assms(2) rows]
    by (cases backstop) (simp_all add: settle_unfinished_def abandon_live_def)
  have "vb_id ` set u = vb_id ` set t" using h by (metis set_map)
  then have ids: "vb_id ` set u \<subseteq> vb_id ` K" using history_rows [OF assms(2)] by auto
  have "history_ok v (K \<union> set u \<union> set v)" by (rule insert_history [OF v conjunct1 [OF h]]) (use ids assms(3) in force)
  then have "history_ok v (K \<union> set v)" by (rule widen_history)
  then show ?thesis using prune_history [OF t'] history_known by (metis (no_types, lifting) Un_mono order_refl sup_ge2)
qed

section \<open>Runs of the verifiers\<close>

text \<open>
  Any number of verifiers over the table \<open>t\<close>, each holding records among those known so far.  A new batch has an
  id no record has had; the closures a write applies leave the identity, the phase and the revision alone.
\<close>

definition annotation :: "(VerificationBatch \<Rightarrow> VerificationBatch) \<Rightarrow> bool" where
  "annotation change \<longleftrightarrow> (\<forall>n. vb_id (change n) = vb_id n \<and> vb_project (change n) = vb_project n
     \<and> vb_phase (change n) = vb_phase n \<and> vb_revision (change n) = vb_revision n)"

inductive verifier_step :: "VerificationBatch list \<times> VerificationBatch set \<Rightarrow> VerificationBatch list \<times> VerificationBatch set \<Rightarrow> bool" where
  records: "(\<And>k. k \<in> K \<Longrightarrow> vb_id k \<noteq> vb_id b) \<Longrightarrow> store_new g b backstop t = (r, t') \<Longrightarrow>
     verifier_step (t, K) (t', K \<union> set t')"
| advances: "c \<in> K \<Longrightarrow> annotation change \<Longrightarrow> advance_record g c phase change now t = (r', t') \<Longrightarrow>
     verifier_step (t, K) (t', K \<union> set t')"
| annotates: "c \<in> K \<Longrightarrow> annotation change \<Longrightarrow> update_parent g c change now t = (r', t') \<Longrightarrow>
     verifier_step (t, K) (t', K \<union> set t')"
| retires: "c \<in> K \<Longrightarrow> retire_write g merged now c t = t' \<Longrightarrow> verifier_step (t, K) (t', K \<union> set t')"
| retires_landed: "c \<in> K \<Longrightarrow> retire_landed_write g kept now c t = t' \<Longrightarrow> verifier_step (t, K) (t', K \<union> set t')"
| settles: "abandon_interrupted_batches g project now t = (ids, t') \<Longrightarrow> verifier_step (t, K) (t', K \<union> set t')"

lemma batch_tx_result: "batch_tx g f t = (r, t') \<Longrightarrow> t' = t \<or> (\<exists>x. r = Inr x \<and> f t = Inr (x, t'))"
  by (auto simp: batch_tx_def result_bind_eq_Inr split: sum.splits)

lemma history_same: "history_ok t K \<Longrightarrow> history_ok t (K \<union> set t)"
  using history_rows by (simp add: Un_absorb2)

lemma write_history:
  assumes "write_batch g n (vb_revision c) t = (r, t')" and "history_ok t K" and "c \<in> K" and "vb_id n = vb_id c" and "batch_follows c n"
  shows "history_ok t' (K \<union> set t')"
proof -
  obtain w where "batch_tx g (update_batch n (vb_revision c)) t = (w, t')"
    using assms(1) by (auto simp: write_batch_def split: prod.splits sum.splits)
  then consider "t' = t" | written where "update_batch n (vb_revision c) t = Inr (written, t')"
    using batch_tx_result by blast
  then show ?thesis using history_same assms(2) update_history [OF _ assms(2-5)] by cases auto
qed

lemma advance_history:
  assumes "advance_record g c phase change now t = (r, t')" and "history_ok t K" and "c \<in> K" and "annotation change"
  shows "history_ok t' (K \<union> set t')"
proof (cases "advanced c phase now")
  case (Inl e)
  then have "t' = t" using assms(1) by (simp add: advance_record_def)
  then show ?thesis using history_same [OF assms(2)] by simp
next
  case (Inr n)
  then obtain w where w: "write_batch g (change n) (vb_revision c) t = (w, t')"
    using assms(1) by (auto simp: advance_record_def split: sum.splits prod.splits)
  show ?thesis
    by (rule write_history [OF w assms(2,3)]) (use Inr assms(4) in \<open>simp_all add: annotation_def advanced_iff batch_follows_def\<close>)
qed

lemma parent_history:
  assumes "update_parent g p change now t = (r, t')" and "history_ok t K" and "annotation change"
  shows "history_ok t' (K \<union> set t')"
proof (cases "find (\<lambda>b. vb_id b = vb_id p) (project_batches (vb_project p) t)")
  case None
  then have "t' = t" using assms(1) by (simp add: update_parent_def)
  then show ?thesis using history_same [OF assms(2)] by simp
next
  case (Some c)
  let ?n = "(change c)\<lparr>vb_revision := vb_revision c + 1, vb_updated_at := now\<rparr>"
  obtain w where w: "write_batch g ?n (vb_revision c) t = (w, t')"
    using assms(1) by (auto simp: update_parent_def Some Let_def split: sum.splits prod.splits)
  have "c \<in> set t" using Some by (auto simp: find_Some_iff project_batches_def dest!: nth_mem)
  then have "c \<in> K" using history_rows [OF assms(2)] by blast
  then show ?thesis by (rule write_history [OF w assms(2)]) (use assms(3) in \<open>simp_all add: annotation_def batch_follows_def\<close>)
qed

lemma retire_history:
  assumes "history_ok t K" and "c \<in> K"
  shows "history_ok (retire_write g merged now c t) (K \<union> set (retire_write g merged now c t))"
    and "history_ok (retire_landed_write g kept now c t) (K \<union> set (retire_landed_write g kept now c t))"
proof -
  have "history_ok (snd (write_batch g n (vb_revision c) t)) (K \<union> set (snd (write_batch g n (vb_revision c) t)))"
    if "vb_id n = vb_id c" "batch_follows c n" for n
    using write_history [OF prod.collapse [symmetric] assms that] .
  then show "history_ok (retire_write g merged now c t) (K \<union> set (retire_write g merged now c t))"
    and "history_ok (retire_landed_write g kept now c t) (K \<union> set (retire_landed_write g kept now c t))"
    unfolding retire_write_def retire_landed_write_def Let_def by (simp_all add: batch_follows_def)
qed

lemma verifier_step_history: "verifier_step s s' \<Longrightarrow> history_ok (fst s) (snd s) \<Longrightarrow> history_ok (fst s') (snd s')"
proof (induction rule: verifier_step.induct)
  case (records K b g backstop t r t')
  have "t' = t \<or> store_new_tx g b backstop t = Inr ((), t')"
    using batch_tx_result [of g "store_new_tx g b backstop" t r t'] records(2) by (auto simp: store_new_def)
  then show ?case using history_same store_new_history records by auto
next
  case (settles g project now t ids t' K)
  have "history_ok t K" using settles(2) by simp
  then have rows: "set (project_batches project t) \<subseteq> K" using history_rows by (auto simp: project_batches_def)
  have "t' = t \<or> (\<exists>x. settle_loop INTERRUPTED now (project_batches project t) t = Inr (x, t'))"
    using settles(1) batch_tx_result [of g "settle_unfinished project INTERRUPTED now" t ids t']
    by (auto simp: abandon_interrupted_batches_def settle_unfinished_def split: if_splits)
  then show ?case using history_same settle_history [OF _ \<open>history_ok t K\<close> rows] \<open>history_ok t K\<close> by auto
qed (auto dest: advance_history parent_history simp: retire_history)

lemma verifier_run_history: "verifier_step\<^sup>*\<^sup>* s s' \<Longrightarrow> history_ok (fst s) (snd s) \<Longrightarrow> history_ok (fst s') (snd s')"
  by (induction rule: rtranclp_induct) (auto dest: verifier_step_history)

lemma ended_final: "may_become\<^sup>*\<^sup>* p q \<Longrightarrow> \<not> phase_is_live p \<Longrightarrow> q = p"
  by (induction rule: rtranclp_induct) (auto simp: may_become_def is_abandonable_def phase_is_live_def split: if_splits)

text \<open>
  C3. Whatever any number of verifiers do, with records as stale as they may be: the table keeps at most one live
  batch per project and only valid records; two records of a batch at the same revision are the same record; and
  a later record of a batch is reached from an earlier one along the order of the phases, so a batch that has
  ended stays in its end.
\<close>

theorem batch_histories_ordered:
  assumes "verifier_step\<^sup>*\<^sup>* ([], {}) (t, K)"
  shows "table_ok t \<and> set t \<subseteq> K
    \<and> (\<forall>j \<in> K. \<forall>k \<in> K. vb_id j = vb_id k \<longrightarrow>
         (vb_revision j = vb_revision k \<longrightarrow> j = k)
         \<and> (vb_revision j \<le> vb_revision k \<longrightarrow> may_become\<^sup>*\<^sup>* (vb_phase j) (vb_phase k)
              \<and> (\<not> batch_live j \<longrightarrow> vb_phase k = vb_phase j)))"
proof -
  have "history_ok [] {}" by (simp add: history_ok_def table_ok_empty batches.lineage_empty)
  then have "history_ok t K" using verifier_run_history [OF assms] by simp
  then show ?thesis unfolding history_ok_def batches.lineage_def using follows_phases ended_final by blast
qed

end
