(* ===== verification/Batch_Guarantees.thy ===== *)
theory Batch_Guarantees
  imports Batch_History
begin

text \<open>
  What the verifier can rely on when it writes batches: a restart settles exactly what was left open, recording a
  batch makes it the only live one and bounds what is retained, and of two writes from the same revision one is
  refused.
\<close>

section \<open>Settling after a restart\<close>

definition settled_form :: "string \<Rightarrow> string \<Rightarrow> VerificationBatch \<Rightarrow> VerificationBatch" where
  "settled_form detail now b =
     interrupt_bisection
       (if is_abandonable (vb_phase b)
        then b\<lparr>vb_phase := Abandoned, vb_revision := vb_revision b + 1, vb_updated_at := now, vb_detail := Some detail\<rparr>
        else b\<lparr>vb_revision := vb_revision b + 1, vb_updated_at := now\<rparr>)"

lemma settled_record_eq: "settled_record detail now b = Inr (settled_form detail now b)"
  by (simp add: settled_record_def settled_form_def advanced_def batch_advance_def abandonable_may_end)

lemma settled_frame [simp]:
  "vb_id (settled_form detail now b) = vb_id b" "vb_project (settled_form detail now b) = vb_project b"
  "vb_revision (settled_form detail now b) = vb_revision b + 1"
  "vb_phase (settled_form detail now b) = (if is_abandonable (vb_phase b) then Abandoned else vb_phase b)"
  by (simp_all add: settled_form_def)

lemma interrupt_retired [simp]: "vb_retired (interrupt_bisection b) = vb_retired b"
  by (simp add: interrupt_bisection_def split: option.split)

lemma settled_retired [simp]: "vb_retired (settled_form detail now b) = vb_retired b"
  by (simp add: settled_form_def)

lemma settled_done: "\<not> needs_finalization (settled_form detail now b)"
  by (auto simp: needs_finalization_def settled_form_def interrupt_bisection_def bisection_is_unfinished_def is_abandonable_def
      phase_is_live_def split: option.splits)

lemma tail_refusal_frame [simp]:
  "tail_refusal (b\<lparr>vb_phase := p\<rparr>) = tail_refusal b" "tail_refusal (b\<lparr>vb_revision := v\<rparr>) = tail_refusal b"
  "tail_refusal (b\<lparr>vb_updated_at := u\<rparr>) = tail_refusal b" "tail_refusal (b\<lparr>vb_detail := d\<rparr>) = tail_refusal b"
  "tail_refusal (b\<lparr>vb_bisection := s\<rparr>) = tail_refusal b"
  by (simp_all add: tail_refusal_def Let_def split: option.split)

lemma bisection_refusal_frame [simp]:
  "bisection_refusal (b\<lparr>vb_phase := p\<rparr>) = bisection_refusal b" "bisection_refusal (b\<lparr>vb_revision := v\<rparr>) = bisection_refusal b"
  "bisection_refusal (b\<lparr>vb_updated_at := u\<rparr>) = bisection_refusal b" "bisection_refusal (b\<lparr>vb_detail := d\<rparr>) = bisection_refusal b"
  by (simp_all add: bisection_refusal_def split: option.split)

lemma shape_refusal_frame [simp]:
  "shape_refusal (b\<lparr>vb_phase := p\<rparr>) = shape_refusal b" "shape_refusal (b\<lparr>vb_updated_at := u\<rparr>) = shape_refusal b"
  "shape_refusal (b\<lparr>vb_detail := d\<rparr>) = shape_refusal b" "shape_refusal (b\<lparr>vb_bisection := s\<rparr>) = shape_refusal b"
  by (simp_all add: shape_refusal_def Let_def cong: option.case_cong)

lemma shape_refusal_revision: "shape_refusal b = None \<Longrightarrow> 0 \<le> v \<Longrightarrow> shape_refusal (b\<lparr>vb_revision := v\<rparr>) = None"
  by (simp add: shape_refusal_def Let_def cong: option.case_cong split: if_split_asm)

lemma refusal_parts: "batch_refusal b = None \<longleftrightarrow> shape_refusal b = None \<and> tail_refusal b = None \<and> bisection_refusal b = None"
  by (simp add: batch_refusal_def split: option.split)

lemma interrupt_valid: "batch_refusal b = None \<Longrightarrow> batch_refusal (interrupt_bisection b) = None"
proof (cases "vb_bisection b")
  case (Some s)
  have "bisection_refusal (b\<lparr>vb_bisection := Some (s\<lparr>bs_outcome := outcome\<rparr>)\<rparr>) = bisection_refusal b" for outcome
    using Some by (simp add: bisection_refusal_def split: option.split)
  then show "batch_refusal b = None \<Longrightarrow> ?thesis" by (simp add: interrupt_bisection_def refusal_parts Some)
qed (simp add: interrupt_bisection_def)

lemma refusal_revision: "batch_refusal b = None \<Longrightarrow> 0 \<le> vb_revision b"
proof (rule ccontr)
  assume "batch_refusal b = None" "\<not> 0 \<le> vb_revision b"
  then show False by (simp add: refusal_parts shape_refusal_def Let_def split: if_split_asm)
qed

lemma settled_valid:
  assumes "batch_refusal b = None"
  shows "batch_refusal (settled_form detail now b) = None"
proof -
  have "0 \<le> vb_revision b + 1" using refusal_revision [OF assms] by simp
  then show ?thesis unfolding settled_form_def using assms
    by (intro interrupt_valid) (simp add: refusal_parts shape_refusal_revision)
qed

definition settle_row :: "string \<Rightarrow> string \<Rightarrow> VerificationBatch set \<Rightarrow> VerificationBatch \<Rightarrow> VerificationBatch" where
  "settle_row detail now B r = (if r \<in> B \<and> needs_finalization r then settled_form detail now r else r)"

lemma settle_row_id [simp]: "vb_id (settle_row detail now B r) = vb_id r"
  by (simp add: settle_row_def)

text \<open>Writing one settled record changes its row only.\<close>

lemma update_settled:
  assumes "distinct (map vb_id t)" and "b \<in> set t" and "batch_refusal b = None" and "vb_revision b < 2 ^ 63 - 1"
  shows "update_batch (settled_form detail now b) (vb_revision b) t = Inr (True, map (\<lambda>r. if r = b then settled_form detail now b else r) t)"
proof -
  have owns: "owns_row (settled_form detail now b) (vb_revision b) r \<longleftrightarrow> r = b" if "r \<in> set t" for r
  proof
    assume "owns_row (settled_form detail now b) (vb_revision b) r"
    then have "vb_id r = vb_id b" by (simp add: owns_row_def)
    then show "r = b" using assms(1,2) that by (auto simp: distinct_map inj_on_def)
  qed (auto simp: owns_row_def is_abandonable_def)
  then have "map (\<lambda>r. if owns_row (settled_form detail now b) (vb_revision b) r then settled_form detail now b else r) t
      = map (\<lambda>r. if r = b then settled_form detail now b else r) t" by simp
  moreover have "list_ex (owns_row (settled_form detail now b) (vb_revision b)) t" using owns assms(2) by (auto simp: list_ex_iff)
  moreover have valid: "checked (settled_form detail now b) = Inr ()" using settled_valid [OF assms(3)] by simp
  ultimately show ?thesis unfolding update_batch_def valid result_bind_Inr using assms(4) refusal_revision [OF assms(3)] by simp
qed

lemma settle_loop_exact:
  assumes "distinct (map vb_id t)" and "distinct (map vb_id bs)" and "set bs \<subseteq> set t"
    and "\<And>b. b \<in> set bs \<Longrightarrow> batch_refusal b = None \<and> vb_revision b < 2 ^ 63 - 1"
  shows "settle_loop detail now bs t = Inr (map vb_id (filter needs_finalization bs), map (settle_row detail now (set bs)) t)"
  using assms
proof (induction bs arbitrary: t)
  case Nil
  then show ?case by (simp add: settle_row_def map_idI)
next
  case (Cons b bs)
  have b: "b \<in> set t" "batch_refusal b = None" "vb_revision b < 2 ^ 63 - 1" and new: "b \<notin> set bs"
    using Cons.prems(2-4) by auto
  show ?case
  proof (cases "needs_finalization b")
    case False
    then have "map (settle_row detail now (set bs)) t = map (settle_row detail now (set (b # bs))) t"
      by (auto simp: settle_row_def)
    then show ?thesis using False Cons by simp
  next
    case True
    define f where "f = (\<lambda>r. if r = b then settled_form detail now b else r)"
    have upd: "update_batch (settled_form detail now b) (vb_revision b) t = Inr (True, map f t)"
      unfolding f_def by (rule update_settled [OF Cons.prems(1) b])
    have ids: "vb_id (f r) = vb_id r" for r by (simp add: f_def)
    then have same: "map vb_id (map f t) = map vb_id t" by simp
    have distinct: "distinct (map vb_id (map f t))" unfolding same by (rule Cons.prems(1))
    have rows: "set bs \<subseteq> set (map f t)" using Cons.prems(3) new by (force simp: f_def)
    have "settle_loop detail now bs (map f t)
        = Inr (map vb_id (filter needs_finalization bs), map (settle_row detail now (set bs)) (map f t))"
      by (rule Cons.IH [OF distinct _ rows]) (use Cons.prems(2,4) in simp_all)
    moreover have "settled_form detail now b \<notin> set bs" using Cons.prems(2) by (metis settled_frame(1) distinct.simps(2) list.simps(9) image_eqI set_map)
    then have "settle_row detail now (set bs) (f r) = settle_row detail now (set (b # bs)) r" for r
      using True new by (auto simp: settle_row_def f_def)
    then have "map (settle_row detail now (set bs)) (map f t) = map (settle_row detail now (set (b # bs))) t" by simp
    ultimately show ?thesis using True upd by (simp add: settled_record_eq del: map_map)
  qed
qed

text \<open>
  C25. A verifier that starts settles exactly what was left open: every batch it may abandon and every bisection
  without a recorded end, and reports those; no other batch changes, nothing of the project is left open, and a
  refusal can only come from the checks of the commit and leaves the table as it was.
\<close>

theorem interrupted_batches_settled:
  assumes "table_ok t" and "\<forall>b \<in> set t. vb_revision b < 2 ^ 63 - 1"
    and "abandon_interrupted_batches g project now t = (r, t')"
  shows "case r of
      Inl e \<Rightarrow> t' = t \<and> (\<exists>u. bt_commit g u = Inl e)
    | Inr ids \<Rightarrow> ids = map vb_id (filter needs_finalization (project_batches project t))
        \<and> t' = map (\<lambda>b. if vb_project b = project \<and> needs_finalization b then settled_form INTERRUPTED now b else b) t
        \<and> (\<forall>b \<in> set (project_batches project t'). \<not> needs_finalization b)"
proof (cases "list_ex needs_finalization (project_batches project t)")
  case False
  then have "r = Inr []" "t' = t" using assms(3) by (simp_all add: abandon_interrupted_batches_def)
  moreover have "\<not> needs_finalization b" if "b \<in> set t" "vb_project b = project" for b
    using False that by (auto simp: list_ex_iff project_batches_def)
  moreover have "map (\<lambda>b. if vb_project b = project \<and> needs_finalization b then settled_form INTERRUPTED now b else b) t = t"
    using calculation(3) by (intro map_idI) auto
  ultimately show ?thesis by (auto simp: project_batches_def filter_empty_conv)
next
  case True
  let ?bs = "project_batches project t" and ?f = "\<lambda>b. if vb_project b = project \<and> needs_finalization b then settled_form INTERRUPTED now b else b"
  have ids: "distinct (map vb_id t)" using assms(1) by (simp add: table_ok_def)
  then have "settle_loop INTERRUPTED now ?bs t = Inr (map vb_id (filter needs_finalization ?bs), map (settle_row INTERRUPTED now (set ?bs)) t)"
    by (rule settle_loop_exact) (use assms(1,2) ids in \<open>auto simp: project_batches_def table_ok_def distinct_map_filter\<close>)
  moreover have "map (settle_row INTERRUPTED now (set ?bs)) t = map ?f t" by (auto simp: settle_row_def project_batches_def)
  ultimately have "batch_tx g (settle_unfinished project INTERRUPTED now) t
      = (case bt_commit g (map ?f t) of Inl e \<Rightarrow> (Inl e, t) | Inr _ \<Rightarrow> (Inr (map vb_id (filter needs_finalization ?bs)), map ?f t))"
    by (simp add: batch_tx_def settle_unfinished_def result_bind_def split: sum.split)
  moreover have "\<not> needs_finalization b" if "b \<in> set (project_batches project (map ?f t))" for b
    using that settled_done by (auto simp: project_batches_def split: if_splits)
  ultimately show ?thesis using assms(3) True by (auto simp: abandon_interrupted_batches_def split: sum.splits)
qed

section \<open>Recording a batch\<close>

text \<open>Retention: at most \<open>keep\<close> ended and retired batches of the project survive, beside those a landing names.\<close>

lemma prune_bounds:
  assumes "prune_batches g project keep t = Inr (n, t')" and "distinct (map vb_id t)"
  shows "length (filter (\<lambda>b. prunable project b \<and> vb_id b \<notin> set (bt_landing g)) t') \<le> keep"
proof -
  define newest where "newest = map vb_id (take keep (rev (filter (prunable project) t)))"
  have t': "t' = filter (\<lambda>b. \<not> (prunable project b \<and> vb_id b \<notin> set (bt_landing g) \<and> vb_id b \<notin> set newest)) t"
    using assms(1) by (auto simp: prune_batches_def Let_def newest_def split: if_splits)
  let ?old = "filter (\<lambda>b. prunable project b \<and> vb_id b \<notin> set (bt_landing g)) t'"
  have "distinct (map vb_id ?old)" unfolding t' using assms(2) by (simp add: distinct_map_filter)
  from distinct_card [OF this] have "length ?old = card (vb_id ` set ?old)" by (simp only: set_map length_map)
  also have "\<dots> \<le> card (set newest)" by (rule card_mono) (auto simp: t')
  also have "\<dots> \<le> length newest" by (rule card_length)
  also have "\<dots> \<le> keep" by (simp add: newest_def)
  finally show ?thesis .
qed

lemma store_new_parts:
  assumes "store_new g b backstop t = (Inr (), t')"
  obtains ids u v n where "(case backstop of SettleUnfinished \<Rightarrow> settle_unfinished (vb_project b) NEWER (vb_created_at b) t
        | AbandonLive \<Rightarrow> abandon_live (vb_project b) NEWER (vb_created_at b) t) = Inr (ids, u)"
    and "insert_batch g b u = Inr v" and "prune_batches g (vb_project b) RETAINED_BATCHES v = Inr (n, t')"
  using assms by (auto simp: store_new_def batch_tx_def store_new_tx_def Let_def result_bind_eq_Inr split: sum.splits)

lemma loops_table_ok:
  "settle_loop detail now bs t = Inr (ids, t') \<Longrightarrow> table_ok t \<Longrightarrow> table_ok t'"
  "abandon_loop detail now bs t = Inr (ids', t') \<Longrightarrow> table_ok t \<Longrightarrow> table_ok t'"
proof (induction bs arbitrary: t ids ids')
  case (Cons b bs)
  { case 1
    then show ?case using Cons.IH(1) update_table_ok by (auto simp: result_bind_eq_Inr split: if_splits) }
  { case 2
    then show ?case using Cons.IH(2) update_table_ok by (auto simp: result_bind_eq_Inr split: if_splits) }
qed simp_all

text \<open>
  C26. A batch that is recorded is the only live batch of its project, and of the ended and retired batches of the
  project no more than the retained number survive, beside those a landing intent still names.
\<close>

theorem recorded_batch_alone:
  assumes "store_new g b backstop t = (Inr (), t')" and "table_ok t"
  shows "table_ok t' \<and> b \<in> set t' \<and> (\<forall>r \<in> set t'. vb_project r = vb_project b \<and> batch_live r \<longrightarrow> r = b)
    \<and> length (filter (\<lambda>r. prunable (vb_project b) r \<and> vb_id r \<notin> set (bt_landing g)) t') \<le> RETAINED_BATCHES"
proof -
  obtain ids u v n where u: "(case backstop of SettleUnfinished \<Rightarrow> settle_unfinished (vb_project b) NEWER (vb_created_at b) t
        | AbandonLive \<Rightarrow> abandon_live (vb_project b) NEWER (vb_created_at b) t) = Inr (ids, u)"
    and v: "insert_batch g b u = Inr v" and t': "prune_batches g (vb_project b) RETAINED_BATCHES v = Inr (n, t')"
    by (rule store_new_parts [OF assms(1)])
  have "table_ok u" using u loops_table_ok assms(2) by (cases backstop) (simp_all add: settle_unfinished_def abandon_live_def)
  then have v_ok: "table_ok v" by (rule insert_table_ok [OF v])
  note i = insert_rows [OF v]
  obtain P where P: "t' = filter P v" "\<And>r. \<not> P r \<Longrightarrow> prunable (vb_project b) r" by (rule prune_rows [OF t']) blast
  have "P b" using P(2) i(4) by (auto simp: prunable_def)
  then have "b \<in> set t'" using i(1) P(1) by simp
  moreover have "r = b" if "r \<in> set t'" "vb_project r = vb_project b" "batch_live r" for r
  proof -
    have "r \<in> set u \<or> r = b" using that(1) by (auto simp: P(1) i(1) split: if_splits)
    then show ?thesis using that(2,3) i(6) by blast
  qed
  moreover have "length (filter (\<lambda>r. prunable (vb_project b) r \<and> vb_id r \<notin> set (bt_landing g)) t') \<le> RETAINED_BATCHES"
    by (rule prune_bounds [OF t']) (use v_ok in \<open>simp add: table_ok_def\<close>)
  moreover have "table_ok t'" unfolding P(1) by (rule filter_table_ok [OF v_ok])
  ultimately show ?thesis by blast
qed

text \<open>
  C27. Of two writes of a batch from the same revision the second is refused: it changes nothing and says that the
  batch changed under its verifier, unless its record is refused for what it is or the commit refuses.
\<close>

theorem second_write_refused:
  assumes "write_batch g a expected t = (Inr (), t')" and "table_ok t" and "vb_id b = vb_id a"
    and "batch_refusal b = None" and "vb_revision b = expected + 1" and "bt_commit g' t' = Inr ()"
  shows "write_batch g' b expected t' = (Inl (Storage (''verification batch '' @ vb_id b @ '' changed under its verifier'')), t')"
proof -
  have first: "update_batch a expected t = Inr (True, t')"
    using assms(1) by (auto simp: write_batch_def batch_tx_def result_bind_eq_Inr split: prod.splits sum.splits if_splits)
  note u = update_rows [OF first]
  have range: "\<not> 2 ^ 63 - 1 \<le> expected" using first by (auto simp: update_batch_def result_bind_eq_Inr split: if_splits)
  obtain r where r: "r \<in> set t" "owns_row a expected r" using u(4) by blast
  have none: "\<not> owns_row b expected q" if q: "q \<in> set t'" for q
  proof
    assume owns: "owns_row b expected q"
    then have q_id: "vb_id q = vb_id a" "vb_revision q = expected" using assms(3) by (simp_all add: owns_row_def)
    show False
    proof (cases "q = a")
      case True
      then show False using q_id(2) u(3) by simp
    next
      case False
      then have "q \<in> set t" "\<not> owns_row a expected q" using q by (auto simp: u(5) split: if_splits)
      moreover have "q = r" using row_unique [OF assms(2) \<open>q \<in> set t\<close> r(1)] q_id(1) r(2) by (simp add: owns_row_def)
      ultimately show False using r(2) by simp
    qed
  qed
  have "map (\<lambda>q. if owns_row b expected q then b else q) t' = t'" using none by (intro map_idI) simp
  moreover have "\<not> list_ex (owns_row b expected) t'" using none by (auto simp: list_ex_iff)
  moreover have valid: "checked b = Inr ()" using assms(4) by simp
  ultimately have "update_batch b expected t' = Inr (False, t')"
    unfolding update_batch_def valid result_bind_Inr using u(2) range assms(5) by simp
  then show ?thesis using assms(6) by (simp add: write_batch_def batch_tx_def)
qed

section \<open>A batch, written and settled\<close>

definition sample_oid :: "char \<Rightarrow> string" where
  "sample_oid c = replicate 40 c"

definition sample_member :: "nat \<Rightarrow> int \<Rightarrow> string \<Rightarrow> BatchMember" where
  "sample_member p no i =
     \<lparr>bm_story = no, bm_story_id = i, bm_generation = 1, bm_head_commit = sample_oid CHR ''a'', bm_pull_request = ''pr'',
      bm_position = p, bm_branch = None, bm_merge_commit = None, bm_merge_tree = None, bm_resolution = None\<rparr>"

definition sample_batch :: VerificationBatch where
  "sample_batch =
     \<lparr>vb_id = ''abcdef012345'', vb_project = 1, vb_project_slug = ''storyhook'', vb_head = ''SH-1'', vb_base_branch = ''dev'',
      vb_base_commit = sample_oid CHR ''b'', vb_branch = ''storyhook/verify-batch/abcdef012345'', vb_tip = sample_oid CHR ''c'',
      vb_pull_request = None, vb_phase = Assembled, vb_members = [sample_member 0 1 ''SH-1'', sample_member 1 2 ''SH-2''],
      vb_excluded = [], vb_withdrawn = [], vb_gate = None, vb_detail = None, vb_bisects = None, vb_bisection = None,
      vb_retired = False, vb_revision = 0, vb_created_at = ''t1'', vb_updated_at = ''t1''\<rparr>"

definition sample_batch_guards :: BatchGuards where
  "sample_batch_guards = \<lparr>bt_constraint = Storage, bt_landing = [], bt_commit = (\<lambda>_. Inr ())\<rparr>"

definition sample_submitted :: VerificationBatch where
  "sample_submitted = sample_batch\<lparr>vb_phase := Submitted, vb_revision := 1, vb_updated_at := ''t2''\<rparr>"

lemma sample_batch_runs:
  "batch_refusal sample_batch = None"
  "store_new sample_batch_guards sample_batch SettleUnfinished [] = (Inr (), [sample_batch])"
  "advance_record sample_batch_guards sample_batch Submitted id ''t2'' [sample_batch] = (Inr sample_submitted, [sample_submitted])"
  "write_batch sample_batch_guards sample_submitted 0 [sample_batch] = (Inr (), [sample_submitted])"
  by code_simp+

lemma sample_table_ok: "table_ok [sample_batch]"
  using sample_batch_runs(1) by (simp add: table_ok_def)

theorem interrupted_batches_settled_witness:
  "abandon_interrupted_batches sample_batch_guards 1 ''t9'' [sample_batch]
    = (Inr [''abcdef012345''], [settled_form INTERRUPTED ''t9'' sample_batch])"
proof -
  obtain r t' where r: "abandon_interrupted_batches sample_batch_guards 1 ''t9'' [sample_batch] = (r, t')" by (metis surj_pair)
  have "\<forall>b \<in> set [sample_batch]. vb_revision b < 2 ^ 63 - 1" by (simp add: sample_batch_def)
  note settled = interrupted_batches_settled [OF sample_table_ok this r]
  have "needs_finalization sample_batch" "vb_project sample_batch = 1" "vb_id sample_batch = ''abcdef012345''" by code_simp+
  then show ?thesis using settled unfolding r
    by (cases r) (auto simp: sample_batch_guards_def project_batches_def)
qed

theorem recorded_batch_alone_witness:
  "sample_batch \<in> set [sample_batch] \<and> length (filter (\<lambda>r. prunable (vb_project sample_batch) r
      \<and> vb_id r \<notin> set (bt_landing sample_batch_guards)) [sample_batch]) \<le> RETAINED_BATCHES"
  using recorded_batch_alone [OF sample_batch_runs(2) table_ok_empty] by blast

theorem second_write_refused_witness:
  "write_batch sample_batch_guards (sample_submitted\<lparr>vb_detail := Some ''late''\<rparr>) 0 [sample_submitted]
    = (Inl (Storage (''verification batch '' @ ''abcdef012345'' @ '' changed under its verifier'')), [sample_submitted])"
proof -
  have late: "vb_id (sample_submitted\<lparr>vb_detail := Some ''late''\<rparr>) = vb_id sample_submitted"
    "batch_refusal (sample_submitted\<lparr>vb_detail := Some ''late''\<rparr>) = None"
    "vb_revision (sample_submitted\<lparr>vb_detail := Some ''late''\<rparr>) = 0 + 1"
    "bt_commit sample_batch_guards [sample_submitted] = Inr ()"
    by code_simp+
  from second_write_refused [OF sample_batch_runs(4) sample_table_ok late]
  show ?thesis by (simp add: sample_submitted_def sample_batch_def)
qed

theorem batch_histories_ordered_witness:
  "table_ok [sample_submitted] \<and> may_become\<^sup>*\<^sup>* (vb_phase sample_batch) (vb_phase sample_submitted)"
proof -
  have "verifier_step ([], {}) ([sample_batch], {} \<union> set [sample_batch])"
    by (rule records [OF _ sample_batch_runs(2)]) simp
  moreover have "verifier_step ([sample_batch], {sample_batch}) ([sample_submitted], {sample_batch} \<union> set [sample_submitted])"
    by (rule advances [OF _ _ sample_batch_runs(3)]) (simp_all add: annotation_def)
  ultimately have run: "verifier_step\<^sup>*\<^sup>* ([], {}) ([sample_submitted], {sample_batch, sample_submitted})"
    by (simp add: insert_commute)
  have "vb_id sample_batch = vb_id sample_submitted" "vb_revision sample_batch \<le> vb_revision sample_submitted" by code_simp+
  then show ?thesis using batch_histories_ordered [OF run] by auto
qed

end
