(* ===== verification/Prefix_Bisection.thy ===== *)
theory Prefix_Bisection
  imports Story_Text
begin

text \<open>
  The search for the member that turns a red batch red (\<^verbatim>\<open>src/src/domain/prefix_bisection.rs\<close>): two adjacent
  prefixes of the merge chain, one known green and one known red, closed in on by halving.
\<close>

section \<open>The search\<close>

datatype ProbeVerdict = VerdictGreen | VerdictRed

datatype Step = ProbeAt nat | Culprit nat nat

record PrefixBisection =
  pb_members :: nat
  pb_green :: nat
  pb_red :: nat

text \<open>A refusal is a \<open>BisectionError\<close>, which is its message.\<close>

definition bisection_new :: "nat \<Rightarrow> string + PrefixBisection" where
  "bisection_new members =
     (if members < 2 then Inl (''a bisection needs a red batch of two or more members, not '' @ nat_str members)
      else Inr \<lparr>pb_members = members, pb_green = 0, pb_red = members\<rparr>)"

definition prefix_open :: "PrefixBisection \<Rightarrow> nat \<Rightarrow> bool" where
  "prefix_open b pre \<longleftrightarrow> pb_green b < pre \<and> pre < pb_red b"

definition receipt_certified :: "nat \<Rightarrow> PrefixBisection \<Rightarrow> bool \<times> PrefixBisection" where
  "receipt_certified pre b = (if prefix_open b pre then (True, b\<lparr>pb_green := pre\<rparr>) else (False, b))"

definition next_step :: "PrefixBisection \<Rightarrow> Step" where
  "next_step b =
     (if pb_red b - pb_green b \<le> 1 then Culprit (pb_red b) (pb_green b)
      else ProbeAt (pb_green b + (pb_red b - pb_green b) div 2))"

definition record_verdict :: "nat \<Rightarrow> ProbeVerdict \<Rightarrow> PrefixBisection \<Rightarrow> string + PrefixBisection" where
  "record_verdict pre verdict b =
     (if \<not> prefix_open b pre
      then Inl (''prefix '' @ nat_str pre @ '' is not between the green prefix '' @ nat_str (pb_green b)
        @ '' and the red prefix '' @ nat_str (pb_red b))
      else Inr (case verdict of VerdictGreen \<Rightarrow> b\<lparr>pb_green := pre\<rparr> | VerdictRed \<Rightarrow> b\<lparr>pb_red := pre\<rparr>))"

text \<open>The machine's word has 64 bits; \<open>leading_zeros\<close> counts from the most significant.\<close>

definition leading_zeros :: "nat \<Rightarrow> nat" where
  "leading_zeros n = length (takeWhile (\<lambda>i. \<not> bit n i) (rev [0..<64]))"

definition max_probes :: "nat \<Rightarrow> nat" where
  "max_probes members = (if members < 2 then 0 else 64 - leading_zeros (members - 1))"

section \<open>What a step does to the interval\<close>

definition width :: "PrefixBisection \<Rightarrow> nat" where
  "width b = pb_red b - pb_green b"

lemma next_probe:
  assumes "next_step b = ProbeAt p"
  shows "prefix_open b p" and "p - pb_green b \<le> Suc (width b) div 2" and "pb_red b - p \<le> Suc (width b) div 2" and "2 \<le> width b"
  using assms by (auto simp: next_step_def prefix_open_def width_def split: if_splits)

lemma next_culprit: "next_step b = Culprit p c \<Longrightarrow> pb_green b < pb_red b \<Longrightarrow> p = pb_red b \<and> c = pb_green b \<and> p = c + 1"
  by (auto simp: next_step_def split: if_splits)

text \<open>A recorded verdict halves the interval, rounding up; so the number of probes is the bit length of the bound.\<close>

lemma record_verdict_halves:
  assumes "next_step b = ProbeAt p" and "record_verdict p v b = Inr b'"
  shows "width b' \<le> Suc (width b) div 2" and "width b' < width b" and "pb_green b' < pb_red b'" and "pb_members b' = pb_members b"
    and "v = VerdictGreen \<Longrightarrow> pb_green b' = p \<and> pb_red b' = pb_red b" and "v = VerdictRed \<Longrightarrow> pb_red b' = p \<and> pb_green b' = pb_green b"
  using next_probe [OF assms(1)] assms(2)
  by (auto simp: record_verdict_def prefix_open_def width_def split: if_splits ProbeVerdict.splits)

lemma record_open: "prefix_open b p \<Longrightarrow> \<exists>b'. record_verdict p v b = Inr b'"
  by (simp add: record_verdict_def)

lemma halve_power: "w \<le> 2 ^ Suc m \<Longrightarrow> Suc w div 2 \<le> 2 ^ m" for w m :: nat
  by simp

lemma bits_below: "(\<And>i. m \<le> i \<Longrightarrow> \<not> bit n i) \<Longrightarrow> n < 2 ^ m" for n m :: nat
proof -
  assume "\<And>i. m \<le> i \<Longrightarrow> \<not> bit n i"
  then have "take_bit m n = n" by (intro bit_eqI) (metis bit_take_bit_iff linorder_not_less)
  then show ?thesis by (metis take_bit_nat_less_exp)
qed

lemma leading_zeros_bits:
  assumes "64 - leading_zeros n \<le> i" and "i < 64"
  shows "\<not> bit n i"
proof -
  let ?zeros = "takeWhile (\<lambda>i. \<not> bit n i) (rev [0..<64])"
  have j: "63 - i < length ?zeros" using assms unfolding leading_zeros_def [symmetric] by simp
  then have "?zeros ! (63 - i) = rev [0..<64] ! (63 - i)" by (rule takeWhile_nth)
  also have "\<dots> = i" using assms(2) by (simp add: rev_nth)
  finally show ?thesis using set_takeWhileD [OF nth_mem [OF j]] by simp
qed

lemma max_probes_bound: "members \<le> 2 ^ 64 \<Longrightarrow> members \<le> 2 ^ max_probes members"
proof (cases "members < 2")
  case True
  then show ?thesis by (simp add: max_probes_def)
next
  case False
  assume fits: "members \<le> 2 ^ 64"
  have "\<not> bit (members - 1) i" if "64 - leading_zeros (members - 1) \<le> i" for i
  proof (cases "i < 64")
    case True
    then show ?thesis using leading_zeros_bits that by blast
  next
    case False
    have "members - 1 < 2 ^ 64" using fits \<open>\<not> members < 2\<close> by linarith
    also have "(2 :: nat) ^ 64 \<le> 2 ^ i" using False by (intro power_increasing) simp_all
    finally show ?thesis by (metis bit_take_bit_iff nat_take_bit_eq order_less_irrefl take_bit_nat_eq_self)
  qed
  then have "members - 1 < 2 ^ (64 - leading_zeros (members - 1))" by (rule bits_below)
  then show ?thesis using False by (simp add: max_probes_def)
qed

end
