(* ===== verification/Batch_Bisection.thy ===== *)
theory Batch_Bisection
  imports Prefix_Bisection Verification_Batch
begin

text \<open>
  Bisecting a red batch (\<^verbatim>\<open>src/src/daemon/verification/batch/bisect.rs\<close>): the probes of prefixes of the merge
  chain, what their gates' outcomes count for, and the search that ends with a culprit and a certified pre.
  What the gate, the receipts and the writes of records answer is a parameter, which may answer differently at
  every point of the search.
\<close>

section \<open>Outcomes of a gate\<close>

text \<open>
  The outcomes with the parts this code reads: the base an already landed head is contained by; the judged tree,
  the phase and the detail of a failed cleanup; the debug rendering of a project fault.
\<close>

datatype VerificationOutcome =
    OutcomeAlreadyLanded string
  | OutcomeRepairDeferred
  | OutcomeCleanupFailed string string string
  | OutcomeCancelled
  | OutcomeCertified string string string string
  | OutcomePrepared string
  | OutcomeConflict string
  | OutcomeInvalidSubmission string
  | OutcomeTestsFailed string string string string
  | OutcomeProjectFault string
  | OutcomeInfrastructureFailure string

definition gate_verdict_of :: "VerificationOutcome option result \<Rightarrow> bool \<Rightarrow> GateVerdict" where
  "gate_verdict_of verified cancelled =
     (case verified of
        Inl _ \<Rightarrow> GateError
      | Inr None \<Rightarrow> GateWithdrawn
      | Inr (Some outcome) \<Rightarrow>
          (case outcome of
             OutcomeCleanupFailed _ _ _ \<Rightarrow> GateCleanupFailed
           | _ \<Rightarrow>
             if cancelled then GateInterrupted
             else
               (case outcome of
                  OutcomeAlreadyLanded _ \<Rightarrow> GateAlreadyLanded
                | OutcomeCertified _ _ _ _ \<Rightarrow> GateCertified
                | OutcomePrepared _ \<Rightarrow> GateVerificationSkipped
                | OutcomeTestsFailed _ _ _ _ \<Rightarrow> GateTestsFailed
                | OutcomeConflict _ \<Rightarrow> GateConflict
                | OutcomeInvalidSubmission _ \<Rightarrow> GateInvalidSubmission
                | OutcomeProjectFault _ \<Rightarrow> GateProjectFault
                | OutcomeInfrastructureFailure _ \<Rightarrow> GateInfrastructureFailure
                | OutcomeCancelled \<Rightarrow> GateCancelled
                | OutcomeRepairDeferred \<Rightarrow> GateRepairDeferred
                | OutcomeCleanupFailed _ _ _ \<Rightarrow> GateCleanupFailed)))"

fun outcome_detail :: "VerificationOutcome \<Rightarrow> string" where
  "outcome_detail (OutcomeAlreadyLanded base_oid) = ''already contained by '' @ base_oid"
| "outcome_detail (OutcomeCertified head tree detail gate) = ''`'' @ gate @ ''` passed. '' @ detail"
| "outcome_detail (OutcomeTestsFailed tree log detail gate) = ''`'' @ gate @ ''` failed. Full log: '' @ log @ ''. '' @ detail"
| "outcome_detail (OutcomePrepared detail) = detail"
| "outcome_detail (OutcomeConflict detail) = detail"
| "outcome_detail (OutcomeInvalidSubmission detail) = detail"
| "outcome_detail (OutcomeInfrastructureFailure detail) = detail"
| "outcome_detail (OutcomeProjectFault fault) = ''project fault: '' @ fault"
| "outcome_detail OutcomeCancelled = ''the gate was cancelled''"
| "outcome_detail OutcomeRepairDeferred = ''a repair admission was refused, which a batch gate never claims''"
| "outcome_detail (OutcomeCleanupFailed tree phase detail) = ''cleanup failed: '' @ phase @ '': '' @ detail"

fun judged_tree :: "VerificationOutcome \<Rightarrow> string option" where
  "judged_tree (OutcomeCertified head tree detail gate) = Some tree"
| "judged_tree (OutcomeTestsFailed tree log detail gate) = Some tree"
| "judged_tree (OutcomeCleanupFailed tree phase detail) = Some tree"
| "judged_tree _ = None"

fun gated_tree :: "VerificationOutcome \<Rightarrow> string option" where
  "gated_tree (OutcomeCertified head tree detail gate) = Some tree"
| "gated_tree (OutcomeTestsFailed tree log detail gate) = Some tree"
| "gated_tree _ = None"

definition probe_gate :: "VerificationOutcome \<Rightarrow> nat \<Rightarrow> BatchGate" where
  "probe_gate outcome seconds =
     \<lparr>bg_verdict = gate_verdict_of (Inr (Some outcome)) False, bg_tree = gated_tree outcome,
      bg_detail = outcome_detail outcome, bg_seconds = seconds\<rparr>"

section \<open>What a probe found\<close>

record Red =
  red_tree :: string
  red_log :: string
  red_gate :: string
  red_detail :: string

record LiveProbe =
  lp_prefix :: nat
  lp_record :: VerificationBatch
  lp_outcome :: VerificationOutcome
  lp_seconds :: nat

datatype Probe = ProbeGreen "LiveProbe option" | ProbeRed Red | ProbeVoid string | ProbeHalt VerificationOutcome nat

definition classify_probe :: "VerificationOutcome \<Rightarrow> string \<Rightarrow> string \<Rightarrow> ProbeKind \<Rightarrow> nat \<Rightarrow> Probe" where
  "classify_probe outcome tree head kind seconds =
     (case outcome of
        OutcomeCertified certified judged _ _ \<Rightarrow>
          if certified = head \<and> (judged = tree \<or> kind = LandingProbe) then ProbeGreen None
          else ProbeVoid (''the gate certified '' @ certified @ '' as tree '' @ judged @ '', not the prefix '' @ head
            @ '' as tree '' @ tree @ '': the base or a head moved, so the verdict does not count'')
      | OutcomeTestsFailed judged log detail gate \<Rightarrow>
          if judged = tree \<and> kind = SearchProbe
          then ProbeRed \<lparr>red_tree = judged, red_log = log, red_gate = gate, red_detail = detail\<rparr>
          else ProbeVoid (''the gate failed tree '' @ judged @ '' where the prefix tree is '' @ tree
            @ ''; no story is blamed for it'')
      | OutcomeCleanupFailed _ _ _ \<Rightarrow> ProbeHalt outcome seconds
      | OutcomeCancelled \<Rightarrow> ProbeVoid ''the gate was stopped''
      | _ \<Rightarrow> ProbeVoid (''the gate ended '' @ verdict_as_str (gate_verdict_of (Inr (Some outcome)) False)
          @ '' and judged nothing: '' @ outcome_detail outcome))"

section \<open>The search over the probes\<close>

text \<open>
  The members with the commits they pushed, in queue order; the tips and trees of their prefixes; and what the
  search has found.  \<open>bi_left\<close> lists the members taken out of play, with whether their workspace was freed.
\<close>

record Bisecting =
  bi_parent :: string
  bi_members :: "(string \<times> string) list"
  bi_chain :: "(string \<times> string) list"
  bi_search :: PrefixBisection
  bi_reds :: "(nat, Red) btree_map"
  bi_greens :: "(nat, ProbeKind) btree_map"
  bi_live :: "LiveProbe option"
  bi_found :: "(nat \<times> nat) option"
  bi_stopped :: "string option"
  bi_landing_refused :: "string option"
  bi_halt :: "(VerificationOutcome \<times> nat) option"
  bi_runs :: nat
  bi_probes :: "BisectionProbe list"
  bi_outcome :: "BisectionOutcome option"
  bi_left :: "(string \<times> bool) list"

text \<open>
  The parameters: whether the search is cancelled at a point; whether a receipt certifies a prefix, or its error;
  the attempt to gate a prefix, which fails, ends without a gate for a reason, or returns the outcome of the gate
  with its duration and the record of the probe batch; and the error of recording a probe or the finding on the
  parent, if any.
\<close>

record BisectEnv =
  be_cancelled :: "Bisecting \<Rightarrow> nat \<Rightarrow> bool"
  be_receipt :: "Bisecting \<Rightarrow> nat \<Rightarrow> bool result"
  be_attempt :: "Bisecting \<Rightarrow> nat \<Rightarrow> ProbeKind \<Rightarrow> (string + VerificationOutcome \<times> nat \<times> VerificationBatch) result"
  be_noted :: "Bisecting \<Rightarrow> BisectionProbe \<Rightarrow> string option"
  be_written :: "Bisecting \<Rightarrow> string option"

definition note_probe :: "BisectEnv \<Rightarrow> BisectionProbe \<Rightarrow> Bisecting \<Rightarrow> Bisecting" where
  "note_probe env probe b =
     (case be_noted env b probe of
        None \<Rightarrow> b\<lparr>bi_probes := bi_probes b @ [probe]\<rparr>
      | Some e \<Rightarrow> b\<lparr>bi_stopped := Some (''the bisection could not be recorded: '' @ e)\<rparr>)"

definition note_gate ::
  "BisectEnv \<Rightarrow> nat \<Rightarrow> ProbeKind \<Rightarrow> string option \<Rightarrow> string \<Rightarrow> VerificationOutcome \<Rightarrow> Probe \<Rightarrow> nat \<Rightarrow> Bisecting \<Rightarrow> Bisecting" where
  "note_gate env pre kind batch tree outcome probe seconds =
     note_probe env
       \<lparr>pr_prefix = pre, pr_kind = kind, pr_batch = batch, pr_tree = tree,
        pr_verdict = gate_verdict_of (Inr (Some outcome)) False,
        pr_log = (case outcome of OutcomeTestsFailed _ log _ _ \<Rightarrow> Some log | _ \<Rightarrow> None),
        pr_detail = (case probe of ProbeVoid why \<Rightarrow> why | _ \<Rightarrow> outcome_detail outcome), pr_seconds = seconds\<rparr>"

text \<open>The head alone is gated as its own pull request, a longer prefix as a probe batch that stays live when certified.\<close>

definition gated_head :: "Bisecting \<Rightarrow> nat \<Rightarrow> string" where
  "gated_head b pre = (if pre = 1 then snd (bi_members b ! 0) else fst (bi_chain b ! (pre - 1)))"

definition prefix_tree :: "Bisecting \<Rightarrow> nat \<Rightarrow> string" where
  "prefix_tree b pre = snd (bi_chain b ! (pre - 1))"

definition run_probe :: "BisectEnv \<Rightarrow> nat \<Rightarrow> ProbeKind \<Rightarrow> Bisecting \<Rightarrow> Probe result \<times> Bisecting" where
  "run_probe env pre kind b =
     (case be_attempt env b pre kind of
        Inl e \<Rightarrow> (Inl e, b)
      | Inr (Inl why) \<Rightarrow> (Inr (ProbeVoid why), b)
      | Inr (Inr (outcome, seconds, batch)) \<Rightarrow>
          (let probe = classify_probe outcome (prefix_tree b pre) (gated_head b pre) kind seconds;
               b = note_gate env pre kind (if pre = 1 then None else Some (vb_id batch)) (prefix_tree b pre)
                 outcome probe seconds b
           in (Inr (case probe of
                      ProbeGreen _ \<Rightarrow>
                        if pre = 1 then probe
                        else ProbeGreen (Some \<lparr>lp_prefix = pre, lp_record = batch, lp_outcome = outcome, lp_seconds = seconds\<rparr>)
                    | _ \<Rightarrow> probe), b)))"

text \<open>The longest prefix a receipt certifies raises the green prefix; a receipt that cannot be read costs a gate.\<close>

fun use_receipts :: "BisectEnv \<Rightarrow> nat list \<Rightarrow> Bisecting \<Rightarrow> Bisecting" where
  "use_receipts env [] b = b"
| "use_receipts env (pre # shorter) b =
     (if be_cancelled env b pre then b
      else
        (case be_receipt env b pre of
           Inl _ \<Rightarrow> use_receipts env shorter b
         | Inr False \<Rightarrow> use_receipts env shorter b
         | Inr True \<Rightarrow>
             (case receipt_certified pre (bi_search b) of
                (False, _) \<Rightarrow> b
              | (True, search) \<Rightarrow>
                  note_probe env
                    \<lparr>pr_prefix = pre, pr_kind = ReceiptProbe, pr_batch = None, pr_tree = prefix_tree b pre,
                     pr_verdict = GateCertified, pr_log = None,
                     pr_detail = ''a qualifying gate receipt already certifies this tree'', pr_seconds = 0\<rparr>
                    (b\<lparr>bi_search := search, bi_greens := btm_insert pre ReceiptProbe (bi_greens b)\<rparr>))))"

definition leave :: "bool \<Rightarrow> string list \<Rightarrow> Bisecting \<Rightarrow> Bisecting" where
  "leave release ids b = b\<lparr>bi_left := bi_left b @ map (\<lambda>i. (i, release)) ids\<rparr>"

definition narrow :: "nat \<Rightarrow> Bisecting \<Rightarrow> Bisecting" where
  "narrow red b = leave True (map fst (drop red (bi_members b))) b"

definition search_found :: "BisectEnv \<Rightarrow> nat \<Rightarrow> nat \<Rightarrow> Bisecting \<Rightarrow> unit result \<times> Bisecting" where
  "search_found env p certified b =
     (case btm_get (bi_reds b) p of
        None \<Rightarrow> (Inl (Storage (''verification batch '' @ bi_parent b @ '': no red verdict is recorded for prefix '' @ nat_str p)), b)
      | Some red \<Rightarrow>
          (let culprit = fst (bi_members b ! (p - 1)) in
           case be_written env b of
             Some e \<Rightarrow>
               (Inr (), b\<lparr>bi_stopped := Some (culprit @ '' was found but the finding could not be recorded, so it is not returned: '' @ e)\<rparr>)
           | None \<Rightarrow>
               (let b = b\<lparr>bi_outcome := Some (CulpritFound culprit p (red_tree red) (red_log red) certified
                           ''found; the verifier returns it to its agent''),
                         bi_found := Some (p, certified)\<rparr>;
                    b = (if 1 < p then leave False [culprit] b else b)
                in if certified < 2 \<or> map_option lp_prefix (bi_live b) = Some certified \<or> be_cancelled env b certified
                   then (Inr (), b)
                   else
                     (case run_probe env certified LandingProbe (b\<lparr>bi_live := None\<rparr>) of
                        (Inl e, b) \<Rightarrow> (Inl e, b)
                      | (Inr (ProbeGreen live), b) \<Rightarrow> (Inr (), b\<lparr>bi_live := live\<rparr>)
                      | (Inr (ProbeRed red), b) \<Rightarrow>
                          (Inr (), b\<lparr>bi_landing_refused := Some (''the certified prefix failed its landing gate as tree '' @ red_tree red)\<rparr>)
                      | (Inr (ProbeVoid why), b) \<Rightarrow> (Inr (), b\<lparr>bi_landing_refused := Some why\<rparr>)
                      | (Inr (ProbeHalt outcome seconds), b) \<Rightarrow> (Inr (), b\<lparr>bi_halt := Some (outcome, seconds)\<rparr>)))))"

text \<open>One turn of the loop: it ends with a result, or goes on.\<close>

definition judge :: "nat \<Rightarrow> ProbeVerdict \<Rightarrow> (Bisecting \<Rightarrow> Bisecting) \<Rightarrow> Bisecting \<Rightarrow> (unit result \<times> Bisecting) + Bisecting" where
  "judge pre verdict after b =
     (let b = b\<lparr>bi_runs := bi_runs b + 1\<rparr> in
      case record_verdict pre verdict (bi_search b) of
        Inl e \<Rightarrow> Inl (Inl (Storage (''bisection: '' @ e)), b)
      | Inr search \<Rightarrow> Inr (after (b\<lparr>bi_search := search\<rparr>)))"

definition keep_green :: "nat \<Rightarrow> LiveProbe option \<Rightarrow> Bisecting \<Rightarrow> Bisecting" where
  "keep_green pre live b =
     (let b = b\<lparr>bi_greens := btm_insert pre SearchProbe (bi_greens b)\<rparr> in
      case next_step (bi_search b) of
        Culprit _ certified \<Rightarrow> if certified = pre then b\<lparr>bi_live := live\<rparr> else b
      | ProbeAt _ \<Rightarrow> b)"

definition keep_red :: "nat \<Rightarrow> Red \<Rightarrow> Bisecting \<Rightarrow> Bisecting" where
  "keep_red pre red b = narrow pre (b\<lparr>bi_reds := btm_insert pre red (bi_reds b)\<rparr>)"

definition search_turn :: "BisectEnv \<Rightarrow> Bisecting \<Rightarrow> (unit result \<times> Bisecting) + Bisecting" where
  "search_turn env b =
     (if be_cancelled env b 0 \<or> bi_stopped b \<noteq> None \<or> bi_halt b \<noteq> None then Inl (Inr (), b)
      else
        (case next_step (bi_search b) of
           Culprit p c \<Rightarrow> Inl (search_found env p c b)
         | ProbeAt pre \<Rightarrow>
             (case run_probe env pre SearchProbe (b\<lparr>bi_live := None\<rparr>) of
                (Inl e, b) \<Rightarrow> Inl (Inl e, b)
              | (Inr (ProbeGreen live), b) \<Rightarrow> judge pre VerdictGreen (keep_green pre live) b
              | (Inr (ProbeRed red), b) \<Rightarrow> judge pre VerdictRed (keep_red pre red) b
              | (Inr (ProbeVoid why), b) \<Rightarrow> Inl (Inr (), b\<lparr>bi_stopped := Some (''prefix '' @ nat_str pre @ '': '' @ why)\<rparr>)
              | (Inr (ProbeHalt outcome seconds), b) \<Rightarrow> Inl (Inr (), b\<lparr>bi_halt := Some (outcome, seconds)\<rparr>))))"

lemma note_frame [simp]:
  "bi_search (note_probe env p b) = bi_search b" "bi_members (note_probe env p b) = bi_members b"
  "bi_chain (note_probe env p b) = bi_chain b" "bi_reds (note_probe env p b) = bi_reds b"
  "bi_greens (note_probe env p b) = bi_greens b" "bi_runs (note_probe env p b) = bi_runs b"
  "bi_found (note_probe env p b) = bi_found b" "bi_left (note_probe env p b) = bi_left b"
  by (simp_all add: note_probe_def split: option.split)

lemma probe_frame:
  assumes "run_probe env pre kind b = (r, b')"
  shows "bi_search b' = bi_search b" and "bi_members b' = bi_members b" and "bi_chain b' = bi_chain b"
    and "bi_reds b' = bi_reds b" and "bi_greens b' = bi_greens b" and "bi_runs b' = bi_runs b"
    and "bi_found b' = bi_found b" and "bi_left b' = bi_left b"
  using assms by (auto simp: run_probe_def Let_def note_gate_def split: sum.splits prod.splits)

lemma keep_search [simp]: "bi_search (keep_green pre live b) = bi_search b" "bi_search (keep_red pre red b) = bi_search b"
  by (simp_all add: keep_green_def Let_def keep_red_def narrow_def leave_def split: Step.split)

text \<open>A turn that goes on has gated a prefix and narrowed the search by its verdict.\<close>

lemma search_turn_goes_on:
  assumes "search_turn env b = Inr b'"
  obtains (green) pre live c s where "next_step (bi_search b) = ProbeAt pre"
      and "run_probe env pre SearchProbe (b\<lparr>bi_live := None\<rparr>) = (Inr (ProbeGreen live), c)"
      and "record_verdict pre VerdictGreen (bi_search b) = Inr s"
      and "b' = keep_green pre live (c\<lparr>bi_runs := bi_runs c + 1, bi_search := s\<rparr>)"
  | (red) pre red c s where "next_step (bi_search b) = ProbeAt pre"
      and "run_probe env pre SearchProbe (b\<lparr>bi_live := None\<rparr>) = (Inr (ProbeRed red), c)"
      and "record_verdict pre VerdictRed (bi_search b) = Inr s"
      and "b' = keep_red pre red (c\<lparr>bi_runs := bi_runs c + 1, bi_search := s\<rparr>)"
proof -
  obtain pre where p: "next_step (bi_search b) = ProbeAt pre"
    using assms by (auto simp: search_turn_def split: if_splits Step.splits)
  obtain r c where run: "run_probe env pre SearchProbe (b\<lparr>bi_live := None\<rparr>) = (r, c)" by (metis surj_pair)
  have same: "bi_search c = bi_search b" using probe_frame(1) [OF run] by simp
  obtain probe where r: "r = Inr probe" using assms p run by (cases r) (auto simp: search_turn_def split: if_splits)
  show thesis
  proof (cases probe)
    case (ProbeGreen live)
    then show thesis using assms p run r same green [OF p]
      by (auto simp: search_turn_def judge_def Let_def split: if_splits sum.splits)
  next
    case (ProbeRed e)
    then show thesis using assms p run r same red [OF p]
      by (auto simp: search_turn_def judge_def Let_def split: if_splits sum.splits)
  qed (use assms p run r in \<open>auto simp: search_turn_def split: if_splits\<close>)
qed

lemma search_turn_narrows:
  assumes "search_turn env b = Inr b'"
  shows "width (bi_search b') < width (bi_search b)"
  using assms by (cases rule: search_turn_goes_on) (use record_verdict_halves(2) in force)+

function search :: "BisectEnv \<Rightarrow> Bisecting \<Rightarrow> unit result \<times> Bisecting" where
  "search env b = (case search_turn env b of Inl end_result \<Rightarrow> end_result | Inr b' \<Rightarrow> search env b')"
  by pat_completeness auto

termination search
  by (relation "measure (\<lambda>(_, b). width (bi_search b))") (simp_all add: search_turn_narrows)

declare search.simps [simp del]

text \<open>
  The bisection of a batch whose gate failed as \<open>red\<close>: nothing is done unless that tree is the one of the tip.
  The members are those of the record, each with its tip and tree in the chain.
\<close>

definition bisect ::
  "BisectEnv \<Rightarrow> string \<Rightarrow> (string \<times> string) list \<Rightarrow> (string \<times> string) list \<Rightarrow> Red \<Rightarrow> unit result \<times> Bisecting option" where
  "bisect env parent members chain red =
     (if (if chain = [] then None else Some (snd (last chain))) \<noteq> Some (red_tree red) then (Inr (), None)
      else
        (case bisection_new (length members) of
           Inl e \<Rightarrow> (Inl (Validation e), None)
         | Inr start \<Rightarrow>
             (let b = \<lparr>bi_parent = parent, bi_members = members, bi_chain = chain, bi_search = start,
                       bi_reds = btm_insert (length members) red [], bi_greens = [], bi_live = None, bi_found = None,
                       bi_stopped = None, bi_landing_refused = None, bi_halt = None, bi_runs = 0, bi_probes = [],
                       bi_outcome = None, bi_left = []\<rparr>;
                  (r, b) = search env (use_receipts env (rev [1..<length chain]) b)
              in (r, Some b))))"

end
