(* ===== verification/Bisection_Guarantees.thy ===== *)
theory Bisection_Guarantees
  imports Batch_Bisection
begin

text \<open>
  The search blames a real change: whatever the gates answer and whenever they do, it ends within the bound on
  probes, and the member it names turns a prefix that is green (or the base) into one whose exact tree failed.
\<close>

section \<open>Evidence\<close>

definition gate_failed :: "BisectEnv \<Rightarrow> (string \<times> string) list \<Rightarrow> nat \<Rightarrow> bool" where
  "gate_failed env chain p \<longleftrightarrow>
     (\<exists>s log detail gate more. be_attempt env s p SearchProbe
        = Inr (Inr (OutcomeTestsFailed (snd (chain ! (p - 1))) log detail gate, more)))"

definition prefix_certified :: "BisectEnv \<Rightarrow> (string \<times> string) list \<Rightarrow> (string \<times> string) list \<Rightarrow> nat \<Rightarrow> bool" where
  "prefix_certified env members chain c \<longleftrightarrow>
     (\<exists>s. be_receipt env s c = Inr True)
     \<or> (\<exists>s detail gate more. be_attempt env s c SearchProbe = Inr (Inr (OutcomeCertified
          (if c = 1 then snd (members ! 0) else fst (chain ! (c - 1))) (snd (chain ! (c - 1))) detail gate, more)))"

lemma classify_red: "classify_probe outcome tree head kind seconds = ProbeRed e \<longleftrightarrow>
    kind = SearchProbe \<and> (\<exists>log detail gate. outcome = OutcomeTestsFailed tree log detail gate
      \<and> e = \<lparr>red_tree = tree, red_log = log, red_gate = gate, red_detail = detail\<rparr>)"
  by (auto simp: classify_probe_def split: VerificationOutcome.split)

lemma classify_green: "classify_probe outcome tree head kind seconds = ProbeGreen live \<longleftrightarrow>
    live = None \<and> (\<exists>judged detail gate. outcome = OutcomeCertified head judged detail gate \<and> (judged = tree \<or> kind = LandingProbe))"
  by (auto simp: classify_probe_def split: VerificationOutcome.split)

lemma probe_green:
  assumes "run_probe env p SearchProbe b = (Inr (ProbeGreen live), c)"
  shows "prefix_certified env (bi_members b) (bi_chain b) p"
proof -
  obtain outcome took batch where "be_attempt env b p SearchProbe = Inr (Inr (outcome, took, batch))"
      "\<exists>l seconds. classify_probe outcome (prefix_tree b p) (gated_head b p) SearchProbe seconds = ProbeGreen l"
    using assms by (auto simp: run_probe_def Let_def split: sum.splits prod.splits Probe.splits if_splits)
  then show ?thesis by (auto simp: classify_green prefix_certified_def prefix_tree_def gated_head_def)
qed

lemma probe_red:
  assumes "run_probe env p SearchProbe b = (Inr (ProbeRed e), c)"
  shows "gate_failed env (bi_chain b) p" and "red_tree e = snd (bi_chain b ! (p - 1))"
proof -
  obtain outcome took batch seconds where "be_attempt env b p SearchProbe = Inr (Inr (outcome, took, batch))"
      "classify_probe outcome (prefix_tree b p) (gated_head b p) SearchProbe seconds = ProbeRed e"
    using assms by (auto simp: run_probe_def Let_def split: sum.splits prod.splits Probe.splits if_splits)
  then obtain log detail gate where "be_attempt env b p SearchProbe
        = Inr (Inr (OutcomeTestsFailed (snd (bi_chain b ! (p - 1))) log detail gate, took, batch))"
      and tree: "red_tree e = snd (bi_chain b ! (p - 1))"
    by (auto simp: classify_red prefix_tree_def)
  then show "gate_failed env (bi_chain b) p" unfolding gate_failed_def by blast
  show "red_tree e = snd (bi_chain b ! (p - 1))" by (rule tree)
qed

lemma probe_error: "run_probe env p kind b = (Inl e, c) \<Longrightarrow> \<exists>s q k. be_attempt env s q k = Inl e"
  by (auto simp: run_probe_def Let_def split: sum.splits prod.splits)

section \<open>The invariant of the search\<close>

definition freed :: "(string \<times> string) list \<Rightarrow> nat \<Rightarrow> (string \<times> bool) set" where
  "freed members red = (\<lambda>m. (fst m, True)) ` set (drop red members)"

definition sound_search :: "BisectEnv \<Rightarrow> (string \<times> string) list \<Rightarrow> (string \<times> string) list \<Rightarrow> Bisecting \<Rightarrow> bool" where
  "sound_search env members chain b \<longleftrightarrow>
     (let green = pb_green (bi_search b); red = pb_red (bi_search b); most = max_probes (length members) in
      bi_members b = members \<and> bi_chain b = chain \<and> bi_found b = None
      \<and> green < red \<and> red \<le> length members
      \<and> (\<exists>e. btm_get (bi_reds b) red = Some e \<and> red_tree e = snd (chain ! (red - 1)))
      \<and> (red = length members \<or> gate_failed env chain red)
      \<and> (green = 0 \<or> prefix_certified env members chain green)
      \<and> bi_runs b \<le> most \<and> red - green \<le> 2 ^ (most - bi_runs b)
      \<and> set (bi_left b) = freed members red)"

lemma freed_shorter: "p \<le> q \<Longrightarrow> freed members q \<union> freed members p = freed members p"
  using set_drop_subset_set_drop [of p q members] by (auto simp: freed_def)

lemma one_more_run:
  fixes w v m r :: nat
  assumes "w \<le> 2 ^ (m - r)" and "2 \<le> w" and "r \<le> m" and "v \<le> Suc w div 2"
  shows "r + 1 \<le> m" and "v \<le> 2 ^ (m - (r + 1))"
proof -
  have "m - r \<noteq> 0" using assms(1,2) by (metis le_antisym one_le_numeral power_0 Suc_1 not_less_eq_eq)
  then obtain k where k: "m - r = Suc k" by (cases "m - r") auto
  then show "r + 1 \<le> m" using assms(3) by linarith
  have "v \<le> 2 ^ k" using order_trans [OF assms(4) halve_power] assms(1) k by simp
  moreover have "m - (r + 1) = k" using k by linarith
  ultimately show "v \<le> 2 ^ (m - (r + 1))" by simp
qed

lemma turn_keeps_sound:
  assumes "search_turn env b = Inr b'" and "sound_search env members chain b"
  shows "sound_search env members chain b'"
  using assms(1)
proof (cases rule: search_turn_goes_on)
  case (green p live c s)
  note sound = assms(2) [unfolded sound_search_def Let_def]
  note frame = probe_frame [OF green(2)]
  note step = next_probe [OF green(1)] record_verdict_halves [OF green(1,3)]
  have verdict: "pb_green s = p" "pb_red s = pb_red (bi_search b)" using step(9) by simp_all
  have left: "bi_left b' = bi_left b" "bi_reds b' = bi_reds b" "bi_search b' = s" "bi_runs b' = bi_runs b + 1"
    "bi_members b' = bi_members b" "bi_chain b' = bi_chain b" "bi_found b' = bi_found b"
    using frame by (simp_all add: green(4) keep_green_def Let_def split: Step.split)
  have "prefix_certified env members chain p" using probe_green [OF green(2)] sound by simp
  moreover have "bi_runs b + 1 \<le> max_probes (length members)" "pb_red s - pb_green s \<le> 2 ^ (max_probes (length members) - (bi_runs b + 1))"
    using one_more_run [OF _ step(4) _ step(5)] sound by (simp_all add: width_def)
  ultimately show ?thesis unfolding sound_search_def Let_def left using sound step(7) by (simp add: verdict)
next
  case (red p e c s)
  note sound = assms(2) [unfolded sound_search_def Let_def]
  note frame = probe_frame [OF red(2)]
  note step = next_probe [OF red(1)] record_verdict_halves [OF red(1,3)]
  have verdict: "pb_red s = p" "pb_green s = pb_green (bi_search b)" using step(10) by simp_all
  have less: "p \<le> pb_red (bi_search b)" using step(1) by (simp add: prefix_open_def)
  have same: "bi_search b' = s" "bi_runs b' = bi_runs b + 1" "bi_reds b' = btm_insert p e (bi_reds b)"
    "bi_members b' = bi_members b" "bi_chain b' = bi_chain b" "bi_found b' = bi_found b"
    using frame by (simp_all add: red(4) keep_red_def narrow_def leave_def)
  have "set (bi_left b') = set (bi_left b) \<union> freed members p"
    using frame sound by (simp add: red(4) keep_red_def narrow_def leave_def freed_def image_image)
  then have left: "set (bi_left b') = freed members p" using sound freed_shorter [OF less] by simp
  have failed: "gate_failed env chain p" "red_tree e = snd (chain ! (p - 1))" using probe_red [OF red(2)] sound by simp_all
  have bound: "bi_runs b + 1 \<le> max_probes (length members)" "pb_red s - pb_green s \<le> 2 ^ (max_probes (length members) - (bi_runs b + 1))"
    using one_more_run [OF _ step(4) _ step(5)] sound by (simp_all add: width_def)
  show ?thesis unfolding sound_search_def Let_def same left
    using sound step(7) failed bound less by (simp add: verdict)
qed

text \<open>How a search may end.\<close>

definition blamed :: "BisectEnv \<Rightarrow> (string \<times> string) list \<Rightarrow> (string \<times> string) list \<Rightarrow> nat \<Rightarrow> nat \<Rightarrow> (string \<times> bool) list \<Rightarrow> bool" where
  "blamed env members chain p c left \<longleftrightarrow>
     p = c + 1 \<and> p \<le> length members
     \<and> (p = length members \<or> gate_failed env chain p)
     \<and> (c = 0 \<or> prefix_certified env members chain c)
     \<and> set left = freed members p \<union> (if 1 < p then {(fst (members ! (p - 1)), False)} else {})"

definition ended_well :: "BisectEnv \<Rightarrow> (string \<times> string) list \<Rightarrow> (string \<times> string) list \<Rightarrow> unit result \<Rightarrow> Bisecting \<Rightarrow> bool" where
  "ended_well env members chain r b \<longleftrightarrow>
     bi_runs b \<le> max_probes (length members)
     \<and> (case r of Inl e \<Rightarrow> \<exists>s p kind. be_attempt env s p kind = Inl e | Inr _ \<Rightarrow> True)
     \<and> (case bi_found b of
          Some (p, c) \<Rightarrow> blamed env members chain p c (bi_left b)
        | None \<Rightarrow> is_ok r \<longrightarrow> (\<exists>s. be_cancelled env s 0) \<or> bi_stopped b \<noteq> None \<or> bi_halt b \<noteq> None)"

lemma landing_frame:
  assumes "search_found env p c b = (r, b')" and "btm_get (bi_reds b) p = Some e" and "be_written env b = None"
  shows "bi_found b' = Some (p, c)" and "bi_runs b' = bi_runs b"
    and "bi_left b' = (if 1 < p then bi_left b @ [(fst (bi_members b ! (p - 1)), False)] else bi_left b)"
    and "\<And>x. r = Inl x \<Longrightarrow> \<exists>s q kind. be_attempt env s q kind = Inl x"
  using assms by (auto simp: search_found_def Let_def leave_def split: if_splits prod.splits sum.splits Probe.splits
      dest: probe_frame probe_error)

lemma found_ends_well:
  assumes "search_found env p c b = (r, b')" and sound: "sound_search env members chain b" and "next_step (bi_search b) = Culprit p c"
  shows "ended_well env members chain r b'"
proof -
  note s = sound [unfolded sound_search_def Let_def]
  have pc: "p = pb_red (bi_search b)" "c = pb_green (bi_search b)" "p = c + 1"
    using next_culprit [OF assms(3)] s by auto
  obtain e where e: "btm_get (bi_reds b) p = Some e" using s pc(1) by blast
  show ?thesis
  proof (cases "be_written env b")
    case None
    note f = landing_frame [OF assms(1) e None]
    have "blamed env members chain p c (bi_left b')" using s f(3) pc by (simp add: blamed_def)
    moreover have "case r of Inl e \<Rightarrow> \<exists>s p kind. be_attempt env s p kind = Inl e | Inr _ \<Rightarrow> True" using f(4) by (auto split: sum.split)
    ultimately show ?thesis using f(1,2) s by (simp add: ended_well_def)
  next
    case (Some why)
    then have "r = Inr ()" "bi_runs b' = bi_runs b" "bi_found b' = bi_found b" "bi_stopped b' \<noteq> None"
      using assms(1) e by (auto simp: search_found_def Let_def)
    then show ?thesis using s by (simp add: ended_well_def)
  qed
qed

lemma turn_ends_well:
  assumes "search_turn env b = Inl (r, b')" and sound: "sound_search env members chain b"
  shows "ended_well env members chain r b'"
proof -
  note s = sound [unfolded sound_search_def Let_def]
  show ?thesis
  proof (cases "be_cancelled env b 0 \<or> bi_stopped b \<noteq> None \<or> bi_halt b \<noteq> None")
    case True
    then have "r = Inr ()" "b' = b" using assms(1) by (simp_all add: search_turn_def)
    then show ?thesis using True s by (auto simp: ended_well_def)
  next
    case False
    show ?thesis
    proof (cases "next_step (bi_search b)")
      case (Culprit p c)
      then have "search_found env p c b = (r, b')" using assms(1) False by (simp add: search_turn_def)
      then show ?thesis by (rule found_ends_well [OF _ sound Culprit])
    next
      case (ProbeAt p)
      obtain q u where run: "run_probe env p SearchProbe (b\<lparr>bi_live := None\<rparr>) = (q, u)" by (metis surj_pair)
      note frame = probe_frame [OF run]
      have goes: "\<exists>t. judge p v k u = Inr t" for v k
      proof -
        obtain t where "record_verdict p v (bi_search u) = Inr t"
          using record_open [OF next_probe(1) [OF ProbeAt], of v] frame(1) by auto
        then show ?thesis by (simp add: judge_def)
      qed
      have turn: "search_turn env b = (case q of Inl e \<Rightarrow> Inl (Inl e, u)
          | Inr (ProbeGreen live) \<Rightarrow> judge p VerdictGreen (keep_green p live) u
          | Inr (ProbeRed red) \<Rightarrow> judge p VerdictRed (keep_red p red) u
          | Inr (ProbeVoid why) \<Rightarrow> Inl (Inr (), u\<lparr>bi_stopped := Some (''prefix '' @ nat_str p @ '': '' @ why)\<rparr>)
          | Inr (ProbeHalt outcome seconds) \<Rightarrow> Inl (Inr (), u\<lparr>bi_halt := Some (outcome, seconds)\<rparr>))"
        using False by (simp add: search_turn_def ProbeAt run split: sum.split Probe.split)
      have same: "bi_runs u = bi_runs b" "bi_found u = None" using frame s by simp_all
      show ?thesis
      proof (cases q)
        case (Inl e)
        then show ?thesis using turn assms(1) same s probe_error [OF run [unfolded Inl]] by (auto simp: ended_well_def)
      next
        case (Inr probe)
        then show ?thesis using turn assms(1) same s goes
          by (cases probe) (auto simp: ended_well_def, (metis Inl_Inr_False)+)
      qed
    qed
  qed
qed

lemma search_ends_well:
  "sound_search env members chain b \<Longrightarrow> search env b = (r, b') \<Longrightarrow> ended_well env members chain r b'"
proof (induction env b rule: search.induct)
  case (1 env b)
  show ?case
  proof (cases "search_turn env b")
    case (Inl end_result)
    then show ?thesis using 1 turn_ends_well by (simp add: search.simps [of env b])
  next
    case (Inr c)
    then show ?thesis using 1 turn_keeps_sound by (simp add: search.simps [of env b])
  qed
qed

section \<open>From the red batch to the culprit\<close>

lemma receipts_keep_sound:
  "sound_search env members chain b \<Longrightarrow> sound_search env members chain (use_receipts env ps b)"
proof (induction ps)
  case (Cons p ps)
  note s = Cons.prems [unfolded sound_search_def Let_def]
  show ?case
  proof (cases "\<not> be_cancelled env b p \<and> be_receipt env b p = Inr True \<and> prefix_open (bi_search b) p")
    case True
    then have "prefix_certified env members chain p" by (auto simp: prefix_certified_def)
    moreover have "pb_red (bi_search b) - p \<le> pb_red (bi_search b) - pb_green (bi_search b)"
      using True by (intro diff_le_mono2) (simp add: prefix_open_def)
    then have "pb_red (bi_search b) - p \<le> 2 ^ (max_probes (length members) - bi_runs b)"
      using s by (meson order_trans)
    moreover define c where "c = b\<lparr>bi_search := (bi_search b)\<lparr>pb_green := p\<rparr>, bi_greens := btm_insert p ReceiptProbe (bi_greens b)\<rparr>"
    ultimately have "sound_search env members chain c"
      using s True by (simp add: sound_search_def Let_def prefix_open_def)
    then have "sound_search env members chain (note_probe env probe c)" for probe by (simp add: sound_search_def)
    then show ?thesis using True by (simp add: receipt_certified_def c_def)
  next
    case False
    then show ?thesis using Cons by (auto simp: receipt_certified_def split: sum.split bool.split)
  qed
qed simp

lemma bisect_ends_well:
  assumes "length chain = length members" and "2 \<le> length members" and "length members \<le> 2 ^ 64"
    and "red_tree red = snd (last chain)"
  shows "\<exists>r b. bisect env parent members chain red = (r, Some b) \<and> ended_well env members chain r b"
proof -
  let ?n = "length members"
  let ?b = "\<lparr>bi_parent = parent, bi_members = members, bi_chain = chain, bi_search = \<lparr>pb_members = ?n, pb_green = 0, pb_red = ?n\<rparr>,
      bi_reds = btm_insert ?n red [], bi_greens = [], bi_live = None, bi_found = None, bi_stopped = None,
      bi_landing_refused = None, bi_halt = None, bi_runs = 0, bi_probes = [], bi_outcome = None, bi_left = []\<rparr>"
  have chain: "chain \<noteq> []" using assms(1,2) by auto
  have "snd (last chain) = snd (chain ! (?n - 1))" using chain assms(1) by (simp add: last_conv_nth)
  then have "sound_search env members chain ?b"
    using assms max_probes_bound [OF assms(3)] by (auto simp: sound_search_def Let_def freed_def btm_get_def)
  then have "sound_search env members chain (use_receipts env (rev [1..<length chain]) ?b)" by (rule receipts_keep_sound)
  moreover obtain r b where run: "search env (use_receipts env (rev [1..<length chain]) ?b) = (r, b)" by (metis surj_pair)
  ultimately have "ended_well env members chain r b" by (rule search_ends_well)
  moreover have "bisect env parent members chain red = (r, Some b)"
    using assms(2,4) chain run by (simp add: bisect_def bisection_new_def Let_def)
  ultimately show ?thesis by blast
qed


text \<open>
  C28. When one member is to blame, so that exactly the prefixes that hold it are red, the search that names a member
  names that one and certifies everything before it.
\<close>

theorem bisection_finds_single_culprit:
  assumes "length chain = length members" and "2 \<le> length members" and "length members \<le> 2 ^ 64"
    and "red_tree red = snd (last chain)" and "1 \<le> m" and "m \<le> length members"
    and "\<forall>p. gate_failed env chain p \<longrightarrow> m \<le> p" and "\<forall>p. prefix_certified env members chain p \<longrightarrow> p < m"
    and "bisect env parent members chain red = (r, Some b)" and "bi_found b = Some (p, c)"
  shows "p = m \<and> c = m - 1"
proof -
  have "ended_well env members chain r b" using bisect_ends_well [OF assms(1-4), of env parent] assms(9) by auto
  then have "blamed env members chain p c (bi_left b)" using assms(10) by (simp add: ended_well_def)
  then have "p = c + 1" "m \<le> p" "c = 0 \<or> c < m" using assms(5-8) by (auto simp: blamed_def)
  then show ?thesis using assms(5) by auto
qed

section \<open>Four members, the third to blame\<close>

definition four_members :: "(string \<times> string) list" where
  "four_members = [(''SH-1'', ''h1''), (''SH-2'', ''h2''), (''SH-3'', ''h3''), (''SH-4'', ''h4'')]"

definition four_chain :: "(string \<times> string) list" where
  "four_chain = [(''c1'', ''t1''), (''c2'', ''t2''), (''c3'', ''t3''), (''c4'', ''t4'')]"

definition no_batch :: VerificationBatch where
  "no_batch =
     \<lparr>vb_id = ''abcdef012345'', vb_project = 1, vb_project_slug = [], vb_head = [], vb_base_branch = [], vb_base_commit = [],
      vb_branch = [], vb_tip = [], vb_pull_request = None, vb_phase = Gating, vb_members = [], vb_excluded = [],
      vb_withdrawn = [], vb_gate = None, vb_detail = None, vb_bisects = None, vb_bisection = None, vb_retired = False,
      vb_revision = 0, vb_created_at = [], vb_updated_at = []\<rparr>"

text \<open>Prefixes that hold the third member fail their gate; the receipt of the first prefix exists.\<close>

definition third_red :: BisectEnv where
  "third_red =
     \<lparr>be_cancelled = (\<lambda>_ _. False), be_receipt = (\<lambda>_ p. Inr (p = 1)),
      be_attempt = (\<lambda>_ p _. Inr (Inr (if 3 \<le> p
        then OutcomeTestsFailed (snd (four_chain ! (p - 1))) ''log'' ''red'' ''make test''
        else OutcomeCertified (fst (four_chain ! (p - 1))) (snd (four_chain ! (p - 1))) ''green'' ''make test'', 1, no_batch))),
      be_noted = (\<lambda>_ _. None), be_written = (\<lambda>_. None)\<rparr>"

definition tip_red :: Red where
  "tip_red = \<lparr>red_tree = ''t4'', red_log = ''log'', red_gate = ''make test'', red_detail = ''red''\<rparr>"

lemma four_shape:
  "length four_chain = length four_members" "2 \<le> length four_members" "length four_members \<le> 2 ^ 64" "red_tree tip_red = snd (last four_chain)"
  by (simp_all add: four_chain_def four_members_def tip_red_def)

lemma four_run:
  "case bisect third_red ''abcdef012345'' four_members four_chain tip_red of
     (r, Some b) \<Rightarrow> bi_found b = Some (3, 2) \<and> bi_runs b = 2 | (r, None) \<Rightarrow> False"
  by code_simp

lemma four_found:
  obtains r b where "bisect third_red ''abcdef012345'' four_members four_chain tip_red = (r, Some b)" and "bi_found b = Some (3, 2)"
  using four_run by (auto split: prod.splits option.splits)


theorem bisection_finds_single_culprit_witness:
  "\<exists>r b. bisect third_red ''abcdef012345'' four_members four_chain tip_red = (r, Some b) \<and> bi_found b = Some (3, 3 - 1)"
proof -
  obtain r b where run: "bisect third_red ''abcdef012345'' four_members four_chain tip_red = (r, Some b)" "bi_found b = Some (3, 2)"
    by (rule four_found)
  have "\<forall>p. gate_failed third_red four_chain p \<longrightarrow> 3 \<le> p"
    by (auto simp: gate_failed_def third_red_def split: if_splits)
  moreover have "\<forall>p. prefix_certified third_red four_members four_chain p \<longrightarrow> p < 3"
    by (auto simp: prefix_certified_def third_red_def split: if_splits)
  ultimately have "(3 :: nat) = 3 \<and> (2 :: nat) = 3 - 1"
    using bisection_finds_single_culprit [OF four_shape, of 3, OF _ _ _ _ run] by (simp add: four_members_def)
  then show ?thesis using run by auto
qed

end
