(* ===== verification/Conflict_Union.thy ===== *)
theory Conflict_Union
  imports Story_Text
begin

text \<open>
  Smoothing a conflict between two changes (\<^verbatim>\<open>src/src/domain/conflict_smoothing.rs\<close>): which paths may be
  smoothed, which texts, and the union of the insertion-only hunks of a conflicted file.  A file is its bytes.
  The debug rendering of a string is a parameter.  The theorems: the union is computed for exactly the files
  made of plain lines and insertion-only hunks, and keeps every line that is not a marker.
\<close>

section \<open>UTF-8\<close>

text \<open>
  \<^verbatim>\<open>std::str::from_utf8\<close> accepts the byte sequences of the Unicode standard's table 3-7, and
  \<^verbatim>\<open>String::from_utf8_lossy\<close> replaces every maximal part of an ill-formed one by U+FFFD.  A step takes the next
  scalar or such a part; \<open>after_lead\<close> reads the bytes after a lead byte, each in its range.
\<close>

definition byte_in :: "nat \<Rightarrow> nat \<Rightarrow> char \<Rightarrow> bool" where
  "byte_in low high c \<longleftrightarrow> low \<le> of_char c \<and> of_char c \<le> high"

fun after_lead :: "(nat \<times> nat) list \<Rightarrow> string \<Rightarrow> nat \<times> bool" where
  "after_lead [] s = (1, True)"
| "after_lead (r # rs) [] = (1, False)"
| "after_lead ((low, high) # rs) (c # s) =
     (if byte_in low high c then (let (n, ok) = after_lead rs s in (Suc n, ok)) else (1, False))"

definition utf8_trailing :: "char \<Rightarrow> (nat \<times> nat) list option" where
  "utf8_trailing a =
     (if byte_in 0 127 a then Some []
      else if byte_in 194 223 a then Some [(128, 191)]
      else if byte_in 224 224 a then Some [(160, 191), (128, 191)]
      else if byte_in 237 237 a then Some [(128, 159), (128, 191)]
      else if byte_in 225 239 a then Some [(128, 191), (128, 191)]
      else if byte_in 240 240 a then Some [(144, 191), (128, 191), (128, 191)]
      else if byte_in 241 243 a then Some [(128, 191), (128, 191), (128, 191)]
      else if byte_in 244 244 a then Some [(128, 143), (128, 191), (128, 191)]
      else None)"

definition utf8_step :: "char \<Rightarrow> string \<Rightarrow> nat \<times> bool" where
  "utf8_step a s = (case utf8_trailing a of None \<Rightarrow> (1, False) | Some rs \<Rightarrow> after_lead rs s)"

function utf8_parts :: "string \<Rightarrow> (string \<times> bool) list" where
  "utf8_parts [] = []"
| "utf8_parts (a # s) =
     (let (n, ok) = utf8_step a s in (take n (a # s), ok) # utf8_parts (drop (n - 1) s))"
  by pat_completeness auto
termination utf8_parts
  by (relation "measure length") auto

definition utf8_valid :: "string \<Rightarrow> bool" where
  "utf8_valid s \<longleftrightarrow> list_all snd (utf8_parts s)"

definition from_utf8_lossy :: "string \<Rightarrow> string" where
  "from_utf8_lossy s = concat (map (\<lambda>(part, ok). if ok then part else [CHR 0xEF, CHR 0xBF, CHR 0xBD]) (utf8_parts s))"

lemma after_lead_less: "after_lead rs s = (n, ok) \<Longrightarrow> 1 \<le> n \<and> n \<le> Suc (length s)"
  by (induction rs s arbitrary: n ok rule: after_lead.induct) (auto split: if_splits prod.splits)

lemma utf8_step_less: "utf8_step a s = (n, ok) \<Longrightarrow> 1 \<le> n \<and> n \<le> Suc (length s)"
  by (auto simp: utf8_step_def dest: after_lead_less split: option.splits)

lemma concat_utf8_parts: "concat (map fst (utf8_parts s)) = s"
proof (induction s rule: utf8_parts.induct)
  case (2 a s)
  obtain n ok where st: "utf8_step a s = (n, ok)" by fastforce
  moreover have "take n (a # s) @ drop (n - 1) s = a # s" using utf8_step_less [OF st] by (cases n) auto
  ultimately show ?case using 2 by simp
qed simp

lemma lossy_valid: "utf8_valid s \<Longrightarrow> from_utf8_lossy s = s"
proof -
  assume "utf8_valid s"
  then have "from_utf8_lossy s = concat (map fst (utf8_parts s))" unfolding from_utf8_lossy_def utf8_valid_def
    by (intro arg_cong [of _ _ concat] map_cong) (auto simp: list_all_iff)
  then show ?thesis by (simp add: concat_utf8_parts)
qed

lemma utf8_ascii: "list_all (byte_in 0 127) s \<Longrightarrow> utf8_valid s"
  unfolding utf8_valid_def
  by (induction s rule: utf8_parts.induct) (auto simp: utf8_step_def utf8_trailing_def)

section \<open>The allowlist\<close>

definition STRATEGY :: string where
  "STRATEGY = ''union-insertions/1''"

definition MAX_BLOB_BYTES :: nat where
  "MAX_BLOB_BYTES = 2 ^ 20"

definition MAX_SMOOTHED_PATHS :: nat where
  "MAX_SMOOTHED_PATHS = 20"

definition DENIED_NAMES :: "string list" where
  "DENIED_NAMES =
     [''claude.md'', ''agents.md'', ''gemini.md'', ''skill.md'', ''.storyhook.toml'', ''.gitattributes'',
      ''.gitmodules'', ''.envrc'']"

definition DENIED_DIRS :: "string list" where
  "DENIED_DIRS = [''.claude'', ''.codex'', ''.cursor'', ''.github'', ''.githooks'', ''.husky'', ''.cargo'']"

datatype PathRule = Exact string | Under string

record SmoothPolicy =
  sp_rules :: "PathRule list"

text \<open>\<^verbatim>\<open>char\<close>'s debug rendering, for the characters \<open>parse_rule\<close> refuses.\<close>

definition debug_special :: "char \<Rightarrow> string" where
  "debug_special c = (if c = CHR 92 then [CHR 39, CHR 92, CHR 92, CHR 39] else [CHR 39, c, CHR 39])"

definition parse_rule :: "string \<Rightarrow> string + PathRule" where
  "parse_rule entry =
     (if entry = [] then Inl ''is empty''
      else if \<not> list_all (byte_in 33 126) entry then Inl ''is not printable ASCII without spaces''
      else (case find (\<lambda>c. c \<in> {CHR 92, CHR ''*'', CHR ''?'', CHR ''['', CHR '']''}) entry of
          Some special \<Rightarrow>
            Inl (''holds '' @ debug_special special @ ''; entries are exact paths or directories, never globs'')
        | None \<Rightarrow>
            if starts_with ''/'' entry then Inl (''starts with '' @ [CHR 34] @ ''/'' @ [CHR 34])
            else
              let (body, directory) = (case strip_suffix ''/'' entry of Some body \<Rightarrow> (body, True) | None \<Rightarrow> (entry, False))
              in if list_ex (\<lambda>component. component \<in> {[], ''.'', ''..''}) (split_on (CHR ''/'') body)
                 then Inl (''has an empty, '' @ [CHR 34] @ ''.'' @ [CHR 34] @ '' or '' @ [CHR 34] @ ''..'' @ [CHR 34]
                           @ '' component'')
                 else Inr (if directory then Under entry else Exact entry)))"

fun parse_policy_rules :: "(string \<Rightarrow> string) \<Rightarrow> string list \<Rightarrow> string + PathRule list" where
  "parse_policy_rules debug [] = Inr []"
| "parse_policy_rules debug (entry # entries) =
     (case parse_rule entry of
        Inl why \<Rightarrow>
          Inl (''[batch] smooth entry '' @ debug entry @ '' '' @ why @ ''; write a repository-relative path such as ''
               @ [CHR 34] @ ''.gitignore'' @ [CHR 34] @ '', or a directory ending in '' @ [CHR 34] @ ''/'' @ [CHR 34]
               @ '' such as '' @ [CHR 34] @ ''docs/spec/'' @ [CHR 34])
      | Inr rule \<Rightarrow> result_bind (parse_policy_rules debug entries) (\<lambda>rules. Inr (rule # rules)))"

definition parse_policy :: "(string \<Rightarrow> string) \<Rightarrow> string list \<Rightarrow> string + SmoothPolicy" where
  "parse_policy debug entries = result_bind (parse_policy_rules debug entries) (\<lambda>rules. Inr \<lparr>sp_rules = rules\<rparr>)"

definition policy_is_empty :: "SmoothPolicy \<Rightarrow> bool" where
  "policy_is_empty p \<longleftrightarrow> sp_rules p = []"

fun rule_admits :: "string \<Rightarrow> PathRule \<Rightarrow> bool" where
  "rule_admits path (Exact exact) \<longleftrightarrow> path = exact"
| "rule_admits path (Under directory) \<longleftrightarrow> length directory < length path \<and> starts_with directory path"

definition policy_admits :: "SmoothPolicy \<Rightarrow> string \<Rightarrow> bool" where
  "policy_admits p path \<longleftrightarrow> list_ex (rule_admits path) (sp_rules p)"

fun rule_entry :: "PathRule \<Rightarrow> string" where
  "rule_entry (Exact path) = path"
| "rule_entry (Under path) = path"

definition policy_entries :: "SmoothPolicy \<Rightarrow> string list" where
  "policy_entries p = map rule_entry (sp_rules p)"

section \<open>The deny floor and the text guards\<close>

definition backtick :: char where
  "backtick = CHR 96"

definition path_refusal :: "(string \<Rightarrow> string) \<Rightarrow> string \<Rightarrow> string option" where
  "path_refusal debug path =
     (if path = [] then Some ''the path is empty''
      else if \<not> list_all (byte_in 32 126) path
      then Some (debug path @ '' is not printable ASCII, so its name cannot be checked against the deny floor'')
      else if backtick \<in> set path then Some (debug path @ '' holds a backtick'')
      else
        let folded = to_ascii_lowercase path;
            components = split_on (CHR ''/'') folded
        in (case find (\<lambda>denied. denied = last components) DENIED_NAMES of
              Some denied \<Rightarrow> Some (path @ '' is on the deny floor ('' @ denied @ '')'')
            | None \<Rightarrow>
                (case find_map (\<lambda>component. find (\<lambda>denied. denied = component) DENIED_DIRS) components of
                   Some denied \<Rightarrow> Some (path @ '' is on the deny floor ('' @ denied @ ''/)'')
                 | None \<Rightarrow> None)))"

datatype Marker = MBegin | MBase | MSeparator | MEnd

fun debug_marker :: "Marker \<Rightarrow> string" where
  "debug_marker MBegin = ''Begin''"
| "debug_marker MBase = ''Base''"
| "debug_marker MSeparator = ''Separator''"
| "debug_marker MEnd = ''End''"

definition without_end :: "string \<Rightarrow> string \<Rightarrow> string" where
  "without_end suffix line = (case strip_suffix suffix line of Some s \<Rightarrow> s | None \<Rightarrow> line)"

definition marker_kind :: "char \<Rightarrow> Marker option" where
  "marker_kind c =
     (if c = CHR ''<'' then Some MBegin else if c = CHR ''|'' then Some MBase
      else if c = CHR ''='' then Some MSeparator else if c = CHR ''>'' then Some MEnd else None)"

definition marker :: "string \<Rightarrow> Marker option" where
  "marker line =
     (case without_end [CHR 13] line of
        [] \<Rightarrow> None
      | c # cs \<Rightarrow>
          (case marker_kind c of
             None \<Rightarrow> None
           | Some kind \<Rightarrow>
               let run = length (takeWhile (\<lambda>b. b = c) (c # cs)); rest = drop run (c # cs)
               in if run = 7 \<and> (rest = [] \<or> starts_with '' '' rest) then Some kind else None))"

definition check_text :: "(string \<Rightarrow> string) \<Rightarrow> string \<Rightarrow> string \<Rightarrow> string + string" where
  "check_text debug what bytes =
     (if MAX_BLOB_BYTES < length bytes
      then Inl (what @ '' is '' @ nat_str (length bytes) @ '' bytes, over the '' @ nat_str MAX_BLOB_BYTES @ ''-byte limit'')
      else if CHR 0x00 \<in> set bytes then Inl (what @ '' holds a NUL byte, so it is not text'')
      else if \<not> utf8_valid bytes then Inl (what @ '' is not UTF-8 text'')
      else (case find (\<lambda>line. marker line \<noteq> None) (lines bytes) of
          Some line \<Rightarrow>
            Inl (what @ '' already holds a line that reads as a conflict marker ('' @ debug line
                 @ ''), so its hunks could not be told apart'')
        | None \<Rightarrow> Inr bytes))"

lemma blob_limit_code:
  "MAX_BLOB_BYTES < n \<longleftrightarrow> 2 ^ 20 < int n" "3 * MAX_BLOB_BYTES < n \<longleftrightarrow> 3 * 2 ^ 20 < int n"
  by (simp_all add: MAX_BLOB_BYTES_def)

lemma check_text_code [code]:
  "check_text debug what bytes =
     (if 2 ^ 20 < int (length bytes)
      then Inl (what @ '' is '' @ nat_str (length bytes) @ '' bytes, over the '' @ nat_str MAX_BLOB_BYTES @ ''-byte limit'')
      else if CHR 0x00 \<in> set bytes then Inl (what @ '' holds a NUL byte, so it is not text'')
      else if \<not> utf8_valid bytes then Inl (what @ '' is not UTF-8 text'')
      else (case find (\<lambda>line. marker line \<noteq> None) (lines bytes) of
          Some line \<Rightarrow>
            Inl (what @ '' already holds a line that reads as a conflict marker ('' @ debug line
                 @ ''), so its hunks could not be told apart'')
        | None \<Rightarrow> Inr bytes))"
  unfolding check_text_def blob_limit_code ..

section \<open>The union of insertions\<close>

datatype HunkRefusal = Modifies | MalformedHunks string

definition hunk_refusal_text :: "HunkRefusal \<Rightarrow> string" where
  "hunk_refusal_text r =
     (case r of
        Modifies \<Rightarrow> ''a hunk changes lines both sides share''
      | MalformedHunks why \<Rightarrow> ''its conflict markers are not diff3 hunks: '' @ why)"

datatype Section = Outside | First | Base | Second

record Union =
  un_united :: string
  un_section :: Section
  un_hunks :: nat
  un_modifies :: bool

definition malformed :: "nat \<Rightarrow> string \<Rightarrow> HunkRefusal" where
  "malformed number why = MalformedHunks (''line '' @ nat_str number @ '': '' @ why)"

definition union_line :: "nat \<Rightarrow> string \<Rightarrow> Union \<Rightarrow> HunkRefusal + Union" where
  "union_line number line u =
     (case (un_section u, marker (without_end [CHR 10] line)) of
        (Outside, Some MBegin) \<Rightarrow> Inr (u\<lparr>un_section := First\<rparr>)
      | (First, Some MBase) \<Rightarrow> Inr (u\<lparr>un_section := Base\<rparr>)
      | (First, Some MSeparator) \<Rightarrow> Inl (malformed number ''a hunk has no ||||||| base section'')
      | (Base, Some MSeparator) \<Rightarrow> Inr (u\<lparr>un_section := Second\<rparr>)
      | (Second, Some MEnd) \<Rightarrow> Inr (u\<lparr>un_section := Outside, un_hunks := un_hunks u + 1\<rparr>)
      | (_, Some found) \<Rightarrow> Inl (malformed number (debug_marker found @ '' marker out of order''))
      | (Base, None) \<Rightarrow> Inr (u\<lparr>un_modifies := True\<rparr>)
      | (_, None) \<Rightarrow> Inr (u\<lparr>un_united := un_united u @ line\<rparr>))"

fun union_loop :: "nat \<Rightarrow> string list \<Rightarrow> Union \<Rightarrow> HunkRefusal + Union" where
  "union_loop index [] u = Inr u"
| "union_loop index (line # rest) u =
     result_bind (union_line (index + 1) line u) (\<lambda>v. union_loop (index + 1) rest v)"

definition union_insertions :: "string \<Rightarrow> HunkRefusal + string" where
  "union_insertions conflicted =
     result_bind (union_loop 0 (split_inclusive_nl conflicted)
                    \<lparr>un_united = [], un_section = Outside, un_hunks = 0, un_modifies = False\<rparr>)
       (\<lambda>u. if un_section u \<noteq> Outside
            then Inl (malformed (length (split_inclusive_nl conflicted)) ''the last hunk never ends'')
            else if un_hunks u = 0 then Inl (MalformedHunks ''the file holds no conflict hunk'')
            else if un_modifies u then Inl Modifies
            else Inr (un_united u))"

section \<open>What the union is\<close>

text \<open>
  A file with diff3 hunks: plain lines, and hunks of two sides around a base section, each opened and closed by
  its marker line.
\<close>

definition line_marker :: "string \<Rightarrow> Marker option" where
  "line_marker line = marker (without_end [CHR 10] line)"

datatype Block =
    Plain string
  | Hunk string "string list" string "string list" string "string list" string

primrec block_lines :: "Block \<Rightarrow> string list" where
  "block_lines (Plain l) = [l]"
| "block_lines (Hunk b f m o' s g e) = b # f @ m # o' @ s # g @ [e]"

primrec block_kept :: "Block \<Rightarrow> string list" where
  "block_kept (Plain l) = [l]"
| "block_kept (Hunk b f m o' s g e) = f @ g"

primrec block_ok :: "Block \<Rightarrow> bool" where
  "block_ok (Plain l) \<longleftrightarrow> line_marker l = None"
| "block_ok (Hunk b f m o' s g e) \<longleftrightarrow>
     line_marker b = Some MBegin \<and> line_marker m = Some MBase \<and> line_marker s = Some MSeparator
     \<and> line_marker e = Some MEnd \<and> list_all (\<lambda>l. line_marker l = None) (f @ o' @ g)"

primrec is_hunk :: "Block \<Rightarrow> bool" where
  "is_hunk (Plain l) \<longleftrightarrow> False"
| "is_hunk (Hunk b f m o' s g e) \<longleftrightarrow> True"

primrec inserts_only :: "Block \<Rightarrow> bool" where
  "inserts_only (Plain l) \<longleftrightarrow> True"
| "inserts_only (Hunk b f m o' s g e) \<longleftrightarrow> o' = []"

definition reads_as :: "string \<Rightarrow> Block list \<Rightarrow> bool" where
  "reads_as conflicted bs \<longleftrightarrow>
     split_inclusive_nl conflicted = concat (map block_lines bs) \<and> list_all block_ok bs \<and> list_ex is_hunk bs"

definition kept_text :: "Block list \<Rightarrow> string" where
  "kept_text bs = concat (concat (map block_kept bs))"

lemmas union_line_simps = union_line_def line_marker_def [symmetric]

lemma union_plain:
  "list_all (\<lambda>l. line_marker l = None) ls \<Longrightarrow> un_section u \<noteq> Base \<Longrightarrow>
   union_loop i (ls @ rest) u = union_loop (i + length ls) rest (u\<lparr>un_united := un_united u @ concat ls\<rparr>)"
  by (induction ls arbitrary: i u) (auto simp: union_line_simps split: Section.split)

lemma union_base:
  "list_all (\<lambda>l. line_marker l = None) ls \<Longrightarrow> un_section u = Base \<Longrightarrow>
   union_loop i (ls @ rest) u = union_loop (i + length ls) rest (u\<lparr>un_modifies := (un_modifies u \<or> ls \<noteq> [])\<rparr>)"
  by (induction ls arbitrary: i u) (auto simp: union_line_simps)

lemma union_block:
  assumes "block_ok b" and "un_section u = Outside"
  shows "union_loop i (block_lines b @ rest) u
    = union_loop (i + length (block_lines b)) rest
        (u\<lparr>un_united := un_united u @ concat (block_kept b), un_hunks := un_hunks u + (if is_hunk b then 1 else 0),
           un_modifies := (un_modifies u \<or> \<not> inserts_only b)\<rparr>)"
proof (cases b)
  case (Plain l)
  then show ?thesis using assms by (simp add: union_line_simps)
next
  case (Hunk x f m o' s g e)
  then show ?thesis using assms
    by (cases u) (simp add: union_line_simps union_plain union_base add.assoc)
qed

lemma union_blocks:
  "list_all block_ok bs \<Longrightarrow> un_section u = Outside \<Longrightarrow>
   \<exists>i'. union_loop i (concat (map block_lines bs) @ rest) u
     = union_loop i' rest
         (u\<lparr>un_united := un_united u @ kept_text bs, un_hunks := un_hunks u + length (filter is_hunk bs),
            un_modifies := (un_modifies u \<or> \<not> list_all inserts_only bs)\<rparr>)"
proof (induction bs arbitrary: i u)
  case Nil
  then show ?case by (auto simp: kept_text_def)
next
  case (Cons b bs)
  let ?u = "u\<lparr>un_united := un_united u @ concat (block_kept b), un_hunks := un_hunks u + (if is_hunk b then 1 else 0),
           un_modifies := (un_modifies u \<or> \<not> inserts_only b)\<rparr>"
  have "union_loop i (concat (map block_lines (b # bs)) @ rest) u
      = union_loop (i + length (block_lines b)) (concat (map block_lines bs) @ rest) ?u"
    using union_block [of b u] Cons.prems by simp
  moreover obtain i' where "union_loop (i + length (block_lines b)) (concat (map block_lines bs) @ rest) ?u
      = union_loop i' rest (?u\<lparr>un_united := un_united ?u @ kept_text bs, un_hunks := un_hunks ?u + length (filter is_hunk bs),
            un_modifies := (un_modifies ?u \<or> \<not> list_all inserts_only bs)\<rparr>)"
    using Cons.IH [of ?u] Cons.prems by auto
  ultimately show ?case by (intro exI [of _ i']) (simp add: kept_text_def disj_assoc)
qed

text \<open>What is left of a file when the parser is in a section.\<close>

abbreviation unmarked :: "string list \<Rightarrow> bool" where
  "unmarked \<equiv> list_all (\<lambda>l. line_marker l = None)"

definition second_tail :: "string list \<Rightarrow> bool" where
  "second_tail ls \<longleftrightarrow>
     (\<exists>g e bs. ls = g @ e # concat (map block_lines bs) \<and> unmarked g \<and> line_marker e = Some MEnd \<and> list_all block_ok bs)"

definition base_tail :: "string list \<Rightarrow> bool" where
  "base_tail ls \<longleftrightarrow> (\<exists>o' s r. ls = o' @ s # r \<and> unmarked o' \<and> line_marker s = Some MSeparator \<and> second_tail r)"

definition first_tail :: "string list \<Rightarrow> bool" where
  "first_tail ls \<longleftrightarrow> (\<exists>f m r. ls = f @ m # r \<and> unmarked f \<and> line_marker m = Some MBase \<and> base_tail r)"

definition section_tail :: "Section \<Rightarrow> string list \<Rightarrow> bool" where
  "section_tail c ls =
     (case c of
        Outside \<Rightarrow> \<exists>bs. list_all block_ok bs \<and> ls = concat (map block_lines bs)
      | First \<Rightarrow> first_tail ls | Base \<Rightarrow> base_tail ls | Second \<Rightarrow> second_tail ls)"

lemma unmarked_tail:
  assumes "line_marker l = None" and "section_tail c ls"
  shows "section_tail c (l # ls)"
proof (cases c)
  case Outside
  then obtain bs where "list_all block_ok bs" "ls = concat (map block_lines bs)" using assms(2) by (auto simp: section_tail_def)
  then show ?thesis using Outside assms(1) by (auto simp: section_tail_def intro: exI [of _ "Plain l # bs"])
next
  case First
  then obtain f m r where "ls = f @ m # r" "unmarked f" "line_marker m = Some MBase" "base_tail r"
    using assms(2) by (auto simp: section_tail_def first_tail_def)
  then have "first_tail (l # ls)" unfolding first_tail_def using assms(1) by (intro exI [of _ "l # f"]) auto
  then show ?thesis using First by (simp add: section_tail_def)
next
  case Base
  then obtain f m r where "ls = f @ m # r" "unmarked f" "line_marker m = Some MSeparator" "second_tail r"
    using assms(2) by (auto simp: section_tail_def base_tail_def)
  then have "base_tail (l # ls)" unfolding base_tail_def using assms(1) by (intro exI [of _ "l # f"]) auto
  then show ?thesis using Base by (simp add: section_tail_def)
next
  case Second
  then obtain g e bs where "ls = g @ e # concat (map block_lines bs)" "unmarked g" "line_marker e = Some MEnd" "list_all block_ok bs"
    using assms(2) by (auto simp: section_tail_def second_tail_def)
  then have "second_tail (l # ls)" unfolding second_tail_def using assms(1) by (intro exI [of _ "l # g"]) auto
  then show ?thesis using Second by (simp add: section_tail_def)
qed

lemma hunk_tail:
  assumes "line_marker b = Some MBegin" and "first_tail ls"
  shows "section_tail Outside (b # ls)"
proof -
  obtain f m o' s g e bs where ls: "ls = f @ m # o' @ s # g @ e # concat (map block_lines bs)" and marks: "line_marker m = Some MBase"
    "line_marker s = Some MSeparator" "line_marker e = Some MEnd" and plain: "unmarked f" "unmarked o'" "unmarked g"
    and ok: "list_all block_ok bs"
    using assms(2) unfolding first_tail_def base_tail_def second_tail_def by blast
  have "b # ls = concat (map block_lines (Hunk b f m o' s g e # bs))" by (simp add: ls)
  moreover have "list_all block_ok (Hunk b f m o' s g e # bs)" using assms(1) marks plain ok by simp
  ultimately have "\<exists>bs. list_all block_ok bs \<and> b # ls = concat (map block_lines bs)" by blast
  then show ?thesis by (simp add: section_tail_def)
qed

lemma closing_tail:
  assumes "line_marker e = Some MEnd" and "section_tail Outside ls"
  shows "section_tail Second (e # ls)"
proof -
  obtain bs where "list_all block_ok bs" "ls = concat (map block_lines bs)" using assms(2) by (auto simp: section_tail_def)
  then have "second_tail (e # ls)" unfolding second_tail_def using assms(1) by (intro exI [of _ "[]"] exI [of _ e] exI [of _ bs]) simp
  then show ?thesis by (simp add: section_tail_def)
qed

lemma marked_tail:
  "line_marker s = Some MSeparator \<Longrightarrow> section_tail Second ls \<Longrightarrow> section_tail Base (s # ls)"
  "line_marker m = Some MBase \<Longrightarrow> section_tail Base ls \<Longrightarrow> section_tail First (m # ls)"
  "line_marker b = Some MBegin \<Longrightarrow> section_tail First ls \<Longrightarrow> section_tail Outside (b # ls)"
  unfolding section_tail_def Section.case base_tail_def first_tail_def
    apply (metis append_Nil list.pred_inject(1))
   apply (metis append_Nil list.pred_inject(1))
  using hunk_tail unfolding first_tail_def base_tail_def section_tail_def Section.case by blast

lemma union_line_ok:
  "union_line n l u = Inr v \<Longrightarrow>
     line_marker l = None \<and> un_section v = un_section u
   \<or> (un_section u, line_marker l, un_section v)
       \<in> {(Outside, Some MBegin, First), (First, Some MBase, Base), (Base, Some MSeparator, Second), (Second, Some MEnd, Outside)}"
  by (auto simp: union_line_simps split: Section.splits option.splits Marker.splits)

lemma union_loop_reads:
  "union_loop i ls u = Inr v \<Longrightarrow> un_section v = Outside \<Longrightarrow> section_tail (un_section u) ls"
proof (induction i ls u rule: union_loop.induct)
  case (1 index u)
  then show ?case by (auto simp: section_tail_def intro: exI [of _ "[]"])
next
  case (2 index line rest u)
  then obtain w where w: "union_line (index + 1) line u = Inr w" and "union_loop (index + 1) rest w = Inr v"
    by (auto simp: result_bind_eq_Inr)
  then have "section_tail (un_section w) rest" using 2 by blast
  then show ?case using union_line_ok [OF w] marked_tail closing_tail unmarked_tail by auto
qed

lemma union_reads_as:
  assumes "reads_as conflicted bs"
  shows "union_insertions conflicted = (if list_all inserts_only bs then Inr (kept_text bs) else Inl Modifies)"
proof -
  let ?u = "\<lparr>un_united = [], un_section = Outside, un_hunks = 0, un_modifies = False\<rparr>"
  have ok: "list_all block_ok bs" and some: "filter is_hunk bs \<noteq> []"
    and ls: "split_inclusive_nl conflicted = concat (map block_lines bs)"
    using assms by (auto simp: reads_as_def filter_empty_conv list_ex_iff)
  from union_blocks [OF ok, of ?u 0 "[]"] show ?thesis
    by (auto simp: union_insertions_def ls some)
qed

lemma union_line_malformed: "union_line n l u \<noteq> Inl Modifies"
  by (simp add: union_line_simps malformed_def split: Section.split option.split Marker.split)

lemma union_loop_malformed: "union_loop i ls u \<noteq> Inl Modifies"
  by (induction i ls u rule: union_loop.induct) (auto simp: result_bind_eq_Inl union_line_malformed)

lemma union_only_reads:
  assumes "union_insertions conflicted = Inr united \<or> union_insertions conflicted = Inl Modifies"
  shows "\<exists>bs. reads_as conflicted bs"
proof -
  let ?u = "\<lparr>un_united = [], un_section = Outside, un_hunks = 0, un_modifies = False\<rparr>"
  obtain v where v: "union_loop 0 (split_inclusive_nl conflicted) ?u = Inr v" "un_section v = Outside" "un_hunks v \<noteq> 0"
    using assms
    by (cases "union_loop 0 (split_inclusive_nl conflicted) ?u")
      (auto simp: union_insertions_def malformed_def union_loop_malformed split: if_splits)
  have "section_tail Outside (split_inclusive_nl conflicted)" using union_loop_reads [OF v(1,2)] by simp
  then obtain bs where bs: "list_all block_ok bs" "split_inclusive_nl conflicted = concat (map block_lines bs)"
    by (auto simp: section_tail_def)
  have "un_hunks v = length (filter is_hunk bs)"
    using union_blocks [OF bs(1), of ?u 0 "[]"] v(1) by (auto simp: bs(2))
  then have "filter is_hunk bs \<noteq> []" using v(3) by auto
  then show ?thesis using bs by (auto simp: reads_as_def filter_empty_conv list_ex_iff)
qed

text \<open>
  C29. The union of a file is computed exactly when the file is made of plain lines and of hunks with an empty base
  section, at least one, and it is what both sides of every hunk hold, the first side first; a file of hunks one of
  which has base lines is refused as a modification, and any other file as malformed.
\<close>

lemma union_insertions_exact:
  "(\<forall>u. union_insertions conflicted = Inr u \<longleftrightarrow>
      (\<exists>bs. reads_as conflicted bs \<and> list_all inserts_only bs \<and> u = kept_text bs))
   \<and> (union_insertions conflicted = Inl Modifies \<longleftrightarrow> (\<exists>bs. reads_as conflicted bs \<and> \<not> list_all inserts_only bs))"
proof (cases "\<exists>bs. reads_as conflicted bs")
  case True
  then obtain bs where bs: "reads_as conflicted bs" by blast
  have "list_all inserts_only cs = list_all inserts_only bs \<and> (list_all inserts_only bs \<longrightarrow> kept_text cs = kept_text bs)"
    if "reads_as conflicted cs" for cs
    using union_reads_as [OF bs] union_reads_as [OF that] by (auto split: if_splits)
  then have exact: "(\<exists>cs. reads_as conflicted cs \<and> list_all inserts_only cs \<and> u = kept_text cs) \<longleftrightarrow> list_all inserts_only bs \<and> u = kept_text bs"
      "(\<exists>cs. reads_as conflicted cs \<and> \<not> list_all inserts_only cs) \<longleftrightarrow> \<not> list_all inserts_only bs" for u
    using bs by blast+
  show ?thesis unfolding exact using union_reads_as [OF bs] by auto
next
  case False
  then show ?thesis using union_only_reads [of conflicted] by blast
qed

section \<open>The lines the union keeps\<close>

definition whole_line :: "string \<Rightarrow> bool" where
  "whole_line l \<longleftrightarrow> (\<exists>w. l = w @ [CHR 10] \<and> CHR 10 \<notin> set w)"

definition file_lines :: "string list \<Rightarrow> bool" where
  "file_lines ls \<longleftrightarrow>
     (\<exists>xs ys. ls = xs @ ys \<and> list_all whole_line xs \<and> (ys = [] \<or> (\<exists>y. ys = [y] \<and> y \<noteq> [] \<and> CHR 10 \<notin> set y)))"

lemma split_whole_line: "CHR 10 \<notin> set w \<Longrightarrow> split_inclusive_nl (w @ CHR 10 # s) = (w @ [CHR 10]) # split_inclusive_nl s"
  by (induction w) auto

lemma split_last_line: "y \<noteq> [] \<Longrightarrow> CHR 10 \<notin> set y \<Longrightarrow> split_inclusive_nl y = [y]"
proof (induction y)
  case (Cons c y)
  then show ?case by (cases "y = []") auto
qed simp

lemma split_file_lines: "file_lines ls \<Longrightarrow> split_inclusive_nl (concat ls) = ls"
proof -
  assume "file_lines ls"
  then obtain xs ys where ls: "ls = xs @ ys" "list_all whole_line xs" "ys = [] \<or> (\<exists>y. ys = [y] \<and> y \<noteq> [] \<and> CHR 10 \<notin> set y)"
    by (auto simp: file_lines_def)
  have "split_inclusive_nl (concat xs @ concat ys) = xs @ ys" using ls(2)
  proof (induction xs)
    case Nil
    show ?case using ls(3) by (auto simp: split_last_line)
  next
    case (Cons x xs)
    then show ?case by (auto simp: whole_line_def split_whole_line)
  qed
  then show ?thesis using ls(1) by simp
qed

lemma file_lines_Cons: "whole_line l \<Longrightarrow> file_lines ls \<Longrightarrow> file_lines (l # ls)"
  unfolding file_lines_def by (metis append_Cons list.pred_inject(2))

lemma file_lines_split: "file_lines (split_inclusive_nl s)"
proof (induction s)
  case Nil
  show ?case by (simp add: file_lines_def)
next
  case (Cons c s)
  consider "c = CHR 10" | "c \<noteq> CHR 10" "split_inclusive_nl s = []"
    | w ws where "c \<noteq> CHR 10" "split_inclusive_nl s = w # ws"
    by (cases "split_inclusive_nl s") auto
  then show ?case
  proof cases
    case 1
    then show ?thesis using Cons.IH by (simp add: file_lines_Cons whole_line_def)
  next
    case 2
    then show ?thesis unfolding file_lines_def by (intro exI [of _ "[]"] exI [of _ "[[c]]"]) simp
  next
    case 3
    obtain xs ys where ls: "w # ws = xs @ ys" "list_all whole_line xs" "ys = [] \<or> (\<exists>y. ys = [y] \<and> y \<noteq> [] \<and> CHR 10 \<notin> set y)"
      using Cons.IH 3(2) by (auto simp: file_lines_def)
    show ?thesis
    proof (cases xs)
      case Nil
      then have "file_lines [c # w]" using ls 3(1) unfolding file_lines_def by (intro exI [of _ "[]"] exI [of _ "[c # w]"]) auto
      then show ?thesis using Nil ls 3 by auto
    next
      case (Cons x xs')
      then obtain v where "w = v @ [CHR 10]" "CHR 10 \<notin> set v" using ls by (auto simp: whole_line_def)
      then have "whole_line (c # w)" using 3(1) unfolding whole_line_def by (intro exI [of _ "c # v"]) simp
      moreover have "file_lines ws" unfolding file_lines_def using Cons ls by auto
      ultimately show ?thesis using 3 by (simp add: file_lines_Cons)
    qed
  qed
qed

lemma file_lines_filter: "file_lines ls \<Longrightarrow> file_lines (filter P ls)"
proof -
  assume "file_lines ls"
  then obtain xs ys where ls: "ls = xs @ ys" "list_all whole_line xs" "ys = [] \<or> (\<exists>y. ys = [y] \<and> y \<noteq> [] \<and> CHR 10 \<notin> set y)"
    by (auto simp: file_lines_def)
  show ?thesis unfolding file_lines_def
    by (rule exI [of _ "filter P xs"], rule exI [of _ "filter P ys"]) (use ls in \<open>auto simp: list_all_iff\<close>)
qed

lemma block_kept_unmarked:
  "block_ok b \<Longrightarrow> inserts_only b \<Longrightarrow> block_kept b = filter (\<lambda>l. line_marker l = None) (block_lines b)"
  by (cases b) (auto simp: list_all_iff)

lemma union_keeps_lines:
  assumes "union_insertions conflicted = Inr united"
  shows "split_inclusive_nl united = filter (\<lambda>l. line_marker l = None) (split_inclusive_nl conflicted)"
proof -
  obtain bs where bs: "reads_as conflicted bs" using union_only_reads assms by blast
  then have io: "list_all inserts_only bs" "united = kept_text bs"
    using union_reads_as [OF bs] assms by (auto split: if_splits)
  have "concat (map block_kept bs) = filter (\<lambda>l. line_marker l = None) (concat (map block_lines bs))"
    using bs io(1) unfolding reads_as_def filter_concat map_map
    by (auto simp: list_all_iff block_kept_unmarked intro!: arg_cong [of _ _ concat])
  then have "united = concat (filter (\<lambda>l. line_marker l = None) (split_inclusive_nl conflicted))"
    using bs by (simp add: io(2) kept_text_def reads_as_def)
  then show ?thesis using split_file_lines file_lines_filter file_lines_split by metis
qed

section \<open>What the allowlist admits\<close>

lemma parse_rule_entry: "parse_rule e = Inr r \<Longrightarrow> r = (if ends_with ''/'' e then Under e else Exact e)"
  by (auto simp: parse_rule_def Let_def ends_with_def split: if_splits option.splits)

lemma parse_policy_rules_entries:
  "parse_policy_rules debug es = Inr rs \<Longrightarrow> rs = map (\<lambda>e. if ends_with ''/'' e then Under e else Exact e) es"
  by (induction es arbitrary: rs) (auto simp: result_bind_eq_Inr dest: parse_rule_entry split: sum.splits)

lemma policy_scope:
  assumes "parse_policy debug entries = Inr p"
  shows "policy_entries p = entries"
    and "policy_admits p path \<longleftrightarrow>
      (\<exists>e \<in> set entries. if ends_with ''/'' e then \<exists>r. r \<noteq> [] \<and> path = e @ r else path = e)"
proof -
  have p: "sp_rules p = map (\<lambda>e. if ends_with ''/'' e then Under e else Exact e) entries"
    using assms by (auto simp: parse_policy_def result_bind_eq_Inr dest: parse_policy_rules_entries)
  show "policy_entries p = entries" by (simp add: policy_entries_def p o_def map_idI if_distrib cong: if_cong)
  show "policy_admits p path \<longleftrightarrow>
      (\<exists>e \<in> set entries. if ends_with ''/'' e then \<exists>r. r \<noteq> [] \<and> path = e @ r else path = e)"
    unfolding policy_admits_def p list_ex_iff set_map bex_simps
    by (rule bex_cong) (auto simp: starts_with_iff)
qed

end
