(* ===== verification/Trial_Merge.thy ===== *)
theory Trial_Merge
  imports Conflict_Union Story_Ids
begin

text \<open>
  What a trial merge answers (\<^verbatim>\<open>src/src/service/trial_merge.rs\<close>): the shape of a conflict, the parser of the
  output of \<^verbatim>\<open>git merge-tree -z\<close>, and the readers of the answers of Git's plumbing.  Running Git is not modelled:
  what a command printed is the record \<open>Captured\<close>.  The debug rendering of a string is a parameter.  The theorem:
  the parser reads back every conflict Git can describe.
\<close>

section \<open>Object ids and answers\<close>

record Captured =
  cap_code :: "int option"
  cap_stdout :: string
  cap_stderr :: string

definition captured_success :: "Captured \<Rightarrow> bool" where
  "captured_success c \<longleftrightarrow> cap_code c = Some 0"

definition is_pinned_oid :: "string \<Rightarrow> bool" where
  "is_pinned_oid oid \<longleftrightarrow> length oid \<in> {40, 64} \<and> list_all (\<lambda>b. is_ascii_digit b \<or> CHR ''a'' \<le> b \<and> b \<le> CHR ''f'') oid"

lemma is_pinned_oid_code [code]:
  "is_pinned_oid oid \<longleftrightarrow>
     (int (length oid) = 40 \<or> int (length oid) = 64) \<and> list_all (\<lambda>b. is_ascii_digit b \<or> CHR ''a'' \<le> b \<and> b \<le> CHR ''f'') oid"
  by (auto simp: is_pinned_oid_def)

definition require_pinned :: "(string \<Rightarrow> string) \<Rightarrow> string \<Rightarrow> string \<Rightarrow> unit result" where
  "require_pinned debug oid label =
     (if is_pinned_oid oid then Inr ()
      else Inl (Validation (label @ '' requires a full object id, not '' @ debug oid)))"

definition stderr_text :: "Captured \<Rightarrow> string" where
  "stderr_text c = trim (from_utf8_lossy (cap_stderr c))"

definition answer_oid :: "(string \<Rightarrow> string) \<Rightarrow> string \<Rightarrow> string \<Rightarrow> string \<Rightarrow> string result" where
  "answer_oid debug bytes label what =
     (let oid = trim (from_utf8_lossy bytes)
      in if is_pinned_oid oid then Inr oid
         else Inl (Storage (label @ '' Git gave no object id for '' @ what @ '': '' @ debug oid)))"

definition entry_spec :: "(string \<Rightarrow> string) \<Rightarrow> string \<Rightarrow> string \<Rightarrow> string result" where
  "entry_spec debug treeish path =
     (if path = [] \<or> starts_with ''/'' path \<or> starts_with ''-'' path \<or> CHR 0x00 \<in> set path
      then Inl (Validation (''a path in a tree must be relative, not '' @ debug path))
      else Inr (treeish @ '':'' @ path))"

definition entry_answer :: "(string \<Rightarrow> string) \<Rightarrow> Captured \<Rightarrow> string \<Rightarrow> string \<Rightarrow> string option result" where
  "entry_answer debug c label spec =
     (case cap_code c of
        Some code \<Rightarrow>
          if code = 0 then result_bind (answer_oid debug (cap_stdout c) label spec) (\<lambda>oid. Inr (Some oid))
          else if code = 1 then Inr None
          else Inl (Storage (label @ '' could not read '' @ spec @ '': '' @ stderr_text c))
      | None \<Rightarrow> Inl (Storage (label @ '' could not read '' @ spec @ '': '' @ stderr_text c)))"

definition blob_answer :: "Captured \<Rightarrow> string \<Rightarrow> string \<Rightarrow> string result" where
  "blob_answer c label oid =
     (if captured_success c then Inr (cap_stdout c)
      else Inl (Storage (label @ '' could not read the blob '' @ oid @ '': '' @ stderr_text c)))"

section \<open>The shape of a conflict\<close>

record StageEntry =
  se_mode :: string
  se_oid :: string
  se_stage :: nat
  se_path :: string

record ConflictRecord =
  cr_kind :: string
  cr_paths :: "string list"

record ConflictShape =
  cs_tree :: string
  cs_stages :: "StageEntry list"
  cs_records :: "ConflictRecord list"

datatype TrialMerge = TrialClean string | TrialConflict "string list" ConflictShape

definition shape_paths :: "ConflictShape \<Rightarrow> string list" where
  "shape_paths shape =
     fold (\<lambda>entry paths. if se_path entry \<in> set paths then paths else paths @ [se_path entry]) (cs_stages shape) []"

definition field_text :: "(string \<Rightarrow> string) \<Rightarrow> string \<Rightarrow> string + string" where
  "field_text debug field =
     (if utf8_valid field then Inr field
      else Inl (''a field is not UTF-8: '' @ debug (from_utf8_lossy field)))"

definition stage_entry :: "(string \<Rightarrow> string) \<Rightarrow> string \<Rightarrow> string + StageEntry" where
  "stage_entry debug entry =
     (case split_once (CHR 9) entry of
        None \<Rightarrow> Inl (''an entry has no path: '' @ debug entry)
      | Some (info, path) \<Rightarrow>
          (case split_on (CHR '' '') info of
             [mode, oid, stage] \<Rightarrow>
               (case parse_u64 stage of
                  None \<Rightarrow> Inl (''an entry has no stage 1, 2 or 3: '' @ debug entry)
                | Some n \<Rightarrow>
                    if \<not> (1 \<le> n \<and> n \<le> 3) then Inl (''an entry has no stage 1, 2 or 3: '' @ debug entry)
                    else if \<not> is_pinned_oid oid \<or> path = [] then Inl (''an entry is malformed: '' @ debug entry)
                    else Inr \<lparr>se_mode = mode, se_oid = oid, se_stage = n, se_path = path\<rparr>)
           | _ \<Rightarrow> Inl (''an entry is not `<mode> <oid> <stage>`: '' @ debug entry)))"

fun stage_entries :: "(string \<Rightarrow> string) \<Rightarrow> string list \<Rightarrow> string + StageEntry list \<times> string list" where
  "stage_entries debug [] = Inl ''the conflicted entries do not end''"
| "stage_entries debug (field # parts) =
     (if field = [] then Inr ([], parts)
      else result_bind (field_text debug field) (\<lambda>entry.
           result_bind (stage_entry debug entry) (\<lambda>e.
           result_bind (stage_entries debug parts) (\<lambda>(es, rest). Inr (e # es, rest)))))"

fun take_paths :: "(string \<Rightarrow> string) \<Rightarrow> nat \<Rightarrow> string list \<Rightarrow> string + string list \<times> string list" where
  "take_paths debug 0 parts = Inr ([], parts)"
| "take_paths debug (Suc n) [] = Inl ''a record ends inside its paths''"
| "take_paths debug (Suc n) (field # parts) =
     result_bind (field_text debug field) (\<lambda>path.
       result_bind (take_paths debug n parts) (\<lambda>(paths, rest). Inr (path # paths, rest)))"

lemma take_paths_length: "take_paths debug n parts = Inr (paths, rest) \<Longrightarrow> length rest \<le> length parts"
  by (induction debug n parts arbitrary: paths rule: take_paths.induct) (fastforce simp: result_bind_eq_Inr)+

function record_entries :: "(string \<Rightarrow> string) \<Rightarrow> string list \<Rightarrow> string + ConflictRecord list" where
  "record_entries debug [] = Inr []"
| "record_entries debug (count # parts) =
     (case field_text debug count of
        Inl why \<Rightarrow> Inl why
      | Inr digits \<Rightarrow>
          (case parse_u64 digits of
             None \<Rightarrow> Inl ''a record does not start with its path count''
           | Some n \<Rightarrow>
               (case take_paths debug n parts of
                  Inl why \<Rightarrow> Inl why
                | Inr (paths, []) \<Rightarrow> Inl ''a record has no conflict type''
                | Inr (paths, field # rest) \<Rightarrow>
                    (case field_text debug field of
                       Inl why \<Rightarrow> Inl why
                     | Inr kind \<Rightarrow>
                         (case rest of
                            [] \<Rightarrow> Inl ''a record has no message''
                          | message # others \<Rightarrow>
                              result_bind (record_entries debug others)
                                (\<lambda>records. Inr (\<lparr>cr_kind = kind, cr_paths = paths\<rparr> # records)))))))"
  by pat_completeness auto
termination record_entries
  by (relation "measure (\<lambda>(debug, parts). length parts)") (auto dest!: take_paths_length)

definition parse_conflict :: "(string \<Rightarrow> string) \<Rightarrow> string \<Rightarrow> string + ConflictShape" where
  "parse_conflict debug stdout =
     (case strip_suffix [CHR 0x00] stdout of
        None \<Rightarrow> Inl ''the output does not end with NUL''
      | Some body \<Rightarrow>
          let parts = split_on (CHR 0x00) body in
          result_bind (field_text debug (hd parts)) (\<lambda>tree.
            if \<not> is_pinned_oid tree then Inl (''no tree object id: '' @ debug tree)
            else
              result_bind (stage_entries debug (tl parts)) (\<lambda>(stages, rest).
                if stages = [] then Inl ''a conflict with no conflicted entry''
                else
                  result_bind (record_entries debug rest) (\<lambda>records.
                    Inr \<lparr>cs_tree = tree, cs_stages = stages, cs_records = records\<rparr>))))"

definition merge_answer :: "(string \<Rightarrow> string) \<Rightarrow> Captured \<Rightarrow> string \<Rightarrow> string \<Rightarrow> string \<Rightarrow> TrialMerge result" where
  "merge_answer debug c label onto head =
     (let failed = Inl (Storage (label @ '' of '' @ head @ '' onto '' @ onto @ '' failed: '' @ stderr_text c)) in
      case cap_code c of
        None \<Rightarrow> failed
      | Some code \<Rightarrow>
          if code = 0 then
            result_bind (answer_oid debug (hd (split_on (CHR 0x00) (cap_stdout c))) label ''the merged tree'')
              (\<lambda>tree. Inr (TrialClean tree))
          else if code = 1 then
            (case parse_conflict debug (cap_stdout c) of
               Inl why \<Rightarrow>
                 Inl (Storage (label @ '' of '' @ head @ '' onto '' @ onto
                       @ '' reported a conflict Git's output does not describe: '' @ why))
             | Inr shape \<Rightarrow> Inr (TrialConflict (shape_paths shape) shape))
          else failed)"

section \<open>What a conflict holds\<close>

lemma pinned_no_space: "is_pinned_oid oid \<Longrightarrow> c \<in> set oid \<Longrightarrow> is_ascii_alphanumeric c"
  by (auto simp: is_pinned_oid_def list_all_iff ascii_class_defs)

lemma not_alphanumeric: "\<not> is_ascii_alphanumeric (CHR 0x00)" "\<not> is_ascii_alphanumeric (CHR 9)" "\<not> is_ascii_alphanumeric (CHR '' '')"
  by code_simp+

lemma pinned_lacks: "is_pinned_oid oid \<Longrightarrow> \<not> is_ascii_alphanumeric c \<Longrightarrow> c \<notin> set oid"
  using pinned_no_space by blast

lemma number_lacks: "\<not> is_ascii_alphanumeric c \<Longrightarrow> c \<notin> set (nat_str n)"
  using nat_str_digits [of n] by (auto simp: list_all_iff is_ascii_alphanumeric_def)

lemma pinned_utf8: "is_pinned_oid oid \<Longrightarrow> utf8_valid oid"
  by (rule utf8_ascii) (force simp: is_pinned_oid_def list_all_iff byte_in_def ascii_class_defs)

lemma answer_oid_pinned: "answer_oid debug bytes label what = Inr oid \<Longrightarrow> is_pinned_oid oid"
  by (auto simp: answer_oid_def Let_def split: if_splits)

definition stage_ok :: "StageEntry \<Rightarrow> bool" where
  "stage_ok e \<longleftrightarrow> is_pinned_oid (se_oid e) \<and> se_path e \<noteq> [] \<and> 1 \<le> se_stage e \<and> se_stage e \<le> 3"

lemma stage_entry_ok: "stage_entry debug entry = Inr e \<Longrightarrow> stage_ok e"
  by (auto simp: stage_entry_def stage_ok_def split: option.splits prod.splits list.splits if_splits)

lemma stage_entries_ok: "stage_entries debug parts = Inr (es, rest) \<Longrightarrow> list_all stage_ok es"
  by (induction debug parts arbitrary: es rule: stage_entries.induct)
    (auto simp: result_bind_eq_Inr dest: stage_entry_ok split: if_splits)

definition shape_ok :: "ConflictShape \<Rightarrow> bool" where
  "shape_ok shape \<longleftrightarrow> is_pinned_oid (cs_tree shape) \<and> cs_stages shape \<noteq> [] \<and> list_all stage_ok (cs_stages shape)"

lemma parse_conflict_ok: "parse_conflict debug stdout = Inr shape \<Longrightarrow> shape_ok shape"
  by (auto simp: parse_conflict_def shape_ok_def Let_def result_bind_eq_Inr stage_entries_ok split: option.splits if_splits)

lemma shape_paths_fold:
  "distinct paths \<Longrightarrow>
   (let ps = fold (\<lambda>entry paths. if se_path entry \<in> set paths then paths else paths @ [se_path entry]) es paths
    in distinct ps \<and> set ps = set paths \<union> se_path ` set es)"
  by (induction es arbitrary: paths) (auto simp: Let_def)

lemma shape_paths_set: "distinct (shape_paths shape)" "set (shape_paths shape) = se_path ` set (cs_stages shape)"
  using shape_paths_fold [of "[]" "cs_stages shape"] by (simp_all add: shape_paths_def Let_def)

section \<open>Reading back a conflict\<close>

text \<open>What Git prints for a conflict: every field ends with NUL.\<close>

definition stage_line :: "StageEntry \<Rightarrow> string" where
  "stage_line e = se_mode e @ '' '' @ se_oid e @ '' '' @ nat_str (se_stage e) @ [CHR 9] @ se_path e"

definition record_fields :: "ConflictRecord \<times> string \<Rightarrow> string list" where
  "record_fields rm = (case rm of (r, message) \<Rightarrow> nat_str (length (cr_paths r)) # cr_paths r @ [cr_kind r, message])"

definition conflict_output :: "string \<Rightarrow> StageEntry list \<Rightarrow> (ConflictRecord \<times> string) list \<Rightarrow> string" where
  "conflict_output tree stages records =
     concat (map (\<lambda>field. field @ [CHR 0x00])
       (tree # map stage_line stages @ [] # concat (map record_fields records)))"

definition plain_field :: "string \<Rightarrow> bool" where
  "plain_field s \<longleftrightarrow> CHR 0x00 \<notin> set s \<and> utf8_valid s"

text \<open>What Git can print: fields without NUL, in UTF-8; modes without blanks, stages 1 to 3.\<close>

definition printable_stage :: "StageEntry \<Rightarrow> bool" where
  "printable_stage e \<longleftrightarrow>
     plain_field (stage_line e) \<and> se_mode e \<noteq> [] \<and> CHR '' '' \<notin> set (se_mode e) \<and> CHR 9 \<notin> set (se_mode e)
     \<and> stage_ok e"

definition printable_record :: "ConflictRecord \<times> string \<Rightarrow> bool" where
  "printable_record rm \<longleftrightarrow>
     (case rm of (r, message) \<Rightarrow>
        list_all plain_field (cr_paths r) \<and> plain_field (cr_kind r) \<and> CHR 0x00 \<notin> set message \<and> length (cr_paths r) < 2 ^ 64)"

lemma split_nul_parts:
  "ps \<noteq> [] \<Longrightarrow> list_all (\<lambda>p. CHR 0x00 \<notin> set p) ps \<Longrightarrow>
   \<exists>body. concat (map (\<lambda>p. p @ [CHR 0x00]) ps) = body @ [CHR 0x00] \<and> split_on (CHR 0x00) body = ps"
proof (induction ps)
  case (Cons p ps)
  show ?case
  proof (cases "ps = []")
    case True
    then show ?thesis using Cons.prems by (simp add: split_on_trivial)
  next
    case False
    then obtain body where "concat (map (\<lambda>p. p @ [CHR 0x00]) ps) = body @ [CHR 0x00]" "split_on (CHR 0x00) body = ps"
      using Cons by auto
    then show ?thesis using Cons.prems by (intro exI [of _ "p @ CHR 0x00 # body"]) (simp add: split_on_first)
  qed
qed simp

lemma stage_entry_line:
  assumes "printable_stage e"
  shows "stage_entry debug (stage_line e) = Inr e"
proof -
  let ?n = "nat_str (se_stage e)" and ?info = "se_mode e @ CHR '' '' # se_oid e @ CHR '' '' # nat_str (se_stage e)"
  have mode: "CHR '' '' \<notin> set (se_mode e)" "CHR 9 \<notin> set (se_mode e)" and ok: "stage_ok e" and oid: "is_pinned_oid (se_oid e)"
    using assms by (auto simp: printable_stage_def stage_ok_def)
  have plain: "CHR '' '' \<notin> set (se_oid e)" "CHR 9 \<notin> set (se_oid e)" "CHR '' '' \<notin> set ?n" "CHR 9 \<notin> set ?n"
    using oid by (simp_all add: pinned_lacks number_lacks not_alphanumeric)
  have "split_once (CHR 9) (stage_line e) = Some (?info, se_path e)"
    by (simp add: split_once_Some stage_line_def mode plain)
  moreover have "split_on (CHR '' '') ?info = [se_mode e, se_oid e, ?n]"
    by (simp add: split_on_first mode plain split_on_trivial)
  moreover have "parse_u64 ?n = Some (se_stage e)" using ok by (simp add: parse_u64_nat_str stage_ok_def)
  ultimately show ?thesis using ok by (simp add: stage_entry_def stage_ok_def)
qed

lemma stage_entries_lines:
  "list_all printable_stage es \<Longrightarrow> stage_entries debug (map stage_line es @ [] # rest) = Inr (es, rest)"
proof (induction es)
  case (Cons e es)
  moreover have "stage_line e \<noteq> []" by (simp add: stage_line_def)
  moreover have "field_text debug (stage_line e) = Inr (stage_line e)"
    using Cons.prems by (simp add: field_text_def printable_stage_def plain_field_def)
  ultimately show ?case by (simp add: stage_entry_line)
qed simp

lemma take_paths_all: "list_all plain_field ps \<Longrightarrow> take_paths debug (length ps) (ps @ rest) = Inr (ps, rest)"
  by (induction ps) (auto simp: field_text_def plain_field_def)

lemma utf8_number: "utf8_valid (nat_str n)"
  using nat_str_digits [of n] by (intro utf8_ascii) (auto simp: list_all_iff byte_in_def ascii_class_defs)

lemma record_entries_fields:
  "list_all printable_record rs \<Longrightarrow> record_entries debug (concat (map record_fields rs)) = Inr (map fst rs)"
proof (induction rs)
  case (Cons rm rs)
  obtain r message where rm: "rm = (r, message)" by fastforce
  have "take_paths debug (length (cr_paths r)) (cr_paths r @ cr_kind r # message # concat (map record_fields rs))
      = Inr (cr_paths r, cr_kind r # message # concat (map record_fields rs))"
    using Cons.prems by (intro take_paths_all) (simp add: rm printable_record_def)
  moreover have "concat (map record_fields (rm # rs))
      = nat_str (length (cr_paths r)) # cr_paths r @ cr_kind r # message # concat (map record_fields rs)"
    by (simp add: rm record_fields_def)
  moreover have "record_entries debug (concat (map record_fields rs)) = Inr (map fst rs)" using Cons by simp
  moreover have "utf8_valid (cr_kind r)" "length (cr_paths r) < 2 ^ 64"
    using Cons.prems by (simp_all add: rm printable_record_def plain_field_def)
  ultimately show ?case by (simp add: rm field_text_def utf8_number parse_u64_nat_str)
qed simp

lemma printed_no_nul:
  assumes "is_pinned_oid tree" and "list_all printable_stage stages" and "list_all printable_record records"
  shows "list_all (\<lambda>p. CHR 0x00 \<notin> set p) (tree # map stage_line stages @ [] # concat (map record_fields records))"
proof -
  have "CHR 0x00 \<notin> set tree" using assms(1) by (simp add: pinned_lacks not_alphanumeric)
  moreover have "CHR 0x00 \<notin> set (nat_str n)" for n by (simp add: number_lacks not_alphanumeric)
  ultimately show ?thesis using assms(2,3)
    by (auto simp: list_all_iff printable_stage_def printable_record_def record_fields_def plain_field_def split: prod.splits)
qed

lemma conflict_output_parsed:
  assumes "is_pinned_oid tree" and "stages \<noteq> []" and "list_all printable_stage stages"
    and "list_all printable_record records"
  shows "parse_conflict debug (conflict_output tree stages records)
    = Inr \<lparr>cs_tree = tree, cs_stages = stages, cs_records = map fst records\<rparr>"
proof -
  let ?parts = "tree # map stage_line stages @ [] # concat (map record_fields records)"
  obtain body where body: "conflict_output tree stages records = body @ [CHR 0x00]" "split_on (CHR 0x00) body = ?parts"
    using split_nul_parts [of ?parts] printed_no_nul [OF assms(1,3,4)] by (auto simp: conflict_output_def)
  have "strip_suffix [CHR 0x00] (body @ [CHR 0x00]) = Some body" by (simp add: strip_suffix_Some)
  then show ?thesis using assms(1,2) pinned_utf8 [OF assms(1)] stage_entries_lines [OF assms(3)] record_entries_fields [OF assms(4)]
    by (simp add: parse_conflict_def body field_text_def)
qed

text \<open>
  C32. Every conflict Git can describe is read back as it was printed: its tree, its index entries and its records in
  order, whatever the messages of the records say.
\<close>

lemma conflict_output_roundtrip:
  assumes "is_pinned_oid tree" and "stages \<noteq> []" and "list_all printable_stage stages"
    and "list_all printable_record records"
  shows "parse_conflict debug (conflict_output tree stages records)
    = Inr \<lparr>cs_tree = tree, cs_stages = stages, cs_records = map fst records\<rparr>"
  using assms by (rule conflict_output_parsed)

definition sample_stage :: StageEntry where
  "sample_stage = \<lparr>se_mode = ''100644'', se_oid = ''1111111111111111111111111111111111111111'', se_stage = 2, se_path = ''docs/a b.md''\<rparr>"

definition sample_record :: ConflictRecord where
  "sample_record = \<lparr>cr_kind = ''Auto-merging'', cr_paths = [''docs/a b.md'']\<rparr>"

lemma sample_stage_number: "nat_str 2 = ''2''"
  by code_simp

lemma sample_conflict_printable:
  "is_pinned_oid ''abababababababababababababababababababab''" "printable_stage sample_stage" "printable_record (sample_record, ''Auto-merging docs'')"
  by (simp_all add: is_pinned_oid_def printable_stage_def printable_record_def plain_field_def sample_stage_def sample_record_def
      stage_ok_def stage_line_def sample_stage_number utf8_ascii byte_in_def ascii_class_defs)

lemma conflict_output_roundtrip_witness:
  "parse_conflict id (conflict_output ''abababababababababababababababababababab'' [sample_stage] [(sample_record, ''Auto-merging docs'')])
    = Inr \<lparr>cs_tree = ''abababababababababababababababababababab'', cs_stages = [sample_stage], cs_records = [sample_record]\<rparr>"
  using conflict_output_roundtrip [of "''abababababababababababababababababababab''" "[sample_stage]" "[(sample_record, ''Auto-merging docs'')]" id]
    sample_conflict_printable by simp

end
