(* ===== verification/Batch_Smoothing.thy ===== *)
theory Batch_Smoothing
  imports Trial_Merge
begin

text \<open>
  Which conflicted merges the verifier may unite (\<^verbatim>\<open>src/src/service/batch_smoothing.rs\<close>).  Reading a blob runs
  Git and may change the state of the world, so a reader of blobs is a state transformer and every definition
  threads the state.  The parser of TOML is a parameter.  The theorem: what is called smoothable is exactly the
  union of insertion-only hunks of small text files, on paths off the deny floor, with all three sides present.
\<close>

section \<open>State passing\<close>

definition gbind :: "('g \<Rightarrow> ('e + 'a) \<times> 'g) \<Rightarrow> ('a \<Rightarrow> 'g \<Rightarrow> ('e + 'b) \<times> 'g) \<Rightarrow> 'g \<Rightarrow> ('e + 'b) \<times> 'g" where
  "gbind m f g = (case m g of (Inl e, g') \<Rightarrow> (Inl e, g') | (Inr x, g') \<Rightarrow> f x g')"

definition glift :: "('e + 'a) \<Rightarrow> 'g \<Rightarrow> ('e + 'a) \<times> 'g" where
  "glift r g = (r, g)"

definition gerror :: "('e \<Rightarrow> 'f) \<Rightarrow> ('g \<Rightarrow> ('e + 'a) \<times> 'g) \<Rightarrow> 'g \<Rightarrow> ('f + 'a) \<times> 'g" where
  "gerror h m g = (case m g of (Inl e, g') \<Rightarrow> (Inl (h e), g') | (Inr x, g') \<Rightarrow> (Inr x, g'))"

text \<open>A computation can answer a value if it does from some state of the world.\<close>

definition can_answer :: "('g \<Rightarrow> ('e + 'a) \<times> 'g) \<Rightarrow> 'a \<Rightarrow> bool" where
  "can_answer m x \<longleftrightarrow> (\<exists>g g'. m g = (Inr x, g'))"

lemma gbind_Inr: "gbind m f g = (Inr y, g') \<longleftrightarrow> (\<exists>x g1. m g = (Inr x, g1) \<and> f x g1 = (Inr y, g'))"
  by (auto simp: gbind_def split: prod.splits sum.splits)

lemma gbind_unit:
  fixes m :: "'g \<Rightarrow> ('e + unit) \<times> 'g"
  shows "gbind m f g = (Inr y, g') \<longleftrightarrow> (\<exists>g1. m g = (Inr (), g1) \<and> f () g1 = (Inr y, g'))"
  by (auto simp: gbind_Inr)

lemma glift_Inr: "glift r g = (Inr y, g') \<longleftrightarrow> r = Inr y \<and> g' = g"
  by (auto simp: glift_def)

lemma gerror_Inr: "gerror h m g = (Inr y, g') \<longleftrightarrow> m g = (Inr y, g')"
  by (auto simp: gerror_def split: prod.splits sum.splits)

lemmas g_ok = gbind_Inr glift_Inr gerror_Inr

section \<open>Classification\<close>

definition POINTER :: string where
  "POINTER = ''.storyhook.toml''"

definition ADMITTED_RECORDS :: "string list" where
  "ADMITTED_RECORDS = [''Auto-merging'', ''CONFLICT (contents)'']"

record SmoothedFile =
  sf_path :: string
  sf_base :: string
  sf_ours :: string
  sf_theirs :: string
  sf_resolved :: string

datatype Classification =
    UnionSmoothable "SmoothedFile list"
  | AgentCandidate string
  | NotSmoothable string

record 'g BlobSource =
  bs_blob :: "string \<Rightarrow> 'g \<Rightarrow> string result \<times> 'g"
  bs_file :: "string \<Rightarrow> string \<Rightarrow> 'g \<Rightarrow> string option result \<times> 'g"

definition find_stage :: "StageEntry list \<Rightarrow> nat \<Rightarrow> StageEntry option" where
  "find_stage entries n = find (\<lambda>e. se_stage e = n) entries"

fun check_sides ::
  "(string \<Rightarrow> string) \<Rightarrow> 'g BlobSource \<Rightarrow> string \<Rightarrow> (string \<times> StageEntry) list \<Rightarrow> 'g \<Rightarrow> (string + unit) \<times> 'g" where
  "check_sides debug blobs path [] = glift (Inr ())"
| "check_sides debug blobs path ((side, entry) # sides) =
     gbind (gerror (\<lambda>e. path @ '' ('' @ side @ '') could not be read: '' @ display_error e) (bs_blob blobs (se_oid entry)))
       (\<lambda>bytes. gbind (glift (check_text debug (path @ '' ('' @ side @ '')'') bytes))
       (\<lambda>_. check_sides debug blobs path sides))"

definition conflicted_text :: "'g BlobSource \<Rightarrow> string \<Rightarrow> string \<Rightarrow> 'g \<Rightarrow> (string + string) \<times> 'g" where
  "conflicted_text blobs tree path =
     gbind (gerror (\<lambda>e. path @ '' (conflicted) could not be read: '' @ display_error e) (bs_file blobs tree path))
       (\<lambda>found. glift
         (case found of
            None \<Rightarrow> Inl (''the conflicted tree has no '' @ path)
          | Some conflicted \<Rightarrow>
              if 3 * MAX_BLOB_BYTES < length conflicted \<or> CHR 0x00 \<in> set conflicted
              then Inl (path @ '' (conflicted) is too large or not text'')
              else if \<not> utf8_valid conflicted then Inl (path @ '' (conflicted) is not UTF-8 text'')
              else Inr conflicted))"

definition unite_sides ::
  "(string \<Rightarrow> string) \<Rightarrow> ConflictShape \<Rightarrow> string \<Rightarrow> 'g BlobSource \<Rightarrow> StageEntry \<Rightarrow> StageEntry \<Rightarrow> StageEntry \<Rightarrow> 'g
    \<Rightarrow> (string + (HunkRefusal + SmoothedFile)) \<times> 'g" where
  "unite_sides debug shape path blobs base ours theirs =
     gbind (check_sides debug blobs path [(''base'', base), (''ours'', ours), (''theirs'', theirs)])
       (\<lambda>_. gbind (conflicted_text blobs (cs_tree shape) path)
       (\<lambda>conflicted. glift (Inr
         (case union_insertions conflicted of
            Inl refusal \<Rightarrow> Inl refusal
          | Inr resolved \<Rightarrow>
              Inr \<lparr>sf_path = path, sf_base = se_oid base, sf_ours = se_oid ours,
                   sf_theirs = se_oid theirs, sf_resolved = resolved\<rparr>))))"

lemma conflicted_text_code [code]:
  "conflicted_text blobs tree path =
     gbind (gerror (\<lambda>e. path @ '' (conflicted) could not be read: '' @ display_error e) (bs_file blobs tree path))
       (\<lambda>found. glift
         (case found of
            None \<Rightarrow> Inl (''the conflicted tree has no '' @ path)
          | Some conflicted \<Rightarrow>
              if 3 * 2 ^ 20 < int (length conflicted) \<or> CHR 0x00 \<in> set conflicted
              then Inl (path @ '' (conflicted) is too large or not text'')
              else if \<not> utf8_valid conflicted then Inl (path @ '' (conflicted) is not UTF-8 text'')
              else Inr conflicted))"
  unfolding conflicted_text_def blob_limit_code ..

definition classify_path ::
  "(string \<Rightarrow> string) \<Rightarrow> ConflictShape \<Rightarrow> string \<Rightarrow> 'g BlobSource \<Rightarrow> 'g \<Rightarrow> (string + (HunkRefusal + SmoothedFile)) \<times> 'g" where
  "classify_path debug shape path blobs =
     (case path_refusal debug path of
        Some why \<Rightarrow> glift (Inl why)
      | None \<Rightarrow>
          let entries = filter (\<lambda>e. se_path e = path) (cs_stages shape) in
          (case (find_stage entries 1, find_stage entries 2, find_stage entries 3) of
             (Some base, Some ours, Some theirs) \<Rightarrow>
               if length entries \<noteq> 3
               then glift (Inl (path @ '' has '' @ nat_str (length entries) @ '' index entries, not 3''))
               else (case find (\<lambda>e. se_mode e \<noteq> ''100644'') entries of
                   Some e \<Rightarrow>
                     glift (Inl (path @ '' has mode '' @ se_mode e @ '' at stage '' @ nat_str (se_stage e)
                                 @ ''; only regular non-executable files are smoothed''))
                 | None \<Rightarrow>
                     unite_sides debug shape path blobs base ours theirs)
           | (None, Some _, Some _) \<Rightarrow> glift (Inl (path @ '' was added on both sides (add/add)''))
           | _ \<Rightarrow> glift (Inl (path @ '' is missing on one side of the merge''))))"

fun classify_paths ::
  "(string \<Rightarrow> string) \<Rightarrow> ConflictShape \<Rightarrow> 'g BlobSource \<Rightarrow> string list \<Rightarrow> SmoothedFile list \<Rightarrow> string option \<Rightarrow> 'g
    \<Rightarrow> Classification \<times> 'g" where
  "classify_paths debug shape blobs [] files modifies g =
     ((case modifies of Some why \<Rightarrow> AgentCandidate why | None \<Rightarrow> UnionSmoothable files), g)"
| "classify_paths debug shape blobs (path # paths) files modifies g =
     (case classify_path debug shape path blobs g of
        (Inr (Inr file), g') \<Rightarrow> classify_paths debug shape blobs paths (files @ [file]) modifies g'
      | (Inr (Inl Modifies), g') \<Rightarrow>
          classify_paths debug shape blobs paths files
            (case modifies of None \<Rightarrow> Some (''a hunk of '' @ path @ '' changes shared lines'') | Some why \<Rightarrow> Some why) g'
      | (Inr (Inl (MalformedHunks why)), g') \<Rightarrow> (NotSmoothable (path @ '': '' @ hunk_refusal_text (MalformedHunks why)), g')
      | (Inl why, g') \<Rightarrow> (NotSmoothable why, g'))"

definition classify_merge ::
  "(string \<Rightarrow> string) \<Rightarrow> ConflictShape \<Rightarrow> 'g BlobSource \<Rightarrow> 'g \<Rightarrow> Classification \<times> 'g" where
  "classify_merge debug shape blobs g =
     (case find (\<lambda>r. cr_kind r \<notin> set ADMITTED_RECORDS) (cs_records shape) of
        Some r \<Rightarrow> (NotSmoothable (join '', '' (cr_paths r) @ '' is '' @ cr_kind r @ '', not a content conflict''), g)
      | None \<Rightarrow>
          let paths = shape_paths shape in
          if paths = [] then (NotSmoothable ''the merge names no conflicted path'', g)
          else if MAX_SMOOTHED_PATHS < length paths
          then (NotSmoothable (nat_str (length paths) @ '' conflicted paths, over the limit of ''
                  @ nat_str MAX_SMOOTHED_PATHS), g)
          else classify_paths debug shape blobs paths [] None g)"

definition admits_all :: "SmoothPolicy \<Rightarrow> SmoothedFile list \<Rightarrow> bool" where
  "admits_all policy files \<longleftrightarrow> files \<noteq> [] \<and> list_all (\<lambda>f. policy_admits policy (sf_path f)) files"

section \<open>The allowlist in the base\<close>

text \<open>
  What TOML answers for the pointer: why it is no pointer, or its batch table if it has one: why that table is
  malformed, or its list of paths if it has one.
\<close>

type_synonym toml_pointer = "string + (string + string list option) option"

text \<open>\<open>Utf8Error\<close>'s rendering: how many bytes were valid, and how many bytes the first ill-formed part has.\<close>

definition utf8_error :: "string \<Rightarrow> string" where
  "utf8_error s =
     (let good = takeWhile snd (utf8_parts s); valid = length (concat (map fst good));
          bad = fst (utf8_parts s ! length good)
      in if length bad = length s - valid \<and> utf8_trailing (hd bad) \<noteq> None
         then ''incomplete utf-8 byte sequence from index '' @ nat_str valid
         else ''invalid utf-8 sequence of '' @ nat_str (length bad) @ '' bytes from index '' @ nat_str valid)"

definition policy_from_pointer ::
  "(string \<Rightarrow> toml_pointer) \<Rightarrow> (string \<Rightarrow> string) \<Rightarrow> string option \<Rightarrow> string + SmoothPolicy" where
  "policy_from_pointer toml debug raw =
     (case raw of
        None \<Rightarrow> Inr \<lparr>sp_rules = []\<rparr>
      | Some bytes \<Rightarrow>
          if \<not> utf8_valid bytes then Inl (''the committed .storyhook.toml is not UTF-8: '' @ utf8_error bytes)
          else (case toml bytes of
              Inl e \<Rightarrow> Inl (''the committed .storyhook.toml is not valid: '' @ e)
            | Inr None \<Rightarrow> Inr \<lparr>sp_rules = []\<rparr>
            | Inr (Some (Inl e)) \<Rightarrow>
                Inl (''the [batch] table in .storyhook.toml failed to parse: '' @ e @ ''. It takes one key, `smooth`, a list of paths such as [''
                     @ [CHR 34] @ ''docs/spec/'' @ [CHR 34] @ '', '' @ [CHR 34] @ ''.gitignore'' @ [CHR 34] @ ''].'')
            | Inr (Some (Inr smooth)) \<Rightarrow>
                parse_policy debug (case smooth of None \<Rightarrow> [] | Some paths \<Rightarrow> paths)))"

section \<open>What is smoothable\<close>

text \<open>
  A united file: its path is off the deny floor, the merge has exactly its three sides, all regular files whose
  text passed the checks, and its content keeps the unmarked lines of the conflicted file, which had insertions
  only.
\<close>

definition regular_text :: "(string \<Rightarrow> string) \<Rightarrow> 'g BlobSource \<Rightarrow> StageEntry \<Rightarrow> bool" where
  "regular_text debug blobs e \<longleftrightarrow>
     se_mode e = ''100644''
     \<and> (\<exists>bytes what. can_answer (bs_blob blobs (se_oid e)) bytes \<and> check_text debug what bytes = Inr bytes)"

definition united :: "(string \<Rightarrow> string) \<Rightarrow> ConflictShape \<Rightarrow> 'g BlobSource \<Rightarrow> SmoothedFile \<Rightarrow> bool" where
  "united debug shape blobs f \<longleftrightarrow>
     path_refusal debug (sf_path f) = None
     \<and> (\<exists>base ours theirs.
          set (filter (\<lambda>e. se_path e = sf_path f) (cs_stages shape)) = {base, ours, theirs}
          \<and> length (filter (\<lambda>e. se_path e = sf_path f) (cs_stages shape)) = 3
          \<and> [se_stage base, se_stage ours, se_stage theirs] = [1, 2, 3]
          \<and> [se_oid base, se_oid ours, se_oid theirs] = [sf_base f, sf_ours f, sf_theirs f]
          \<and> (\<forall>e \<in> {base, ours, theirs}. regular_text debug blobs e))
     \<and> (\<exists>conflicted. can_answer (bs_file blobs (cs_tree shape) (sf_path f)) (Some conflicted)
          \<and> union_insertions conflicted = Inr (sf_resolved f))"

lemma check_text_same: "check_text debug what bytes = Inr t \<Longrightarrow> t = bytes"
  by (auto simp: check_text_def split: if_splits option.splits)

lemma check_sides_ok:
  "check_sides debug blobs path sides g = (Inr (), g') \<Longrightarrow>
   \<forall>(side, e) \<in> set sides. \<exists>bytes what. can_answer (bs_blob blobs (se_oid e)) bytes \<and> check_text debug what bytes = Inr bytes"
proof (induction debug blobs path sides arbitrary: g rule: check_sides.induct)
  case (2 debug blobs path side entry sides)
  then obtain bytes t g1 where "bs_blob blobs (se_oid entry) g = (Inr bytes, g1)"
      "check_text debug (path @ '' ('' @ side @ '')'') bytes = Inr t" "check_sides debug blobs path sides g1 = (Inr (), g')"
    by (auto simp: g_ok)
  then show ?case using 2 check_text_same by (fastforce simp: can_answer_def)
qed simp

lemma conflicted_text_ok:
  "conflicted_text blobs tree path g = (Inr conflicted, g') \<Longrightarrow> can_answer (bs_file blobs tree path) (Some conflicted)"
  by (auto simp: conflicted_text_def g_ok can_answer_def split: option.splits if_splits)

lemma find_stage_three:
  assumes "find_stage es 1 = Some b" and "find_stage es 2 = Some c" and "find_stage es 3 = Some d" and "length es = 3"
  shows "set es = {b, c, d} \<and> se_stage b = 1 \<and> se_stage c = 2 \<and> se_stage d = 3"
proof -
  have st: "se_stage b = 1" "se_stage c = 2" "se_stage d = 3" and mem: "{b, c, d} \<subseteq> set es"
    using assms(1-3) by (auto simp: find_stage_def dest!: find_Some_mem)
  have "b \<noteq> c" "b \<noteq> d" "c \<noteq> d" using st by auto
  then have "card {b, c, d} = 3" by simp
  moreover have "card (set es) \<le> 3" using card_length [of es] assms(4) by simp
  ultimately have "set es = {b, c, d}" using card_subset_eq [OF finite_set mem] card_mono [OF finite_set mem] by auto
  then show ?thesis using st by simp
qed

lemma classify_path_united:
  assumes "classify_path debug shape path blobs g = (Inr (Inr f), g')"
  shows "sf_path f = path \<and> united debug shape blobs f"
proof -
  let ?es = "filter (\<lambda>e. se_path e = path) (cs_stages shape)"
  obtain base ours theirs where st: "find_stage ?es 1 = Some base" "find_stage ?es 2 = Some ours" "find_stage ?es 3 = Some theirs"
    and len: "length ?es = 3" and modes: "find (\<lambda>e. se_mode e \<noteq> ''100644'') ?es = None" and ref: "path_refusal debug path = None"
    and go: "unite_sides debug shape path blobs base ours theirs g = (Inr (Inr f), g')"
    using assms unfolding classify_path_def Let_def glift_def by (auto split: option.splits if_splits)
  from go obtain g1 g2 conflicted where sides: "check_sides debug blobs path [(''base'', base), (''ours'', ours), (''theirs'', theirs)] g = (Inr (), g1)"
    and rd: "conflicted_text blobs (cs_tree shape) path g1 = (Inr conflicted, g2)"
    and out: "(case union_insertions conflicted of Inl refusal \<Rightarrow> Inl refusal
            | Inr resolved \<Rightarrow> Inr \<lparr>sf_path = path, sf_base = se_oid base, sf_ours = se_oid ours,
                                   sf_theirs = se_oid theirs, sf_resolved = resolved\<rparr>) = Inr f"
    unfolding unite_sides_def gbind_unit gbind_Inr glift_Inr sum.inject by blast
  then obtain resolved where un: "union_insertions conflicted = Inr resolved"
    and f: "f = \<lparr>sf_path = path, sf_base = se_oid base, sf_ours = se_oid ours, sf_theirs = se_oid theirs, sf_resolved = resolved\<rparr>"
    by (auto split: sum.splits)
  note three = find_stage_three [OF st len]
  then have "\<forall>e \<in> {base, ours, theirs}. se_mode e = ''100644''" using modes by (auto simp: find_None_iff)
  then have regular: "\<forall>e \<in> {base, ours, theirs}. regular_text debug blobs e"
    using check_sides_ok [OF sides] by (simp add: regular_text_def)
  have path: "sf_path f = path" by (simp add: f)
  have "set ?es = {base, ours, theirs} \<and> length ?es = 3
      \<and> [se_stage base, se_stage ours, se_stage theirs] = [1, 2, 3]
      \<and> [se_oid base, se_oid ours, se_oid theirs] = [sf_base f, sf_ours f, sf_theirs f]"
    using three len by (simp add: f)
  moreover have "union_insertions conflicted = Inr (sf_resolved f)" using un by (simp add: f)
  ultimately show ?thesis unfolding united_def path using ref regular conflicted_text_ok [OF rd] by blast
qed

lemma classify_paths_modified: "modifies \<noteq> None \<Longrightarrow> fst (classify_paths debug shape blobs paths files modifies g) \<noteq> UnionSmoothable fs"
  by (induction debug shape blobs paths files modifies g rule: classify_paths.induct)
    (auto split: prod.split sum.split HunkRefusal.split option.split)

lemma classify_paths_united:
  "classify_paths debug shape blobs paths files modifies g = (UnionSmoothable fs, g') \<Longrightarrow>
   \<exists>gs. fs = files @ gs \<and> map sf_path gs = paths \<and> list_all (united debug shape blobs) gs"
proof (induction debug shape blobs paths files modifies g rule: classify_paths.induct)
  case (2 debug shape blobs path paths files modifies g)
  show ?case
  proof (cases "classify_path debug shape path blobs g")
    case (Pair r g1)
    then consider f where "r = Inr (Inr f)" | "r = Inr (Inl Modifies)" | why where "r = Inr (Inl (MalformedHunks why))" | why where "r = Inl why"
      by (metis HunkRefusal.exhaust sum.exhaust)
    then show ?thesis
    proof cases
      case 1
      then obtain gs where "fs = (files @ [f]) @ gs" "map sf_path gs = paths" "list_all (united debug shape blobs) gs"
        using 2 Pair by fastforce
      then show ?thesis using classify_path_united [of debug shape path blobs g f g1] Pair 1
        by (intro exI [of _ "f # gs"]) simp
    next
      case 2
      then have "classify_paths debug shape blobs paths files
          (case modifies of None \<Rightarrow> Some (''a hunk of '' @ path @ '' changes shared lines'') | Some why \<Rightarrow> Some why) g1 = (UnionSmoothable fs, g')"
        using "2.prems" Pair by simp
      then show ?thesis using classify_paths_modified by (metis fst_conv option.case_eq_if option.distinct(1))
    qed (use "2.prems" Pair in auto)
  qed
qed (auto split: option.splits)

lemma classify_merge_united:
  assumes "classify_merge debug shape blobs g = (UnionSmoothable files, g')"
  shows "map sf_path files = shape_paths shape" and "files \<noteq> []" and "length files \<le> MAX_SMOOTHED_PATHS"
    and "list_all (united debug shape blobs) files"
    and "list_all (\<lambda>r. cr_kind r \<in> set ADMITTED_RECORDS) (cs_records shape)"
proof -
  have r: "find (\<lambda>r. cr_kind r \<notin> set ADMITTED_RECORDS) (cs_records shape) = None"
    and n: "shape_paths shape \<noteq> []" "length (shape_paths shape) \<le> MAX_SMOOTHED_PATHS"
    and c: "classify_paths debug shape blobs (shape_paths shape) [] None g = (UnionSmoothable files, g')"
    using assms by (auto simp: classify_merge_def Let_def split: option.splits if_splits)
  obtain gs where gs: "files = [] @ gs" "map sf_path gs = shape_paths shape" "list_all (united debug shape blobs) gs"
    using classify_paths_united [OF c] by blast
  then show "map sf_path files = shape_paths shape" "list_all (united debug shape blobs) files" by simp_all
  moreover from this show "files \<noteq> []" "length files \<le> MAX_SMOOTHED_PATHS" using n by (auto, metis length_map)
  show "list_all (\<lambda>r. cr_kind r \<in> set ADMITTED_RECORDS) (cs_records shape)"
    using r by (auto simp: find_None_iff list_all_iff)
qed

lemma path_refusal_nonempty: "path_refusal debug path = None \<Longrightarrow> path \<noteq> []"
  by (auto simp: path_refusal_def)

lemma united_oids:
  assumes "united debug shape blobs f" and "shape_ok shape"
  shows "is_pinned_oid (sf_base f)" and "is_pinned_oid (sf_ours f)" and "is_pinned_oid (sf_theirs f)" and "sf_path f \<noteq> []"
proof -
  obtain base ours theirs where st: "set (filter (\<lambda>e. se_path e = sf_path f) (cs_stages shape)) = {base, ours, theirs}"
    and oids: "[se_oid base, se_oid ours, se_oid theirs] = [sf_base f, sf_ours f, sf_theirs f]"
    using assms(1) unfolding united_def by blast
  then have "{base, ours, theirs} \<subseteq> set (cs_stages shape)" by auto
  then have "stage_ok base" "stage_ok ours" "stage_ok theirs" using assms(2) by (auto simp: shape_ok_def list_all_iff)
  then show "is_pinned_oid (sf_base f)" "is_pinned_oid (sf_ours f)" "is_pinned_oid (sf_theirs f)"
    using oids by (auto simp: stage_ok_def)
  show "sf_path f \<noteq> []" using assms(1) path_refusal_nonempty by (auto simp: united_def)
qed

end
