(* ===== verification/Batch_Assembly.thy ===== *)
theory Batch_Assembly
  imports Batch_Smoothing Verification_Batch
begin

text \<open>
  Assembling the branch of a batch (\<^verbatim>\<open>src/src/service/batch_assembly.rs\<close> and its module \<^verbatim>\<open>smoothed\<close>): the members
  merged onto the base in order, and the last one with its conflict united.  Running Git, writing a file and
  parsing TOML are parameters that may change the world and answer anything.  The theorems: every merge of an
  assembly is recorded once and in order, and a resolution that is answered is one the record of the batch accepts.
\<close>

section \<open>Merging a member\<close>

record 'g Git =
  git_merge :: "string \<Rightarrow> string \<Rightarrow> 'g \<Rightarrow> Captured result \<times> 'g"
  git_query :: "string list \<Rightarrow> (string \<times> string) list \<Rightarrow> int list \<Rightarrow> 'g \<Rightarrow> Captured result \<times> 'g"
  git_scratch :: "'g \<Rightarrow> (string + string) \<times> 'g"
  git_write :: "string \<Rightarrow> string \<Rightarrow> 'g \<Rightarrow> (string + unit) \<times> 'g"
  git_toml :: "string \<Rightarrow> toml_pointer"
  git_debug :: "string \<Rightarrow> string"

definition ASSEMBLY_LABEL :: string where
  "ASSEMBLY_LABEL = ''batch assembly''"

record AssemblyMember =
  am_story_id :: string
  am_branch :: string
  am_commit :: string

record Assembly =
  as_tip :: string
  as_tree :: string
  as_merges :: "string list"
  as_trees :: "string list"

definition assembly_push :: "string \<Rightarrow> string \<Rightarrow> Assembly \<Rightarrow> Assembly" where
  "assembly_push commit tree a =
     a\<lparr>as_merges := as_merges a @ [commit], as_trees := as_trees a @ [tree], as_tip := commit, as_tree := tree\<rparr>"

definition merge_onto :: "'g Git \<Rightarrow> string \<Rightarrow> AssemblyMember \<Rightarrow> 'g \<Rightarrow> TrialMerge result \<times> 'g" where
  "merge_onto env tip member =
     gbind (glift (require_pinned (git_debug env) (am_commit member) ASSEMBLY_LABEL))
       (\<lambda>_. gbind (git_merge env tip (am_commit member))
       (\<lambda>merged. glift (merge_answer (git_debug env) merged ASSEMBLY_LABEL tip (am_commit member))))"

definition merge_message :: "AssemblyMember \<Rightarrow> string \<Rightarrow> string" where
  "merge_message member branch = ''Merge '' @ am_story_id member @ '' ('' @ am_branch member @ '') into '' @ branch"

definition record_merge ::
  "'g Git \<Rightarrow> string \<Rightarrow> AssemblyMember \<Rightarrow> string \<Rightarrow> string \<Rightarrow> 'g \<Rightarrow> string result \<times> 'g" where
  "record_merge env tip member tree message =
     gbind (git_query env
         [''commit-tree'', ''--no-gpg-sign'', ''-p'', tip, ''-p'', am_commit member, ''-m'', message, tree] [] [])
       (\<lambda>committed. glift
         (if \<not> captured_success committed
          then Inl (Storage (ASSEMBLY_LABEL @ '' could not record the merge of '' @ am_story_id member @ '' (''
                      @ am_commit member @ ''): '' @ stderr_text committed))
          else answer_oid (git_debug env) (cap_stdout committed) ASSEMBLY_LABEL ''the merge commit''))"

fun assemble_loop :: "'g Git \<Rightarrow> string \<Rightarrow> AssemblyMember list \<Rightarrow> Assembly \<Rightarrow> 'g \<Rightarrow> Assembly result \<times> 'g" where
  "assemble_loop env branch [] a = glift (Inr a)"
| "assemble_loop env branch (member # members) a =
     gbind (merge_onto env (as_tip a) member)
       (\<lambda>merged.
         case merged of
           TrialConflict paths shape \<Rightarrow>
             glift (Inl (Storage (ASSEMBLY_LABEL @ '': '' @ am_story_id member @ '' ('' @ am_commit member
               @ '') conflicts with the batch so far in '' @ join '', '' paths)))
         | TrialClean tree \<Rightarrow>
             gbind (record_merge env (as_tip a) member tree (merge_message member branch))
               (\<lambda>commit. assemble_loop env branch members (assembly_push commit tree a)))"

definition assemble :: "'g Git \<Rightarrow> string \<Rightarrow> string \<Rightarrow> AssemblyMember list \<Rightarrow> 'g \<Rightarrow> Assembly result \<times> 'g" where
  "assemble env branch base members =
     gbind (glift (require_pinned (git_debug env) base ASSEMBLY_LABEL))
       (\<lambda>_. gbind (assemble_loop env branch members \<lparr>as_tip = base, as_tree = [], as_merges = [], as_trees = []\<rparr>)
       (\<lambda>a. glift
         (if as_merges a = []
          then Inl (Validation (ASSEMBLY_LABEL @ '' of '' @ branch @ '' has no members to merge''))
          else Inr a)))"

section \<open>The repository's blobs\<close>

definition repository_entry :: "'g Git \<Rightarrow> string \<Rightarrow> string \<Rightarrow> 'g \<Rightarrow> string option result \<times> 'g" where
  "repository_entry env treeish path =
     gbind (glift (entry_spec (git_debug env) treeish path))
       (\<lambda>spec. gbind (git_query env [''rev-parse'', ''--verify'', ''--quiet'', spec] [] [1])
       (\<lambda>c. glift (entry_answer (git_debug env) c ASSEMBLY_LABEL spec)))"

definition repository_blob :: "'g Git \<Rightarrow> string \<Rightarrow> 'g \<Rightarrow> string result \<times> 'g" where
  "repository_blob env oid =
     gbind (glift (require_pinned (git_debug env) oid ASSEMBLY_LABEL))
       (\<lambda>_. gbind (git_query env [''cat-file'', ''blob'', oid] [] [])
       (\<lambda>c. glift (blob_answer c ASSEMBLY_LABEL oid)))"

definition repository_file :: "'g Git \<Rightarrow> string \<Rightarrow> string \<Rightarrow> 'g \<Rightarrow> string option result \<times> 'g" where
  "repository_file env treeish path =
     gbind (glift (require_pinned (git_debug env) treeish ASSEMBLY_LABEL))
       (\<lambda>_. gbind (repository_entry env treeish path)
       (\<lambda>found.
         case found of
           None \<Rightarrow> glift (Inr None)
         | Some oid \<Rightarrow> gbind (repository_blob env oid) (\<lambda>bytes. glift (Inr (Some bytes)))))"

definition repository_blobs :: "'g Git \<Rightarrow> 'g BlobSource" where
  "repository_blobs env = \<lparr>bs_blob = repository_blob env, bs_file = repository_file env\<rparr>"

definition git_run :: "'g Git \<Rightarrow> string list \<Rightarrow> (string \<times> string) list \<Rightarrow> 'g \<Rightarrow> string result \<times> 'g" where
  "git_run env args vars =
     gbind (git_query env args vars [])
       (\<lambda>c. glift
         (if \<not> captured_success c
          then Inl (Storage (ASSEMBLY_LABEL @ '' git '' @ (case args of [] \<Rightarrow> [] | a # _ \<Rightarrow> a) @ '': '' @ stderr_text c))
          else Inr (cap_stdout c)))"

section \<open>The last member, smoothed\<close>

record SmoothedMerge =
  sm_branch :: string
  sm_batch :: string
  sm_base :: string
  sm_earlier :: "AssemblyMember list"
  sm_member :: AssemblyMember

datatype LastMerge = LastClean | LastResolved BatchResolution | LastRefused string

record ResolvedTree =
  rt_tree :: string
  rt_blobs :: "string list"

definition c_quote :: "string \<Rightarrow> string" where
  "c_quote path = CHR 34 # concat (map (\<lambda>c. if c = CHR 34 \<or> c = CHR 92 then [CHR 92, c] else [c]) path) @ [CHR 34]"

definition resolution_message :: "SmoothedMerge \<Rightarrow> BatchResolution \<Rightarrow> string" where
  "resolution_message merge r =
     (let others = (if br_conflicted_with r = [] then ''an earlier member'' else join '', '' (br_conflicted_with r));
          nl = [CHR 10]
      in merge_message (sm_member merge) (sm_branch merge) @ nl @ nl
         @ ''Automated conflict resolution ('' @ br_strategy r @ ''): '' @ am_story_id (sm_member merge) @ '' and ''
         @ others @ '' added lines at the same place in the files below, and neither changed a line of the base. ''
         @ ''This merge keeps both additions, the earlier member's first. No model wrote it; the verification gate ''
         @ ''certifies the merged tree.'' @ nl @ nl
         @ ''Storyhook-Batch: '' @ sm_batch merge @ nl @ ''Storyhook-Resolution: '' @ br_strategy r @ nl
         @ concat (map (\<lambda>m. ''Storyhook-Conflicted-With: '' @ m @ nl) (br_conflicted_with r))
         @ concat (map (\<lambda>f. ''Storyhook-Resolved-File: '' @ c_quote (rf_path f) @ nl) (br_files r)))"

fun write_blobs :: "'g Git \<Rightarrow> string \<Rightarrow> nat \<Rightarrow> SmoothedFile list \<Rightarrow> 'g \<Rightarrow> string list result \<times> 'g" where
  "write_blobs env scratch index [] = glift (Inr [])"
| "write_blobs env scratch index (file # files) =
     (let content = scratch @ ''/'' @ nat_str index @ ''.blob'' in
      gbind (gerror (\<lambda>e. Storage (ASSEMBLY_LABEL @ '': writing a union: '' @ e)) (git_write env content (sf_resolved file)))
        (\<lambda>_. gbind (git_run env [''hash-object'', ''-w'', ''--no-filters'', ''--'', content] [])
        (\<lambda>written. gbind (glift (answer_oid (git_debug env) written ASSEMBLY_LABEL ''a resolved blob''))
        (\<lambda>blob. gbind (write_blobs env scratch (index + 1) files)
        (\<lambda>blobs. glift (Inr (blob # blobs)))))))"

fun replace_entries :: "'g Git \<Rightarrow> (string \<times> string) list \<Rightarrow> (SmoothedFile \<times> string) list \<Rightarrow> 'g \<Rightarrow> unit result \<times> 'g" where
  "replace_entries env vars [] = glift (Inr ())"
| "replace_entries env vars ((file, blob) # rest) =
     gbind (git_run env [''update-index'', ''--cacheinfo'', ''100644,'' @ blob @ '','' @ sf_path file] vars)
       (\<lambda>_. replace_entries env vars rest)"

definition debug_strings :: "(string \<Rightarrow> string) \<Rightarrow> string list \<Rightarrow> string" where
  "debug_strings debug xs = ''['' @ join '', '' (map debug xs) @ '']''"

definition listed_paths :: "string \<Rightarrow> string list" where
  "listed_paths listed = map from_utf8_lossy (filter (\<lambda>p. p \<noteq> []) (split_on (CHR 0x00) listed))"

definition write_resolved_tree :: "'g Git \<Rightarrow> string \<Rightarrow> SmoothedFile list \<Rightarrow> 'g \<Rightarrow> ResolvedTree result \<times> 'g" where
  "write_resolved_tree env conflicted files =
     gbind (gerror (\<lambda>e. Storage (ASSEMBLY_LABEL @ '': a resolution directory: '' @ e)) (git_scratch env))
       (\<lambda>scratch. let vars = [(''GIT_INDEX_FILE'', scratch @ ''/index'')] in
        gbind (write_blobs env scratch 0 files)
       (\<lambda>blobs. gbind (git_run env [''read-tree'', conflicted] vars)
       (\<lambda>_. gbind (replace_entries env vars (zip files blobs))
       (\<lambda>_. gbind (git_run env [''write-tree''] vars)
       (\<lambda>written. gbind (glift (answer_oid (git_debug env) written ASSEMBLY_LABEL ''the resolved tree''))
       (\<lambda>tree. gbind (git_run env [''diff-tree'', ''-r'', ''--name-only'', ''-z'', conflicted, tree] [])
       (\<lambda>listed. glift
         (let changed = sort (listed_paths listed);
              expected = sort (map sf_path files)
          in if changed \<noteq> expected
             then Inl (Storage (ASSEMBLY_LABEL @ '': the resolved tree differs from Git's auto-merge at ''
                    @ debug_strings (git_debug env) changed @ '', not exactly at the smoothed paths ''
                    @ debug_strings (git_debug env) expected))
             else Inr \<lparr>rt_tree = tree, rt_blobs = blobs\<rparr>))))))))"

fun files_changed :: "'g Git \<Rightarrow> string \<Rightarrow> string \<Rightarrow> SmoothedFile list \<Rightarrow> 'g \<Rightarrow> bool result \<times> 'g" where
  "files_changed env before after [] = glift (Inr False)"
| "files_changed env before after (file # files) =
     gbind (repository_entry env before (sf_path file))
       (\<lambda>old. gbind (repository_entry env after (sf_path file))
       (\<lambda>new. if old \<noteq> new then glift (Inr True) else files_changed env before after files))"

fun conflicted_loop :: "'g Git \<Rightarrow> SmoothedFile list \<Rightarrow> string \<Rightarrow> (AssemblyMember \<times> string) list \<Rightarrow> 'g \<Rightarrow> string list result \<times> 'g" where
  "conflicted_loop env files before [] = glift (Inr [])"
| "conflicted_loop env files before ((member, tree) # rest) =
     gbind (files_changed env before tree files)
       (\<lambda>changed. gbind (conflicted_loop env files tree rest)
       (\<lambda>others. glift (Inr (if changed then am_story_id member # others else others))))"

definition conflicted_with :: "'g Git \<Rightarrow> SmoothedMerge \<Rightarrow> Assembly \<Rightarrow> SmoothedFile list \<Rightarrow> 'g \<Rightarrow> string list result \<times> 'g" where
  "conflicted_with env merge a files =
     conflicted_loop env files (sm_base merge @ ''^{tree}'') (zip (sm_earlier merge) (as_trees a))"

definition base_policy :: "'g Git \<Rightarrow> string \<Rightarrow> 'g \<Rightarrow> (string + SmoothPolicy) \<times> 'g" where
  "base_policy env base =
     gbind (gerror (\<lambda>e. ''reading the base's '' @ POINTER @ '' failed: '' @ display_error e) (repository_file env base POINTER))
       (\<lambda>raw. glift (policy_from_pointer (git_toml env) (git_debug env) raw))"

definition resolution_of :: "ConflictShape \<Rightarrow> SmoothedFile list \<Rightarrow> string list \<Rightarrow> string list \<Rightarrow> BatchResolution" where
  "resolution_of shape files blobs others =
     \<lparr>br_strategy = STRATEGY, br_conflicted_with = others, br_auto_merge_tree = cs_tree shape,
      br_files = map (\<lambda>(file, blob). \<lparr>rf_path = sf_path file, rf_base = sf_base file, rf_ours = sf_ours file,
                        rf_theirs = sf_theirs file, rf_resolved = blob\<rparr>) (zip files blobs)\<rparr>"

definition resolve_conflict ::
  "'g Git \<Rightarrow> SmoothedMerge \<Rightarrow> Assembly \<Rightarrow> ConflictShape \<Rightarrow> SmoothedFile list \<Rightarrow> 'g \<Rightarrow> (LastMerge \<times> Assembly) result \<times> 'g" where
  "resolve_conflict env merge a shape files =
     gbind (write_resolved_tree env (cs_tree shape) files)
       (\<lambda>resolved. gbind (conflicted_with env merge a files)
       (\<lambda>others. let r = resolution_of shape files (rt_blobs resolved) others in
        gbind (record_merge env (as_tip a) (sm_member merge) (rt_tree resolved) (resolution_message merge r))
       (\<lambda>commit. glift (Inr (LastResolved r, assembly_push commit (rt_tree resolved) a)))))"

definition smooth_conflict ::
  "'g Git \<Rightarrow> SmoothedMerge \<Rightarrow> Assembly \<Rightarrow> ConflictShape \<Rightarrow> 'g \<Rightarrow> (LastMerge \<times> Assembly) result \<times> 'g" where
  "smooth_conflict env merge a shape g =
     (case base_policy env (sm_base merge) g of
        (Inl why, g1) \<Rightarrow> (Inr (LastRefused why, a), g1)
      | (Inr policy, g1) \<Rightarrow>
          (case classify_merge (git_debug env) shape (repository_blobs env) g1 of
             (UnionSmoothable files, g2) \<Rightarrow>
               if admits_all policy files then resolve_conflict env merge a shape files g2
               else (Inr (LastRefused (''a conflicted path of '' @ join '', '' (shape_paths shape)
                       @ '' is not on the base's [batch] smooth list''), a), g2)
           | (AgentCandidate why, g2) \<Rightarrow> (Inr (LastRefused why, a), g2)
           | (NotSmoothable why, g2) \<Rightarrow> (Inr (LastRefused why, a), g2)))"

text \<open>The answer and the assembly after it; an error leaves the caller's assembly as it was.\<close>

definition merge_smoothed :: "'g Git \<Rightarrow> SmoothedMerge \<Rightarrow> Assembly \<Rightarrow> 'g \<Rightarrow> (LastMerge \<times> Assembly) result \<times> 'g" where
  "merge_smoothed env merge a =
     gbind (glift (require_pinned (git_debug env) (sm_base merge) ASSEMBLY_LABEL))
       (\<lambda>_. gbind (merge_onto env (as_tip a) (sm_member merge))
       (\<lambda>merged.
         case merged of
           TrialClean tree \<Rightarrow>
             gbind (record_merge env (as_tip a) (sm_member merge) tree (merge_message (sm_member merge) (sm_branch merge)))
               (\<lambda>commit. glift (Inr (LastClean, assembly_push commit tree a)))
         | TrialConflict paths shape \<Rightarrow> smooth_conflict env merge a shape))"

section \<open>The chain of merges\<close>

lemma record_merge_pinned: "record_merge env tip member tree message g = (Inr commit, g') \<Longrightarrow> is_pinned_oid commit"
  by (auto simp: record_merge_def g_ok answer_oid_pinned split: if_splits)

lemma merge_answer_clean: "merge_answer debug c label onto head = Inr (TrialClean tree) \<Longrightarrow> is_pinned_oid tree"
  by (auto simp: merge_answer_def Let_def result_bind_eq_Inr answer_oid_pinned split: option.splits if_splits sum.splits)

lemma merge_answer_conflict:
  "merge_answer debug c label onto head = Inr (TrialConflict paths shape) \<Longrightarrow> paths = shape_paths shape \<and> shape_ok shape"
  by (auto simp: merge_answer_def Let_def result_bind_eq_Inr parse_conflict_ok split: option.splits if_splits sum.splits)

lemma merge_onto_clean: "merge_onto env tip member g = (Inr (TrialClean tree), g') \<Longrightarrow> is_pinned_oid tree"
  by (auto simp: merge_onto_def g_ok merge_answer_clean)

lemma merge_onto_conflict:
  "merge_onto env tip member g = (Inr (TrialConflict paths shape), g') \<Longrightarrow> paths = shape_paths shape \<and> shape_ok shape"
  by (auto simp: merge_onto_def g_ok dest!: merge_answer_conflict)

text \<open>
  Every member was merged cleanly onto the tip before it, and the merge was recorded there: the commit and the tree
  at a position are those of the member at that position.
\<close>

definition merged_at :: "'g Git \<Rightarrow> string \<Rightarrow> string \<Rightarrow> AssemblyMember list \<Rightarrow> Assembly \<Rightarrow> nat \<Rightarrow> bool" where
  "merged_at env branch base members a i \<longleftrightarrow>
     (let tip = (base # as_merges a) ! i; member = members ! i; tree = as_trees a ! i in
      can_answer (merge_onto env tip member) (TrialClean tree)
      \<and> can_answer (record_merge env tip member tree (merge_message member branch)) (as_merges a ! i))"

definition chain_ok :: "'g Git \<Rightarrow> string \<Rightarrow> string \<Rightarrow> AssemblyMember list \<Rightarrow> Assembly \<Rightarrow> bool" where
  "chain_ok env branch base members a \<longleftrightarrow>
     length (as_merges a) = length members \<and> length (as_trees a) = length members
     \<and> as_tip a = last (base # as_merges a) \<and> list_all is_pinned_oid (as_merges a @ as_trees a)
     \<and> (members \<noteq> [] \<longrightarrow> as_tree a = last (as_trees a))
     \<and> (\<forall>i < length members. merged_at env branch base members a i)"

lemma chain_push:
  assumes "chain_ok env branch base prior a" and "merge_onto env (as_tip a) member g = (Inr (TrialClean tree), g1)"
    and "record_merge env (as_tip a) member tree (merge_message member branch) g1 = (Inr commit, g2)"
  shows "chain_ok env branch base (prior @ [member]) (assembly_push commit tree a)"
proof -
  let ?a = "assembly_push commit tree a"
  have len: "length (as_merges a) = length prior" "length (as_trees a) = length prior" and tip: "as_tip a = last (base # as_merges a)"
    using assms(1) by (simp_all add: chain_ok_def)
  have "merged_at env branch base (prior @ [member]) ?a i" if "i < length (prior @ [member])" for i
  proof (cases "i < length prior")
    case True
    then have "merged_at env branch base prior a i" using assms(1) by (simp add: chain_ok_def)
    then show ?thesis using True len
      by (simp add: merged_at_def Let_def assembly_push_def nth_append nth_Cons split: nat.splits)
  next
    case False
    then have i: "i = length prior" using that by simp
    have "(base # as_merges ?a) ! i = as_tip a" using tip len i
      by (cases "as_merges a = []") (auto simp: assembly_push_def last_conv_nth nth_append nth_Cons')
    then show ?thesis using assms(2,3) len i
      by (auto simp: merged_at_def Let_def assembly_push_def nth_append can_answer_def)
  qed
  then show ?thesis using assms merge_onto_clean record_merge_pinned
    by (auto simp: chain_ok_def assembly_push_def)
qed

lemma assemble_loop_chain:
  "assemble_loop env branch members a g = (Inr a', g') \<Longrightarrow> chain_ok env branch base prior a \<Longrightarrow>
   chain_ok env branch base (prior @ members) a'"
proof (induction env branch members a arbitrary: g prior rule: assemble_loop.induct)
  case (2 env branch member members a)
  then obtain merged g1 where m: "merge_onto env (as_tip a) member g = (Inr merged, g1)"
    and rest: "(case merged of
           TrialConflict paths shape \<Rightarrow>
             glift (Inl (Storage (ASSEMBLY_LABEL @ '': '' @ am_story_id member @ '' ('' @ am_commit member
               @ '') conflicts with the batch so far in '' @ join '', '' paths)))
         | TrialClean tree \<Rightarrow>
             gbind (record_merge env (as_tip a) member tree (merge_message member branch))
               (\<lambda>commit. assemble_loop env branch members (assembly_push commit tree a))) g1 = (Inr a', g')"
    unfolding assemble_loop.simps gbind_Inr by blast
  obtain tree where tree: "merged = TrialClean tree" using rest by (cases merged) (auto simp: glift_def)
  then obtain commit g2 where "record_merge env (as_tip a) member tree (merge_message member branch) g1 = (Inr commit, g2)"
      "assemble_loop env branch members (assembly_push commit tree a) g2 = (Inr a', g')"
    using rest by (auto simp: gbind_Inr)
  then show ?case using chain_push [OF "2.prems"(2)] "2.IH" m tree by fastforce
qed (simp add: glift_Inr)

text \<open>
  C31. An assembly holds one merge for each member, in their order, each made on the tip before it from the base on; its
  tip and tree are the last ones, and there is at least one.
\<close>

lemma assembly_chain:
  assumes "assemble env branch base members g = (Inr a, g')"
  shows "members \<noteq> [] \<and> chain_ok env branch base members a"
proof -
  let ?a = "\<lparr>as_tip = base, as_tree = [], as_merges = [], as_trees = []\<rparr>"
  obtain g1 where loop: "assemble_loop env branch members ?a g1 = (Inr a, g')" and some: "as_merges a \<noteq> []"
    using assms unfolding assemble_def gbind_unit gbind_Inr glift_Inr by (auto split: if_splits)
  have "chain_ok env branch base [] ?a" by (simp add: chain_ok_def)
  then have "chain_ok env branch base members a" using assemble_loop_chain [OF loop] by fastforce
  then show ?thesis using some by (auto simp: chain_ok_def)
qed

section \<open>The resolution\<close>

lemma write_blobs_ok:
  "write_blobs env scratch index files g = (Inr blobs, g') \<Longrightarrow> length blobs = length files \<and> list_all is_pinned_oid blobs"
  by (induction env scratch index files arbitrary: g blobs rule: write_blobs.induct)
    (fastforce simp: g_ok gbind_unit Let_def dest!: answer_oid_pinned)+

lemma write_resolved_tree_ok:
  assumes "write_resolved_tree env conflicted files g = (Inr resolved, g')"
  shows "length (rt_blobs resolved) = length files \<and> list_all is_pinned_oid (rt_blobs resolved) \<and> is_pinned_oid (rt_tree resolved)"
proof -
  obtain scratch blobs written tree g1 g2 where "write_blobs env scratch 0 files g1 = (Inr blobs, g2)"
      "answer_oid (git_debug env) written ASSEMBLY_LABEL ''the resolved tree'' = Inr tree"
      "resolved = \<lparr>rt_tree = tree, rt_blobs = blobs\<rparr>"
    using assms unfolding write_resolved_tree_def Let_def gbind_Inr glift_Inr by (auto split: if_splits)
  then show ?thesis by (auto dest: write_blobs_ok answer_oid_pinned)
qed

lemma lower_hex_any: "\<forall>b. (is_ascii_digit b \<or> CHR ''a'' \<le> b \<and> b \<le> CHR ''f'') \<longrightarrow> hex_any b"
  by code_simp

lemma pinned_oid: "is_pinned_oid oid \<Longrightarrow> pinned oid"
  using lower_hex_any by (auto simp: is_pinned_oid_def pinned_def list_all_iff)

lemma dedup_distinct: "distinct xs \<Longrightarrow> dedup_count xs = length xs"
  by (simp add: dedup_count_def remdups_adj_distinct)

lemma resolution_of_accepted:
  assumes "shape_ok shape" and "map sf_path files = shape_paths shape" and "files \<noteq> []"
    and "list_all (united debug shape blobs) files" and "length oids = length files" and "list_all is_pinned_oid oids"
  shows "resolution_refusal (resolution_of shape files oids others) = None"
proof -
  let ?r = "resolution_of shape files oids others"
  have paths: "map rf_path (br_files ?r) = shape_paths shape"
    using assms(2,5) by (simp add: resolution_of_def o_def case_prod_beta' map_fst_zip flip: map_map [of sf_path fst, unfolded o_def])
  have "pinned (rf_base f) \<and> pinned (rf_ours f) \<and> pinned (rf_theirs f) \<and> pinned (rf_resolved f) \<and> rf_path f \<noteq> []"
    if f: "f \<in> set (br_files ?r)" for f
  proof -
    obtain sf oid where "(sf, oid) \<in> set (zip files oids)" and f: "f = \<lparr>rf_path = sf_path sf, rf_base = sf_base sf,
        rf_ours = sf_ours sf, rf_theirs = sf_theirs sf, rf_resolved = oid\<rparr>"
      using f by (auto simp: resolution_of_def)
    then have "sf \<in> set files" "oid \<in> set oids" by (auto dest: set_zip_leftD set_zip_rightD)
    then have "united debug shape blobs sf" "is_pinned_oid oid" using assms(4,6) by (auto simp: list_all_iff)
    then show ?thesis using united_oids [of debug shape blobs sf] assms(1) by (simp add: f pinned_oid)
  qed
  moreover have "dedup_count (map rf_path (br_files ?r)) = length (br_files ?r)"
    using dedup_distinct [OF shape_paths_set(1)] paths by (metis length_map)
  moreover have "br_files ?r \<noteq> []" using paths assms(2,3) by auto
  moreover have "pinned (br_auto_merge_tree ?r)" "br_strategy ?r \<noteq> []"
    using assms(1) pinned_oid by (simp_all add: resolution_of_def shape_ok_def STRATEGY_def)
  ultimately show ?thesis by (fastforce simp: resolution_refusal_def Let_def list_ex_iff)
qed

text \<open>What a resolution that was answered rests on: a conflict, its files, and the allowlist of the base.\<close>

definition resolution_rests ::
  "'g Git \<Rightarrow> SmoothedMerge \<Rightarrow> Assembly \<Rightarrow> BatchResolution \<Rightarrow> Assembly \<Rightarrow> ConflictShape \<Rightarrow> SmoothedFile list \<Rightarrow> SmoothPolicy \<Rightarrow> bool" where
  "resolution_rests env merge a r a' shape files policy \<longleftrightarrow>
     can_answer (merge_onto env (as_tip a) (sm_member merge)) (TrialConflict (shape_paths shape) shape)
     \<and> can_answer (base_policy env (sm_base merge)) policy
     \<and> map rf_path (br_files r) = shape_paths shape \<and> map sf_path files = shape_paths shape
     \<and> length files \<le> MAX_SMOOTHED_PATHS
     \<and> list_all (\<lambda>f. policy_admits policy (sf_path f) \<and> united (git_debug env) shape (repository_blobs env) f) files
     \<and> (\<exists>commit tree. is_pinned_oid commit \<and> is_pinned_oid tree \<and> a' = assembly_push commit tree a)"

lemma resolve_conflict_ok:
  assumes "resolve_conflict env merge a shape files g = (Inr (answer, a'), g')"
  shows "\<exists>oids others commit tree. answer = LastResolved (resolution_of shape files oids others) \<and> length oids = length files
    \<and> list_all is_pinned_oid oids \<and> is_pinned_oid commit \<and> is_pinned_oid tree \<and> a' = assembly_push commit tree a"
proof -
  obtain resolved others commit g1 g2 g3 where "write_resolved_tree env (cs_tree shape) files g = (Inr resolved, g1)"
      "record_merge env (as_tip a) (sm_member merge) (rt_tree resolved)
         (resolution_message merge (resolution_of shape files (rt_blobs resolved) others)) g2 = (Inr commit, g3)"
      "answer = LastResolved (resolution_of shape files (rt_blobs resolved) others)"
      "a' = assembly_push commit (rt_tree resolved) a"
    using assms unfolding resolve_conflict_def Let_def gbind_Inr glift_Inr by blast
  moreover from this(1,2) have "length (rt_blobs resolved) = length files \<and> list_all is_pinned_oid (rt_blobs resolved) \<and> is_pinned_oid (rt_tree resolved)"
      "is_pinned_oid commit"
    by (auto dest!: write_resolved_tree_ok record_merge_pinned)
  ultimately show ?thesis by blast
qed

lemma smooth_conflict_resolved:
  assumes "smooth_conflict env merge a shape g = (Inr (LastResolved r, a'), g')" and "shape_ok shape"
    and "can_answer (merge_onto env (as_tip a) (sm_member merge)) (TrialConflict (shape_paths shape) shape)"
  shows "(\<exists>files policy. resolution_rests env merge a r a' shape files policy) \<and> resolution_refusal r = None"
proof -
  obtain policy files g1 g2 where policy: "base_policy env (sm_base merge) g = (Inr policy, g1)"
    and files: "classify_merge (git_debug env) shape (repository_blobs env) g1 = (UnionSmoothable files, g2)"
    and all: "admits_all policy files" and r: "resolve_conflict env merge a shape files g2 = (Inr (LastResolved r, a'), g')"
    using assms(1) by (auto simp: smooth_conflict_def split: prod.splits sum.splits Classification.splits if_splits)
  note u = classify_merge_united [OF files]
  obtain oids others commit tree where res: "r = resolution_of shape files oids others" "length oids = length files"
      "list_all is_pinned_oid oids" "is_pinned_oid commit" "is_pinned_oid tree" "a' = assembly_push commit tree a"
    using resolve_conflict_ok [OF r] by blast
  have "map rf_path (br_files r) = shape_paths shape"
    using u(1) res(2) by (simp add: res(1) resolution_of_def o_def case_prod_beta' map_fst_zip flip: map_map [of sf_path fst, unfolded o_def])
  then have "resolution_rests env merge a r a' shape files policy"
    using assms(3) policy all u res unfolding resolution_rests_def admits_all_def can_answer_def by (auto simp: list_all_iff)
  then show ?thesis using resolution_of_accepted [OF assms(2) u(1,2,4) res(2,3), of others] unfolding res(1) by blast
qed

lemma smooth_conflict_last:
  "smooth_conflict env merge a shape g = (Inr (answer, a'), g') \<Longrightarrow>
   (\<exists>r. answer = LastResolved r) \<or> ((\<exists>why. answer = LastRefused why) \<and> a' = a)"
  by (auto simp: smooth_conflict_def dest: resolve_conflict_ok split: prod.splits sum.splits Classification.splits if_splits)


section \<open>Two specifications with a new section each\<close>

definition sample_oid :: "char \<Rightarrow> string" where
  "sample_oid c = map (\<lambda>_. c) ''0123456789012345678901234567890123456789''"

definition sample_conflict :: string where
  "sample_conflict =
     concat (map (\<lambda>l. l @ [CHR 10]) [''# Spec'', ''<<<<<<< ours'', ''one'', ''||||||| base'', ''======='', ''two'', ''>>>>>>> theirs''])"

definition sample_listed :: string where
  "sample_listed = ''docs/a.md'' @ [CHR 0x00]"

definition sample_git_answer :: "string list \<Rightarrow> string" where
  "sample_git_answer args =
     (if hd args = ''cat-file'' then (if args ! 2 = sample_oid CHR ''e'' then sample_conflict else ''# Spec'' @ [CHR 10])
      else if hd args = ''rev-parse'' then sample_oid CHR ''e''
      else if hd args = ''hash-object'' then sample_oid CHR ''f''
      else if hd args = ''write-tree'' then sample_oid CHR ''7''
      else if hd args = ''diff-tree'' then sample_listed
      else if hd args = ''commit-tree'' then sample_oid CHR ''9''
      else [])"

definition sample_git :: "bool \<Rightarrow> unit Git" where
  "sample_git clean =
     \<lparr>git_merge = (\<lambda>tip head g.
        (Inr (if clean then \<lparr>cap_code = Some 0, cap_stdout = sample_oid CHR ''8'' @ [CHR 0x00], cap_stderr = []\<rparr>
              else \<lparr>cap_code = Some 1,
                cap_stdout = conflict_output (sample_oid CHR ''4'')
                  (map (\<lambda>n. \<lparr>se_mode = ''100644'', se_oid = sample_oid (digit_char n), se_stage = n, se_path = ''docs/a.md''\<rparr>) [1, 2, 3])
                  [(\<lparr>cr_kind = ''Auto-merging'', cr_paths = [''docs/a.md'']\<rparr>, ''docs'')], cap_stderr = []\<rparr>), g)),
      git_query = (\<lambda>args vars codes g. (Inr \<lparr>cap_code = Some 0, cap_stdout = sample_git_answer args, cap_stderr = []\<rparr>, g)),
      git_scratch = (\<lambda>g. (Inr ''/tmp/r'', g)), git_write = (\<lambda>path content g. (Inr (), g)),
      git_toml = (\<lambda>text. Inr (Some (Inr (Some [''docs/''])))), git_debug = (\<lambda>s. s)\<rparr>"

definition sample_members :: "AssemblyMember list" where
  "sample_members = [\<lparr>am_story_id = ''SH-1'', am_branch = ''one'', am_commit = sample_oid CHR ''a''\<rparr>,
     \<lparr>am_story_id = ''SH-2'', am_branch = ''two'', am_commit = sample_oid CHR ''b''\<rparr>]"

definition sample_smoothed :: SmoothedMerge where
  "sample_smoothed = \<lparr>sm_branch = ''storyhook/verify-batch/0123456789ab'', sm_batch = ''0123456789ab'', sm_base = sample_oid CHR ''0'',
     sm_earlier = [hd sample_members], sm_member = last sample_members\<rparr>"

definition sample_assembly :: Assembly where
  "sample_assembly = \<lparr>as_tip = sample_oid CHR ''9'', as_tree = sample_oid CHR ''8'', as_merges = [sample_oid CHR ''9''],
     as_trees = [sample_oid CHR ''8'']\<rparr>"

lemma sample_assembled:
  "assemble (sample_git True) ''b'' (sample_oid CHR ''0'') (take 1 sample_members) () = (Inr sample_assembly, ())"
  by code_simp

definition sample_resolution :: BatchResolution where
  "sample_resolution =
     \<lparr>br_strategy = STRATEGY, br_conflicted_with = [], br_auto_merge_tree = sample_oid CHR ''4'',
      br_files = [\<lparr>rf_path = ''docs/a.md'', rf_base = sample_oid CHR ''1'', rf_ours = sample_oid CHR ''2'',
        rf_theirs = sample_oid CHR ''3'', rf_resolved = sample_oid CHR ''f''\<rparr>]\<rparr>"

definition sample_resolved_assembly :: Assembly where
  "sample_resolved_assembly = assembly_push (sample_oid CHR ''9'') (sample_oid CHR ''7'') sample_assembly"

definition sample_shape :: ConflictShape where
  "sample_shape =
     \<lparr>cs_tree = sample_oid CHR ''4'',
      cs_stages = map (\<lambda>n. \<lparr>se_mode = ''100644'', se_oid = sample_oid (digit_char n), se_stage = n, se_path = ''docs/a.md''\<rparr>) [1, 2, 3],
      cs_records = [\<lparr>cr_kind = ''Auto-merging'', cr_paths = [''docs/a.md'']\<rparr>]\<rparr>"

definition sample_file :: SmoothedFile where
  "sample_file = \<lparr>sf_path = ''docs/a.md'', sf_base = sample_oid CHR ''1'', sf_ours = sample_oid CHR ''2'',
     sf_theirs = sample_oid CHR ''3'', sf_resolved = concat (map (\<lambda>l. l @ [CHR 10]) [''# Spec'', ''one'', ''two''])\<rparr>"

abbreviation sample_world :: "unit Git" where
  "sample_world \<equiv> sample_git False"

abbreviation sample_index :: "(string \<times> string) list" where
  "sample_index \<equiv> [(''GIT_INDEX_FILE'', ''/tmp/r/index'')]"

lemma sample_git_runs:
  "git_scratch sample_world () = (Inr ''/tmp/r'', ())"
  "git_run sample_world [''read-tree'', tree] vars () = (Inr [], ())"
  "git_run sample_world [''write-tree''] vars () = (Inr (sample_oid CHR ''7''), ())"
  "git_run sample_world [''diff-tree'', a, b, c, d, e] vars () = (Inr sample_listed, ())"
  "git_run sample_world [''update-index'', a, b] vars () = (Inr [], ())"
  by (simp_all add: git_run_def sample_git_def gbind_def glift_def captured_success_def sample_git_answer_def)

lemma sample_answers:
  "answer_oid (git_debug sample_world) (sample_oid CHR ''7'') ASSEMBLY_LABEL what = Inr (sample_oid CHR ''7'')"
  "answer_oid (git_debug sample_world) (sample_oid CHR ''9'') ASSEMBLY_LABEL what = Inr (sample_oid CHR ''9'')"
proof -
  have t: "trim (from_utf8_lossy (sample_oid CHR ''7'')) = sample_oid CHR ''7''"
      "trim (from_utf8_lossy (sample_oid CHR ''9'')) = sample_oid CHR ''9''"
      "is_pinned_oid (sample_oid CHR ''7'')" "is_pinned_oid (sample_oid CHR ''9'')" by code_simp+
  show "answer_oid (git_debug sample_world) (sample_oid CHR ''7'') ASSEMBLY_LABEL what = Inr (sample_oid CHR ''7'')"
    "answer_oid (git_debug sample_world) (sample_oid CHR ''9'') ASSEMBLY_LABEL what = Inr (sample_oid CHR ''9'')"
    by (simp_all add: answer_oid_def t)
qed

lemma sample_blobs: "write_blobs sample_world scratch index [sample_file] () = (Inr [sample_oid CHR ''f''], ())"
proof -
  have t: "trim (from_utf8_lossy (sample_oid CHR ''f'')) = sample_oid CHR ''f''" "is_pinned_oid (sample_oid CHR ''f'')" by code_simp+
  then have "answer_oid (git_debug sample_world) (sample_oid CHR ''f'') ASSEMBLY_LABEL what = Inr (sample_oid CHR ''f'')" for what
    by (simp add: answer_oid_def)
  moreover have "git_write sample_world path content () = (Inr (), ())" for path content by (simp add: sample_git_def)
  moreover have "git_run sample_world [''hash-object'', a, b, c, d] [] () = (Inr (sample_oid CHR ''f''), ())" for a b c d
    by (simp add: git_run_def sample_git_def gbind_def glift_def captured_success_def sample_git_answer_def)
  ultimately show ?thesis by (simp add: Let_def gbind_def glift_def gerror_def)
qed

lemma sample_changed: "listed_paths sample_listed = [sf_path sample_file]"
  by code_simp

lemma sample_tree:
  "write_resolved_tree sample_world (sample_oid CHR ''4'') [sample_file] ()
    = (Inr \<lparr>rt_tree = sample_oid CHR ''7'', rt_blobs = [sample_oid CHR ''f'']\<rparr>, ())"
  by (simp add: write_resolved_tree_def Let_def gbind_def glift_def gerror_def sample_git_runs sample_answers sample_blobs
      sample_changed del: write_blobs.simps)

lemma sample_conflict_run:
  "require_pinned (git_debug sample_world) (sm_base sample_smoothed) ASSEMBLY_LABEL = Inr ()"
  "merge_onto sample_world (as_tip sample_assembly) (sm_member sample_smoothed) ()
    = (Inr (TrialConflict [''docs/a.md''] sample_shape), ())"
  by code_simp+

lemma sample_policy_run:
  "base_policy sample_world (sm_base sample_smoothed) () = (Inr \<lparr>sp_rules = [Under ''docs/'']\<rparr>, ())"
  by code_simp

lemma sample_classified:
  "classify_merge (git_debug sample_world) sample_shape (repository_blobs sample_world) () = (UnionSmoothable [sample_file], ())"
  by code_simp

lemma sample_admitted: "admits_all \<lparr>sp_rules = [Under ''docs/'']\<rparr> [sample_file]"
  by code_simp

lemma sample_conflicted_with: "conflicted_with sample_world sample_smoothed sample_assembly [sample_file] () = (Inr [], ())"
  by code_simp

lemma sample_recorded: "record_merge sample_world tip member tree message () = (Inr (sample_oid CHR ''9''), ())"
proof -
  have "git_query sample_world [''commit-tree'', a, b, c, d, e, f, h, i] vars codes ()
      = (Inr \<lparr>cap_code = Some 0, cap_stdout = sample_oid CHR ''9'', cap_stderr = []\<rparr>, ())" for a b c d e f h i vars codes
    by (simp add: sample_git_def sample_git_answer_def)
  then show ?thesis
    by (simp add: record_merge_def gbind_def glift_def captured_success_def sample_answers)
qed

lemma sample_resolved:
  "merge_smoothed sample_world sample_smoothed sample_assembly ()
    = (Inr (LastResolved sample_resolution, sample_resolved_assembly), ())"
proof -
  have "cs_tree sample_shape = sample_oid CHR ''4''" by (simp add: sample_shape_def)
  moreover have "resolution_of sample_shape [sample_file] [sample_oid CHR ''f''] [] = sample_resolution"
    by (simp add: resolution_of_def sample_shape_def sample_file_def sample_resolution_def)
  ultimately have "resolve_conflict sample_world sample_smoothed sample_assembly sample_shape [sample_file] ()
      = (Inr (LastResolved sample_resolution, sample_resolved_assembly), ())"
    by (simp add: resolve_conflict_def gbind_def glift_def sample_tree sample_conflicted_with sample_recorded sample_resolved_assembly_def)
  then have "smooth_conflict sample_world sample_smoothed sample_assembly sample_shape ()
      = (Inr (LastResolved sample_resolution, sample_resolved_assembly), ())"
    by (simp add: smooth_conflict_def sample_policy_run sample_classified sample_admitted)
  then show ?thesis by (simp add: merge_smoothed_def gbind_def glift_def sample_conflict_run)
qed

text \<open>Two stories that each add a section: the first is merged cleanly, the second with its conflict united.\<close>

lemma assembly_chain_witness:
  "chain_ok (sample_git True) ''b'' (sample_oid CHR ''0'') (take 1 sample_members) sample_assembly"
  using assembly_chain [OF sample_assembled] by blast


end
